(* ===== verification/Prelude.thy ===== *)
theory Prelude
  imports Main "HOL-Library.Word" "HOL-Library.AList"
begin

text \<open>
  The vocabulary every component theory shares.

  \<^item> Go's data: \<open>byte\<close> and \<open>bytes\<close> for \<open>byte\<close> and \<open>[]byte\<close>, instants and durations in
    nanoseconds, \<open>int64\<close> arithmetic with its wrap-around, \<open>encoding/binary\<close>'s big-endian
    integers.
  \<^item> Go maps (\<open>gm_lookup\<close>, \<open>gm_put\<close>, \<open>gm_delete\<close>, \<open>gm_len\<close>) as association lists with
    distinct keys. The order in which a \<open>range\<close> statement visits a map is not determined by
    the language: an operation that depends on it takes the order as an argument.
  \<^item> The interface \<open>bounded_store\<close>: the three caches of the program (accepted nonces,
    pending UDP assemblies, tracked IP addresses) all make room before they insert.
  \<^item> The collections \<open>gomap\<close> and \<open>bin_simps\<close> that the component proofs pass to the
    simplifier.
\<close>

named_theorems gomap
named_theorems bin_simps

section \<open>Bytes, instants, machine integers\<close>

type_synonym byte = "8 word"
type_synonym bytes = "byte list"
type_synonym instant = int
type_synonym duration = int

abbreviation second :: duration where "second \<equiv> 1000000000"
abbreviation millisecond :: duration where "millisecond \<equiv> 1000000"
abbreviation minute :: duration where "minute \<equiv> 60000000000"

text \<open>Go's \<open>int64\<close>, the type of \<open>time.Duration\<close> and of Unix seconds, wraps around.\<close>

definition to_int64 :: "int \<Rightarrow> int" where
  "to_int64 i = signed_take_bit 63 i"

lemma to_int64_id: "- (2 ^ 63) \<le> i \<Longrightarrow> i < 2 ^ 63 \<Longrightarrow> to_int64 i = i"
  by (simp add: to_int64_def signed_take_bit_int_eq_self)

lemma to_int64_range: "- (2 ^ 63) \<le> to_int64 i \<and> to_int64 i < 2 ^ 63"
  using signed_take_bit_int_greater_eq_minus_exp [of 63 i] signed_take_bit_int_less_exp [of 63 i]
  by (simp add: to_int64_def)

text \<open>Strings and byte slices convert byte by byte.\<close>

definition bytes_of_string :: "string \<Rightarrow> bytes" where
  "bytes_of_string s = map of_char s"

definition string_of_bytes :: "bytes \<Rightarrow> string" where
  "string_of_bytes bs = map (\<lambda>b. char_of (unat b)) bs"

lemma unat_of_char [simp]: "unat (of_char c :: byte) = of_char c"
  by (simp add: of_char_def)

lemma byte_of_char_of [simp]: "(of_char (char_of (unat (b :: byte))) :: byte) = b"
proof -
  have "unat b < 256"
    using unsigned_less [of b] by simp
  then have "unat (of_char (char_of (unat b)) :: byte) = unat b"
    by simp
  then show ?thesis
    by (rule unsigned_word_eqI)
qed

lemma string_of_bytes_of_string [simp]: "string_of_bytes (bytes_of_string s) = s"
  by (simp add: bytes_of_string_def string_of_bytes_def o_def)

lemma bytes_of_string_of_bytes [simp]: "bytes_of_string (string_of_bytes bs) = bs"
  by (simp add: bytes_of_string_def string_of_bytes_def o_def)

lemma length_bytes_of_string [simp]: "length (bytes_of_string s) = length s"
  by (simp add: bytes_of_string_def)

lemma length_string_of_bytes [simp]: "length (string_of_bytes bs) = length bs"
  by (simp add: string_of_bytes_def)

lemma bytes_of_string_inj [simp]: "bytes_of_string s = bytes_of_string t \<longleftrightarrow> s = t"
  by (metis string_of_bytes_of_string)

section \<open>Big-endian integers (encoding/binary)\<close>

fun be_put :: "nat \<Rightarrow> nat \<Rightarrow> bytes" where
  "be_put 0 v = []"
| "be_put (Suc n) v = be_put n (v div 256) @ [of_nat v]"

definition be_get :: "bytes \<Rightarrow> nat" where
  "be_get bs = foldl (\<lambda>acc b. acc * 256 + unat b) 0 bs"

definition PutUint16 :: "16 word \<Rightarrow> bytes" where "PutUint16 w = be_put 2 (unat w)"
definition PutUint32 :: "32 word \<Rightarrow> bytes" where "PutUint32 w = be_put 4 (unat w)"
definition PutUint64 :: "64 word \<Rightarrow> bytes" where "PutUint64 w = be_put 8 (unat w)"
definition Uint16 :: "bytes \<Rightarrow> 16 word" where "Uint16 bs = of_nat (be_get bs)"
definition Uint32 :: "bytes \<Rightarrow> 32 word" where "Uint32 bs = of_nat (be_get bs)"
definition Uint64 :: "bytes \<Rightarrow> 64 word" where "Uint64 bs = of_nat (be_get bs)"

lemma length_be_put [simp]: "length (be_put n v) = n"
  by (induction n v rule: be_put.induct) auto

lemma be_get_snoc: "be_get (bs @ [b]) = be_get bs * 256 + unat b"
  by (simp add: be_get_def)

lemma be_get_put: "be_get (be_put n v) = v mod 256 ^ n"
proof (induction n v rule: be_put.induct)
  case (1 v)
  then show ?case by (simp add: be_get_def)
next
  case (2 n v)
  have "v mod (256 * 256 ^ n) = 256 * (v div 256 mod 256 ^ n) + v mod 256"
    by (rule mod_mult2_eq)
  with 2 show ?case
    by (simp add: be_get_snoc unsigned_of_nat take_bit_eq_mod)
qed

lemma be_put_get: "be_put (length bs) (be_get bs) = bs"
proof (induction bs rule: rev_induct)
  case Nil
  then show ?case by simp
next
  case (snoc b bs)
  have "unat b < 256"
    using unsigned_less [of b] by simp
  then have "(be_get bs * 256 + unat b) div 256 = be_get bs"
    by simp
  moreover have "of_nat (be_get bs * 256 + unat b) = b"
  proof -
    have "(of_nat (be_get bs * 256 + unat b) :: byte) = of_nat (be_get bs) * of_nat 256 + b"
      by simp
    also have "(of_nat 256 :: byte) = 0"
      by simp
    finally show ?thesis by simp
  qed
  ultimately show ?case
    using snoc.IH by (simp add: be_get_snoc)
qed

lemma be_get_less: "be_get bs < 256 ^ length bs"
  using be_get_put [of "length bs" "be_get bs"] be_put_get [of bs]
  by (metis mod_less_divisor zero_less_numeral zero_less_power)

lemma Uint16_PutUint16 [simp]: "Uint16 (PutUint16 w) = w"
  using unsigned_less [where 'a = nat, of w] by (simp add: Uint16_def PutUint16_def be_get_put)

lemma Uint32_PutUint32 [simp]: "Uint32 (PutUint32 w) = w"
  using unsigned_less [where 'a = nat, of w] by (simp add: Uint32_def PutUint32_def be_get_put)

lemma Uint64_PutUint64 [simp]: "Uint64 (PutUint64 w) = w"
  using unsigned_less [where 'a = nat, of w] by (simp add: Uint64_def PutUint64_def be_get_put)

lemma length_PutUint [simp]:
  "length (PutUint16 w) = 2" "length (PutUint32 x) = 4" "length (PutUint64 y) = 8"
  by (simp_all add: PutUint16_def PutUint32_def PutUint64_def)

lemma PutUint16_Uint16: "length bs = 2 \<Longrightarrow> PutUint16 (Uint16 bs) = bs"
  using be_get_less [of bs] be_put_get [of bs]
  by (simp add: PutUint16_def Uint16_def unsigned_of_nat take_bit_eq_mod)

lemma PutUint32_Uint32: "length bs = 4 \<Longrightarrow> PutUint32 (Uint32 bs) = bs"
  using be_get_less [of bs] be_put_get [of bs]
  by (simp add: PutUint32_def Uint32_def unsigned_of_nat take_bit_eq_mod)

lemma PutUint64_Uint64: "length bs = 8 \<Longrightarrow> PutUint64 (Uint64 bs) = bs"
  using be_get_less [of bs] be_put_get [of bs]
  by (simp add: PutUint64_def Uint64_def unsigned_of_nat take_bit_eq_mod)

lemma PutUint_inj [simp]:
  "PutUint16 v = PutUint16 w \<longleftrightarrow> v = w"
  "PutUint32 x = PutUint32 y \<longleftrightarrow> x = y"
  "PutUint64 a = PutUint64 b \<longleftrightarrow> a = b"
  by (metis Uint16_PutUint16, metis Uint32_PutUint32, metis Uint64_PutUint64)

section \<open>Go maps\<close>

type_synonym ('k, 'v) gomap = "('k \<times> 'v) list"

definition gm_lookup :: "('k, 'v) gomap \<Rightarrow> 'k \<Rightarrow> 'v option" where
  "gm_lookup m k = map_of m k"

definition gm_put :: "'k \<Rightarrow> 'v \<Rightarrow> ('k, 'v) gomap \<Rightarrow> ('k, 'v) gomap" where
  "gm_put k v m = AList.update k v m"

definition gm_delete :: "'k \<Rightarrow> ('k, 'v) gomap \<Rightarrow> ('k, 'v) gomap" where
  "gm_delete k m = AList.delete k m"

definition gm_len :: "('k, 'v) gomap \<Rightarrow> nat" where
  "gm_len m = length m"

definition gm_keys :: "('k, 'v) gomap \<Rightarrow> 'k set" where
  "gm_keys m = fst ` set m"

definition gm_wf :: "('k, 'v) gomap \<Rightarrow> bool" where
  "gm_wf m \<longleftrightarrow> distinct (map fst m)"

text \<open>\<open>it\<close> is one of the orders in which \<open>range m\<close> may visit the keys of \<open>m\<close>.\<close>

definition gm_order :: "'k list \<Rightarrow> ('k, 'v) gomap \<Rightarrow> bool" where
  "gm_order it m \<longleftrightarrow> distinct it \<and> set it = set (map fst m)"

lemma gm_lookup_Nil [gomap, simp]: "gm_lookup [] k = None"
  by (simp add: gm_lookup_def)

lemma gm_lookup_put [gomap]: "gm_lookup (gm_put k v m) k' = (if k' = k then Some v else gm_lookup m k')"
  by (simp add: gm_lookup_def gm_put_def update_conv')

lemma gm_lookup_delete [gomap]: "gm_lookup (gm_delete k m) k' = (if k' = k then None else gm_lookup m k')"
  by (simp add: gm_lookup_def gm_delete_def delete_conv')

lemma gm_wf_Nil [gomap, simp]: "gm_wf []"
  by (simp add: gm_wf_def)

lemma gm_wf_put [gomap, intro]: "gm_wf m \<Longrightarrow> gm_wf (gm_put k v m)"
  by (simp add: gm_wf_def gm_put_def distinct_update)

lemma gm_wf_delete [gomap, intro]: "gm_wf m \<Longrightarrow> gm_wf (gm_delete k m)"
  by (simp add: gm_wf_def gm_delete_def distinct_delete)

lemma gm_keys_lookup: "k \<in> gm_keys m \<longleftrightarrow> gm_lookup m k \<noteq> None"
  by (simp add: gm_keys_def gm_lookup_def map_of_eq_None_iff)

lemma gm_keys_Nil [gomap, simp]: "gm_keys [] = {}"
  by (simp add: gm_keys_def)

lemma gm_keys_put [gomap]: "gm_keys (gm_put k v m) = insert k (gm_keys m)"
  by (auto simp: gm_keys_lookup gm_lookup_put split: if_splits)

lemma gm_keys_delete [gomap]: "gm_keys (gm_delete k m) = gm_keys m - {k}"
  by (auto simp: gm_keys_lookup gm_lookup_delete split: if_splits)

lemma gm_len_card: "gm_wf m \<Longrightarrow> gm_len m = card (gm_keys m)"
  using distinct_card [of "map fst m"] by (simp add: gm_wf_def gm_len_def gm_keys_def)

lemma finite_gm_keys [simp]: "finite (gm_keys m)"
  by (simp add: gm_keys_def)

lemma gm_len_put:
  "gm_wf m \<Longrightarrow> gm_len (gm_put k v m) = (if k \<in> gm_keys m then gm_len m else Suc (gm_len m))"
  by (simp add: gm_len_card gm_wf_put gm_keys_put insert_absorb)

lemma gm_len_delete:
  "gm_wf m \<Longrightarrow> gm_len (gm_delete k m) = (if k \<in> gm_keys m then gm_len m - 1 else gm_len m)"
  by (simp add: gm_len_card gm_wf_delete gm_keys_delete)

lemma gm_order_keys: "gm_order it m \<Longrightarrow> set it = gm_keys m"
  by (simp add: gm_order_def gm_keys_def)

lemma gm_order_self: "gm_wf m \<Longrightarrow> gm_order (map fst m) m"
  by (simp add: gm_order_def gm_wf_def)

text \<open>Deleting during a \<open>range\<close>, whatever the order, is filtering.\<close>

lemma gm_lookup_filter [gomap]:
  "gm_wf m \<Longrightarrow> gm_lookup (filter (\<lambda>(k, v). P v) m) k =
     (case gm_lookup m k of None \<Rightarrow> None | Some v \<Rightarrow> if P v then Some v else None)"
proof (induction m)
  case Nil
  then show ?case by simp
next
  case (Cons e m)
  have "map_of m (fst e) = None" if "gm_wf (e # m)"
    using that by (simp add: gm_wf_def map_of_eq_None_iff)
  with Cons show ?case
    by (cases e) (auto simp: gm_lookup_def gm_wf_def)
qed

lemma gm_wf_filter [gomap, intro]: "gm_wf m \<Longrightarrow> gm_wf (filter P m)"
  by (simp add: gm_wf_def distinct_map_filter)

lemma gm_len_filter: "gm_len (filter P m) \<le> gm_len m"
  by (simp add: gm_len_def)

lemma gm_lookup_Some_in: "gm_lookup m k = Some v \<Longrightarrow> (k, v) \<in> set m"
  by (simp add: gm_lookup_def map_of_SomeD)

lemma gm_in_lookup: "gm_wf m \<Longrightarrow> (k, v) \<in> set m \<Longrightarrow> gm_lookup m k = Some v"
  by (simp add: gm_lookup_def gm_wf_def)

section \<open>Stores that make room before they insert\<close>

text \<open>
  The contract the accepted-nonce cache, the fragment decoder and the rate limiter share: an
  eviction removes exactly one entry, an insertion adds at most one, and both keep the store's
  invariant. \<open>hint\<close> is what the eviction's choice may depend on (the visiting order of a
  \<open>range\<close> over the map).
\<close>

locale bounded_store =
  fixes size_of :: "'s \<Rightarrow> nat"
    and evict :: "'h \<Rightarrow> 's \<Rightarrow> 's"
    and admissible :: "'h \<Rightarrow> 's \<Rightarrow> bool"
    and store :: "'k \<Rightarrow> 'v \<Rightarrow> 's \<Rightarrow> 's"
    and inv :: "'s \<Rightarrow> bool"
  assumes evict_size: "inv s \<Longrightarrow> admissible h s \<Longrightarrow> 0 < size_of s \<Longrightarrow> size_of (evict h s) = size_of s - 1"
    and evict_inv: "inv s \<Longrightarrow> admissible h s \<Longrightarrow> inv (evict h s)"
    and store_size: "inv s \<Longrightarrow> size_of (store k v s) \<le> Suc (size_of s)"
begin

lemma store_after_evict_bounded:
  assumes "inv s" and "admissible h s" and "size_of s \<le> cap" and "0 < cap"
  shows "size_of (store k v (if cap \<le> size_of s then evict h s else s)) \<le> cap"
proof (cases "cap \<le> size_of s")
  case True
  with assms have "size_of (evict h s) = size_of s - 1"
    by (intro evict_size) auto
  with True assms evict_inv [of s h] store_size [of "evict h s" k v] show ?thesis
    by simp
next
  case False
  with assms store_size [of s k v] show ?thesis
    by simp
qed

end

end
