(* ===== verification/Go_Strings.thy ===== *)
theory Go_Strings
  imports Prelude
begin

text \<open>
  What the program uses of Go's \<open>strings\<close>, \<open>strconv\<close>, \<open>encoding/hex\<close> and
  \<open>encoding/base64\<close>.

  A Go string is a sequence of bytes, here a \<open>string\<close> whose characters are the bytes. White
  space is Unicode white space in UTF-8: \<open>space_encodings\<close> lists the encodings of all its code
  points. None of their lead bytes can occur inside another encoded rune, so looking for the
  encodings at byte positions finds exactly the runes Go's decoder finds.

  Case mapping of a string that is not ASCII uses the Unicode tables of the Go release; they
  are a parameter (\<open>unicode_tables\<close>). Case folding is only used against the literals
  \<open>Bearer\<close> and \<open>connect-udp\<close>, whose letters fold to ASCII letters only, so
  \<open>EqualFold\<close> needs no table.
\<close>

section \<open>Case and white space\<close>

record unicode_tables =
  uni_lower :: "string \<Rightarrow> string"
  uni_upper :: "string \<Rightarrow> string"

definition isASCII :: "string \<Rightarrow> bool" where
  "isASCII s \<longleftrightarrow> list_all (\<lambda>c. (of_char c :: nat) < 128) s"

definition ascii_lower :: "char \<Rightarrow> char" where
  "ascii_lower c = (let n = (of_char c :: nat) in if 65 \<le> n \<and> n \<le> 90 then char_of (n + 32) else c)"

definition ascii_upper :: "char \<Rightarrow> char" where
  "ascii_upper c = (let n = (of_char c :: nat) in if 97 \<le> n \<and> n \<le> 122 then char_of (n - 32) else c)"

definition ToLower :: "unicode_tables \<Rightarrow> string \<Rightarrow> string" where
  "ToLower U s = (if isASCII s then map ascii_lower s else uni_lower U s)"

definition ToUpper :: "unicode_tables \<Rightarrow> string \<Rightarrow> string" where
  "ToUpper U s = (if isASCII s then map ascii_upper s else uni_upper U s)"

definition EqualFold :: "string \<Rightarrow> string \<Rightarrow> bool" where
  "EqualFold s t \<longleftrightarrow> map ascii_lower s = map ascii_lower t"

definition space_encodings :: "string list" where
  "space_encodings =
     [[CHR 0x09], [CHR 0x0A], [CHR 0x0B], [CHR 0x0C], [CHR 0x0D], [CHR 0x20],
      [CHR 0xC2, CHR 0x85], [CHR 0xC2, CHR 0xA0], [CHR 0xE1, CHR 0x9A, CHR 0x80]]
     @ map (\<lambda>c. [CHR 0xE2, CHR 0x80, c])
         [CHR 0x80, CHR 0x81, CHR 0x82, CHR 0x83, CHR 0x84, CHR 0x85, CHR 0x86, CHR 0x87,
          CHR 0x88, CHR 0x89, CHR 0x8A, CHR 0xA8, CHR 0xA9, CHR 0xAF]
     @ [[CHR 0xE2, CHR 0x81, CHR 0x9F], [CHR 0xE3, CHR 0x80, CHR 0x80]]"

text \<open>The first encoding of \<open>encs\<close> that is a non-empty prefix of \<open>s\<close>.\<close>

definition matching :: "string list \<Rightarrow> string \<Rightarrow> string option" where
  "matching encs s = List.find (\<lambda>e. e \<noteq> [] \<and> take (length e) s = e) encs"

lemma matching_Some: "matching encs s = Some e \<Longrightarrow> e \<noteq> [] \<and> take (length e) s = e"
  by (auto simp: matching_def find_Some_iff)

lemma matching_shorter: "matching encs s = Some e \<Longrightarrow> length (drop (length e) s) < length s"
  using matching_Some [of encs s e] by (cases s; cases e) auto

function strip :: "string list \<Rightarrow> string \<Rightarrow> string" where
  "strip encs s = (case matching encs s of None \<Rightarrow> s | Some e \<Rightarrow> strip encs (drop (length e) s))"
  by pat_completeness auto
termination
  by (relation "measure (\<lambda>(encs, s). length s)") (auto dest: matching_shorter)

declare strip.simps [simp del]

definition TrimSpace :: "string \<Rightarrow> string" where
  "TrimSpace s = rev (strip (map rev space_encodings) (rev (strip space_encodings s)))"

lemma length_strip: "length (strip encs s) \<le> length s"
proof (induction encs s rule: strip.induct)
  case (1 encs s)
  then show ?case
    by (subst strip.simps) (force split: option.split dest: matching_shorter)
qed

lemma strip_no_match: "matching encs (strip encs s) = None"
proof (induction encs s rule: strip.induct)
  case (1 encs s)
  show ?case
  proof (cases "matching encs s")
    case None
    then show ?thesis by (simp add: strip.simps)
  next
    case (Some e)
    with 1 show ?thesis by (simp add: strip.simps [of encs s])
  qed
qed

lemma length_TrimSpace: "length (TrimSpace s) \<le> length s"
  using length_strip [of "map rev space_encodings" "rev (strip space_encodings s)"]
    length_strip [of space_encodings s]
  by (simp add: TrimSpace_def)

text \<open>\<open>strings.Fields\<close>: the fields between runs of white space, \<open>acc\<close> being the current one.\<close>

function fields_from :: "string \<Rightarrow> string \<Rightarrow> string list" where
  "fields_from acc s =
     (case s of
        [] \<Rightarrow> (if acc = [] then [] else [acc])
      | c # cs \<Rightarrow>
          (case matching space_encodings s of
             None \<Rightarrow> fields_from (acc @ [c]) cs
           | Some e \<Rightarrow> (if acc = [] then [] else [acc]) @ fields_from [] (drop (length e) s)))"
  by pat_completeness auto
termination
  by (relation "measure (\<lambda>(acc, s). length s)") (auto dest: matching_shorter)

declare fields_from.simps [simp del]

definition Fields :: "string \<Rightarrow> string list" where
  "Fields s = fields_from [] s"

text \<open>A string without a space byte or one of the lead bytes of the other spaces.\<close>

definition plain_char :: "char \<Rightarrow> bool" where
  "plain_char c \<longleftrightarrow> 32 < (of_char c :: nat) \<and> (of_char c :: nat) < 128"

definition plain :: "string \<Rightarrow> bool" where
  "plain s \<longleftrightarrow> list_all plain_char s"

lemma plain_simps [simp]:
  "plain []"
  "plain (c # s) \<longleftrightarrow> plain_char c \<and> plain s"
  "plain (s @ t) \<longleftrightarrow> plain s \<and> plain t"
  by (simp_all add: plain_def)

lemma space_encodings_not_plain: "e \<in> set space_encodings \<Longrightarrow> \<not> plain_char (hd e)"
  by (auto simp: space_encodings_def plain_char_def)

lemma matching_plain: "plain_char c \<Longrightarrow> matching space_encodings (c # s) = None"
proof (rule ccontr)
  assume c: "plain_char c" and "matching space_encodings (c # s) \<noteq> None"
  then obtain e where e: "matching space_encodings (c # s) = Some e" by blast
  then have "e \<in> set space_encodings"
    by (auto simp: matching_def find_Some_iff)
  moreover from matching_Some [OF e] have "hd e = c"
    by (cases e) auto
  ultimately show False
    using c space_encodings_not_plain by blast
qed

text \<open>A plain string has no white space to trim.\<close>

lemma strip_hd:
  assumes "\<And>e. e \<in> set encs \<Longrightarrow> e \<noteq> [] \<Longrightarrow> \<not> plain_char (hd e)" and "s = [] \<or> plain_char (hd s)"
  shows "strip encs s = s"
proof -
  have "matching encs s = None"
  proof (rule ccontr)
    assume "matching encs s \<noteq> None"
    then obtain e where e: "matching encs s = Some e" by blast
    then have "e \<in> set encs" "e \<noteq> []" "take (length e) s = e"
      by (auto simp: matching_def find_Some_iff)
    moreover from this(2,3) have "hd e = hd s" "s \<noteq> []"
      by (cases e; cases s; auto)+
    ultimately show False
      using assms by metis
  qed
  then show ?thesis by (simp add: strip.simps)
qed

lemma TrimSpace_plain: "plain s \<Longrightarrow> TrimSpace s = s"
proof -
  assume s: "plain s"
  have "strip space_encodings s = s"
    by (rule strip_hd) (use s space_encodings_not_plain in \<open>cases s; auto\<close>)+
  moreover have "strip (map rev space_encodings) (rev s) = rev s"
  proof (rule strip_hd)
    show "rev s = [] \<or> plain_char (hd (rev s))"
      using s by (cases s rule: rev_cases) auto
  next
    fix e
    assume "e \<in> set (map rev space_encodings)"
    then show "\<not> plain_char (hd e)"
      by (auto simp: space_encodings_def plain_char_def)
  qed
  ultimately show ?thesis
    by (simp add: TrimSpace_def)
qed

lemma fields_from_plain:
  "plain s \<Longrightarrow> fields_from acc s = (if acc @ s = [] then [] else [acc @ s])"
proof (induction s arbitrary: acc)
  case Nil
  then show ?case by (simp add: fields_from.simps)
next
  case (Cons c s)
  then have "matching space_encodings (c # s) = None"
    by (intro matching_plain) simp
  with Cons show ?case by (subst fields_from.simps) simp
qed

lemma matching_space: "matching space_encodings (CHR '' '' # s) = Some '' ''"
  by (simp add: matching_def space_encodings_def)

lemma fields_from_space:
  "plain s \<Longrightarrow> fields_from acc (s @ '' '' @ t) =
     (if acc @ s = [] then [] else [acc @ s]) @ fields_from [] t"
proof (induction s arbitrary: acc)
  case Nil
  then show ?case by (subst fields_from.simps) (simp add: matching_space)
next
  case (Cons c s)
  then have "matching space_encodings (c # s @ '' '' @ t) = None"
    by (intro matching_plain) simp
  with Cons show ?case by (subst fields_from.simps) simp
qed

lemma Fields_pair:
  "plain s \<Longrightarrow> plain t \<Longrightarrow> s \<noteq> [] \<Longrightarrow> t \<noteq> [] \<Longrightarrow> Fields (s @ '' '' @ t) = [s, t]"
  by (simp add: Fields_def fields_from_space [simplified] fields_from_plain)

text \<open>\<open>strings.Split(s, ",")\<close>, and the other predicates the program uses.\<close>

fun split_on :: "char \<Rightarrow> string \<Rightarrow> string list" where
  "split_on d [] = [[]]"
| "split_on d (c # s) =
     (if c = d then [] # split_on d s
      else (case split_on d s of [] \<Rightarrow> [[c]] | x # xs \<Rightarrow> (c # x) # xs))"

definition ContainsAny :: "string \<Rightarrow> string \<Rightarrow> bool" where
  "ContainsAny s chars \<longleftrightarrow> list_ex (\<lambda>c. c \<in> set chars) s"

lemma ContainsAny_iff: "ContainsAny s chars \<longleftrightarrow> set s \<inter> set chars \<noteq> {}"
  by (auto simp: ContainsAny_def list_ex_iff)

section \<open>Decimal numbers (strconv)\<close>

definition digit :: "nat \<Rightarrow> char" where
  "digit n = char_of (48 + n)"

fun Itoa :: "nat \<Rightarrow> string" where
  "Itoa n = (if n < 10 then [digit n] else Itoa (n div 10) @ [digit (n mod 10)])"

declare Itoa.simps [simp del]

definition digit_val :: "char \<Rightarrow> nat option" where
  "digit_val c = (let n = (of_char c :: nat) in if 48 \<le> n \<and> n \<le> 57 then Some (n - 48) else None)"

text \<open>\<open>strconv.ParseUint(s, 10, bits)\<close>: \<open>None\<close> is a syntax or range error.\<close>

definition ParseUint10 :: "nat \<Rightarrow> string \<Rightarrow> nat option" where
  "ParseUint10 bits s =
     (if s = [] then None
      else case those (map digit_val s) of
             None \<Rightarrow> None
           | Some ds \<Rightarrow> (let v = foldl (\<lambda>a d. a * 10 + d) 0 ds in if v < 2 ^ bits then Some v else None))"

lemma digit_val_digit: "n < 10 \<Longrightarrow> digit_val (digit n) = Some n"
  by (simp add: digit_val_def digit_def)

lemma those_append:
  "those (xs @ ys) = (case those xs of None \<Rightarrow> None | Some as \<Rightarrow> map_option (\<lambda>bs. as @ bs) (those ys))"
  by (cases "those ys"; induction xs) (auto split: option.splits)

lemma Itoa_digits:
  "\<exists>ds. those (map digit_val (Itoa n)) = Some ds \<and> foldl (\<lambda>a d. a * 10 + d) 0 ds = n"
proof (induction n rule: Itoa.induct)
  case (1 n)
  show ?case
  proof (cases "n < 10")
    case True
    then show ?thesis by (simp add: Itoa.simps [of n] digit_val_digit)
  next
    case False
    with 1 obtain ds where
      "those (map digit_val (Itoa (n div 10))) = Some ds"
      "foldl (\<lambda>a d. a * 10 + d) 0 ds = n div 10" by blast
    with False show ?thesis
      by (simp add: Itoa.simps [of n] those_append digit_val_digit)
  qed
qed

lemma Itoa_not_Nil [simp]: "Itoa n \<noteq> []"
  by (subst Itoa.simps) simp

lemma ParseUint10_Itoa: "n < 2 ^ bits \<Longrightarrow> ParseUint10 bits (Itoa n) = Some n"
  using Itoa_digits [of n] by (auto simp: ParseUint10_def)

lemma ParseUint10_bound: "ParseUint10 bits s = Some n \<Longrightarrow> n < 2 ^ bits"
  by (auto simp: ParseUint10_def Let_def split: if_splits option.splits)

lemma Itoa_chars: "c \<in> set (Itoa n) \<Longrightarrow> 48 \<le> (of_char c :: nat) \<and> (of_char c :: nat) \<le> 57"
proof (induction n rule: Itoa.induct)
  case (1 n)
  then show ?case
    by (cases "n < 10") (auto simp: Itoa.simps [of n] digit_def)
qed

section \<open>Hexadecimal (encoding/hex)\<close>

definition hex_digit :: "nat \<Rightarrow> char" where
  "hex_digit n = (if n < 10 then char_of (48 + n) else char_of (87 + n))"

definition hex_val :: "char \<Rightarrow> nat option" where
  "hex_val c = (let n = (of_char c :: nat) in
     if 48 \<le> n \<and> n \<le> 57 then Some (n - 48)
     else if 97 \<le> n \<and> n \<le> 102 then Some (n - 87)
     else if 65 \<le> n \<and> n \<le> 70 then Some (n - 55)
     else None)"

definition hex_EncodeToString :: "bytes \<Rightarrow> string" where
  "hex_EncodeToString bs = concat (map (\<lambda>b. [hex_digit (unat b div 16), hex_digit (unat b mod 16)]) bs)"

fun hex_DecodeString :: "string \<Rightarrow> bytes option" where
  "hex_DecodeString [] = Some []"
| "hex_DecodeString [c] = None"
| "hex_DecodeString (c # d # s) =
     (case (hex_val c, hex_val d) of
        (Some a, Some b) \<Rightarrow> map_option ((#) (of_nat (a * 16 + b))) (hex_DecodeString s)
      | _ \<Rightarrow> None)"

lemma hex_val_digit: "n < 16 \<Longrightarrow> hex_val (hex_digit n) = Some n"
  by (auto simp: hex_val_def hex_digit_def)

lemma hex_Decode_Encode [simp]: "hex_DecodeString (hex_EncodeToString bs) = Some bs"
proof (induction bs)
  case Nil
  then show ?case by (simp add: hex_EncodeToString_def)
next
  case (Cons b bs)
  have "unat b < 256"
    using unsigned_less [where 'a = nat, of b] by simp
  then have "unat b div 16 < 16" "unat b div 16 * 16 + unat b mod 16 = unat b"
    by auto
  with Cons show ?case
    by (simp add: hex_EncodeToString_def hex_val_digit del: of_nat_add of_nat_mult)
qed

lemma hex_Decode_length: "hex_DecodeString s = Some bs \<Longrightarrow> length s = 2 * length bs"
  by (induction s arbitrary: bs rule: hex_DecodeString.induct) (auto split: option.splits)

section \<open>Unpadded URL-safe base64 (encoding/base64, RawURLEncoding)\<close>

definition b64_alphabet :: string where
  "b64_alphabet = ''ABCDEFGHIJKLMNOPQRSTUVWXYZabcdefghijklmnopqrstuvwxyz0123456789-_''"

definition b64_char :: "nat \<Rightarrow> char" where
  "b64_char n = b64_alphabet ! n"

definition b64_val :: "char \<Rightarrow> nat option" where
  "b64_val c = map_of (zip b64_alphabet [0..<64]) c"

fun b64_sextets :: "bytes \<Rightarrow> nat list" where
  "b64_sextets [] = []"
| "b64_sextets [a] = [unat a div 4, (unat a mod 4) * 16]"
| "b64_sextets [a, b] = [unat a div 4, (unat a mod 4) * 16 + unat b div 16, (unat b mod 16) * 4]"
| "b64_sextets (a # b # c # bs) =
     [unat a div 4, (unat a mod 4) * 16 + unat b div 16, (unat b mod 16) * 4 + unat c div 64, unat c mod 64]
     @ b64_sextets bs"

fun b64_join :: "nat list \<Rightarrow> bytes option" where
  "b64_join [] = Some []"
| "b64_join [p] = None"
| "b64_join [p, q] = Some [of_nat (p * 4 + q div 16)]"
| "b64_join [p, q, r] = Some [of_nat (p * 4 + q div 16), of_nat ((q mod 16) * 16 + r div 4)]"
| "b64_join (p # q # r # s # vs) =
     map_option ((@) [of_nat (p * 4 + q div 16), of_nat ((q mod 16) * 16 + r div 4), of_nat ((r mod 4) * 64 + s)])
       (b64_join vs)"

definition b64_EncodeToString :: "bytes \<Rightarrow> string" where
  "b64_EncodeToString bs = map b64_char (b64_sextets bs)"

text \<open>The decoder skips carriage returns and line feeds, and does not look at the bits of a
  final sextet that no byte uses.\<close>

definition b64_DecodeString :: "string \<Rightarrow> bytes option" where
  "b64_DecodeString s =
     Option.bind (those (map b64_val (filter (\<lambda>c. c \<noteq> CHR 0x0D \<and> c \<noteq> CHR 0x0A) s))) b64_join"

lemma b64_alphabet_simps: "length b64_alphabet = 64" "distinct b64_alphabet"
  by (simp_all add: b64_alphabet_def)

lemma b64_val_char: "n < 64 \<Longrightarrow> b64_val (b64_char n) = Some n"
  using map_of_zip_nth [of b64_alphabet "[0..<64]" n]
  by (simp add: b64_val_def b64_char_def b64_alphabet_simps)

lemma b64_char_plain: "n < 64 \<Longrightarrow> plain_char (b64_char n)"
proof -
  assume "n < 64"
  then have "b64_char n \<in> set b64_alphabet"
    by (simp add: b64_char_def b64_alphabet_simps)
  then show ?thesis
    by (auto simp: b64_alphabet_def plain_char_def)
qed

lemma b64_sextets_bound: "v \<in> set (b64_sextets bs) \<Longrightarrow> v < 64"
proof -
  have byte: "unat (x :: byte) < 256" for x
    using unsigned_less [where 'a = nat, of x] by simp
  have div: "unat (x :: byte) div 4 < 64" "unat x div 16 < 16" "unat x div 64 < 4" for x
    using byte [of x] by auto
  have mix: "unat (x :: byte) mod 4 * 16 + unat y div 16 < 64"
    "unat x mod 16 * 4 + unat y div 64 < 64" "unat x mod 4 * 16 < 64" "unat x mod 16 * 4 < 64" for x y :: byte
    using div(2,3) [of y] mod_less_divisor [of 4 "unat x"] mod_less_divisor [of 16 "unat x"] by linarith+
  show "v \<in> set (b64_sextets bs) \<Longrightarrow> v < 64"
    by (induction bs rule: b64_sextets.induct) (auto simp: div mix)
qed

lemma b64_join_sextets: "b64_join (b64_sextets bs) = Some bs"
proof -
  have r1: "unat (a :: byte) div 4 * 4 + ((unat a mod 4) * 16 + unat b div 16) div 16 = unat a" for a b :: byte
    using unsigned_less [where 'a = nat, of b] by simp
  have r2: "((unat a mod 4) * 16 + unat b div 16) mod 16 * 16 + ((unat b mod 16) * 4 + unat c div 64) div 4 = unat b"
    for a b c :: byte
    using unsigned_less [where 'a = nat, of b] unsigned_less [where 'a = nat, of c] by simp
  have r3: "((unat b mod 16) * 4 + unat c div 64) mod 4 * 64 + unat c mod 64 = unat c" for b c :: byte
    using unsigned_less [where 'a = nat, of c] by simp
  have r4: "unat (a :: byte) div 4 * 4 + (unat a mod 4) * 16 div 16 = unat a" for a
    by simp
  have r5: "((unat a mod 4) * 16 + unat b div 16) mod 16 * 16 + (unat b mod 16) * 4 div 4 = unat b" for a b :: byte
    using unsigned_less [where 'a = nat, of b] by simp
  show ?thesis
    by (induction bs rule: b64_sextets.induct)
      (simp_all only: b64_sextets.simps b64_join.simps append.simps r1 r2 r3 r4 r5 option.map, simp_all)
qed

lemma b64_chars_plain: "plain (b64_EncodeToString bs)"
  using b64_char_plain b64_sextets_bound
  by (force simp: b64_EncodeToString_def plain_def list_all_iff)

lemma those_map_Some: "(\<And>x. x \<in> set xs \<Longrightarrow> f x = Some (g x)) \<Longrightarrow> those (map f xs) = Some (map g xs)"
  by (induction xs) auto

lemma filter_plain:
  "plain s \<Longrightarrow> filter (\<lambda>c. c \<noteq> CHR 0x0D \<and> c \<noteq> CHR 0x0A) s = s"
  by (induction s) (auto simp: plain_char_def)

lemma b64_Decode_Encode [simp]: "b64_DecodeString (b64_EncodeToString bs) = Some bs"
proof -
  have "those (map b64_val (b64_EncodeToString bs)) = Some (map id (b64_sextets bs))"
    unfolding b64_EncodeToString_def map_map
    by (rule those_map_Some) (auto simp: b64_val_char dest: b64_sextets_bound)
  then show ?thesis
    by (simp add: b64_DecodeString_def filter_plain b64_chars_plain b64_join_sextets)
qed

lemma length_b64_sextets: "length (b64_sextets bs) = (length bs * 8 + 5) div 6"
  by (induction bs rule: b64_sextets.induct) auto

end
