(* ===== verification/Go_Http.thy ===== *)
theory Go_Http
  imports Go_Strings
begin

text \<open>
  What the program uses of Go's package \<open>net/http\<close>: header maps with their canonical keys, the
  request fields a handler looks at, and the response it writes.

  Lemmas: what \<open>Header_Values\<close> returns after \<open>Header_Add\<close> and \<open>Header_Set\<close>.
\<close>

section \<open>Headers\<close>

text \<open>The characters of a header field name, and \<open>textproto.CanonicalMIMEHeaderKey\<close>: upper case at
  the start and after a hyphen, lower case elsewhere; a name with other characters is kept.\<close>

definition is_tchar :: "char \<Rightarrow> bool" where
  "is_tchar c \<longleftrightarrow> (let n = (of_char c :: nat) in
     (48 \<le> n \<and> n \<le> 57) \<or> (65 \<le> n \<and> n \<le> 90) \<or> (97 \<le> n \<and> n \<le> 122)) \<or> c \<in> set ''!#$%&*+-.^_`|~'' \<or> c = CHR 0x27"

fun canonical_from :: "bool \<Rightarrow> string \<Rightarrow> string" where
  "canonical_from up [] = []"
| "canonical_from up (c # s) = (if up then ascii_upper c else ascii_lower c) # canonical_from (c = CHR ''-'') s"

definition CanonicalHeaderKey :: "string \<Rightarrow> string" where
  "CanonicalHeaderKey s = (if list_all is_tchar s then canonical_from True s else s)"

type_synonym Header = "(string, string list) gomap"

definition Header_Values :: "string \<Rightarrow> Header \<Rightarrow> string list" where
  "Header_Values name h = (case gm_lookup h (CanonicalHeaderKey name) of None \<Rightarrow> [] | Some vs \<Rightarrow> vs)"

definition Header_Get :: "string \<Rightarrow> Header \<Rightarrow> string" where
  "Header_Get name h = (case Header_Values name h of [] \<Rightarrow> '''' | v # _ \<Rightarrow> v)"

definition Header_Add :: "string \<Rightarrow> string \<Rightarrow> Header \<Rightarrow> Header" where
  "Header_Add name value h = gm_put (CanonicalHeaderKey name) (Header_Values name h @ [value]) h"

definition Header_Set :: "string \<Rightarrow> string \<Rightarrow> Header \<Rightarrow> Header" where
  "Header_Set name value h = gm_put (CanonicalHeaderKey name) [value] h"

text \<open>The name and value pairs of a header.\<close>

definition header_has :: "Header \<Rightarrow> string \<Rightarrow> string \<Rightarrow> bool" where
  "header_has h key value \<longleftrightarrow> (\<exists>vs. gm_lookup h key = Some vs \<and> value \<in> set vs)"

lemma header_has_Nil [simp]: "\<not> header_has [] key value"
  by (simp add: header_has_def)

lemma header_has_Add:
  "header_has (Header_Add name v h) key value \<longleftrightarrow> header_has h key value \<or> (key = CanonicalHeaderKey name \<and> value = v)"
  by (cases "gm_lookup h (CanonicalHeaderKey name)") (auto simp: header_has_def Header_Add_def Header_Values_def gomap)

lemma header_has_Set:
  "header_has (Header_Set name v h) key value \<longleftrightarrow>
     (if key = CanonicalHeaderKey name then value = v else header_has h key value)"
  by (auto simp: header_has_def Header_Set_def gomap)

lemma Header_Values_has: "v \<in> set (Header_Values name h) \<longleftrightarrow> header_has h (CanonicalHeaderKey name) v"
  by (cases "gm_lookup h (CanonicalHeaderKey name)") (auto simp: header_has_def Header_Values_def)

lemma gm_wf_Header [intro]: "gm_wf h \<Longrightarrow> gm_wf (Header_Add name v h)" "gm_wf h \<Longrightarrow> gm_wf (Header_Set name v h)"
  by (auto simp: Header_Add_def Header_Set_def)

section \<open>Requests and responses\<close>

record http_request =
  rq_Method :: string
  rq_Host :: string
  rq_RemoteAddr :: string
  rq_Header :: Header

record http_response =
  rs_Status :: int
  rs_Header :: Header
  rs_Body :: bytes

definition MethodConnect :: string where "MethodConnect = ''CONNECT''"
definition MethodHead :: string where "MethodHead = ''HEAD''"

text \<open>\<open>http.Error\<close> on a response whose header is \<open>h\<close>: it drops the headers of a former body, sets
  the type and writes the message with a newline.\<close>

definition http_Error :: "Header \<Rightarrow> string \<Rightarrow> int \<Rightarrow> http_response" where
  "http_Error h message status =
     (let h1 = gm_delete ''Content-Length'' h;
          h2 = Header_Set ''Content-Type'' ''text/plain; charset=utf-8'' h1;
          h3 = Header_Set ''X-Content-Type-Options'' ''nosniff'' h2
      in \<lparr>rs_Status = status, rs_Header = h3, rs_Body = bytes_of_string (message @ [CHR 0x0A])\<rparr>)"

end
