(* ===== verification/Go_Io.thy ===== *)
theory Go_Io
  imports Prelude
begin

text \<open>
  What the program uses of Go's package \<open>io\<close>.

  \<^item> \<open>read n r\<close> is \<open>r.Read(buf)\<close> with a buffer of \<open>n\<close> bytes: the reader afterwards, the bytes
    delivered and the error, or \<open>None\<close> when the call never returns. \<open>wr b w\<close> is
    \<open>w.Write(b)\<close>: the writer afterwards, the number of bytes taken and the error, or \<open>None\<close>.
  \<^item> \<open>ReadFull\<close> is \<open>io.ReadFull\<close>, whose loop over short reads is a partial function.
  \<^item> The contracts \<open>byte_source\<close> and \<open>byte_sink\<close>: a reader that delivers a known sequence of
    bytes in pieces of any size, and a writer that appends what it takes and reports an error
    when it takes less than it was given. The protocol code is verified against these contracts
    only; they are proved here for a connection that cuts the stream into arbitrary segments
    and may fail at any byte, and for \<open>padstream.Conn\<close> in its own theory.
\<close>

datatype io_error = EOF | UnexpectedEOF | IoFailed

type_synonym 'r reader = "nat \<Rightarrow> 'r \<Rightarrow> ('r \<times> bytes \<times> io_error option) option"
type_synonym 'w writer = "bytes \<Rightarrow> 'w \<Rightarrow> ('w \<times> nat \<times> io_error option) option"

partial_function (option) ReadFull_from ::
  "'r reader \<Rightarrow> nat \<Rightarrow> bytes \<Rightarrow> 'r \<Rightarrow> ('r \<times> (io_error + bytes)) option" where
  "ReadFull_from read n acc r =
     (if n = 0 then Some (r, Inr acc)
      else Option.bind (read n r) (\<lambda>(r', bs, err).
        if n \<le> length bs then Some (r', Inr (acc @ bs))
        else case err of
            None \<Rightarrow> ReadFull_from read (n - length bs) (acc @ bs) r'
          | Some e \<Rightarrow> Some (r', Inl (if acc @ bs \<noteq> [] \<and> e = EOF then UnexpectedEOF else e))))"

definition ReadFull :: "'r reader \<Rightarrow> nat \<Rightarrow> 'r \<Rightarrow> ('r \<times> (io_error + bytes)) option" where
  "ReadFull read n r = ReadFull_from read n [] r"

text \<open>What a full read of \<open>n\<close> bytes returns when \<open>bs\<close> is all that is left to read.\<close>

definition read_outcome :: "nat \<Rightarrow> bytes \<Rightarrow> io_error + bytes" where
  "read_outcome n bs = (if n \<le> length bs then Inr (take n bs) else Inl (if bs = [] then EOF else UnexpectedEOF))"

text \<open>What every single read keeps, a full read keeps.\<close>

lemma ReadFull_from_rel:
  assumes step: "\<And>k c c' bs err. rd k c = Some (c', bs, err) \<Longrightarrow> R c c'"
    and refl: "\<And>c. R c c" and trans: "\<And>a b c. R a b \<Longrightarrow> R b c \<Longrightarrow> R a c"
  shows "ReadFull_from rd n acc r = Some y \<Longrightarrow> R r (fst y)"
proof -
  have "ReadFull_from rd' n acc r = Some y \<Longrightarrow> rd' = rd \<longrightarrow> R r (fst y)" for rd'
  proof (erule ReadFull_from.raw_induct [where P = "\<lambda>rd' n acc r y. rd' = rd \<longrightarrow> R r (fst y)", rotated], goal_cases)
    case (1 F rd' n acc r y)
    show ?case
    proof (cases "n = 0")
      case True
      with 1 refl show ?thesis by auto
    next
      case False
      show ?thesis
      proof
        assume eq: "rd' = rd"
        with 1(2) False obtain r1 bs err where r1: "rd n r = Some (r1, bs, err)"
          by (auto simp: bind_eq_Some_conv)
        have "R r1 (fst y)"
          using 1(1) [of rd' "n - length bs" "acc @ bs" r1 y] 1(2) eq False r1 refl
          by (cases err) (auto split: if_split_asm)
        with step [OF r1] show "R r (fst y)" by (rule trans)
      qed
    qed
  qed
  then show "ReadFull_from rd n acc r = Some y \<Longrightarrow> R r (fst y)" by blast
qed

lemma ReadFull_rel:
  assumes "\<And>k c c' bs err. rd k c = Some (c', bs, err) \<Longrightarrow> R c c'"
    and "\<And>c. R c c" and "\<And>a b c. R a b \<Longrightarrow> R b c \<Longrightarrow> R a c"
    and "ReadFull rd n r = Some (r', res)"
  shows "R r r'"
  using ReadFull_from_rel [of rd R n "[]" r "(r', res)"] assms by (auto simp: ReadFull_def)

section \<open>The contract of a reader\<close>

locale byte_source =
  fixes read :: "'r reader" and content :: "'r \<Rightarrow> bytes" and readable :: "'r \<Rightarrow> bool"
  assumes read_some: "readable r \<Longrightarrow> 0 < n \<Longrightarrow> content r \<noteq> [] \<Longrightarrow>
      \<exists>r' bs. read n r = Some (r', bs, None) \<and> bs \<noteq> [] \<and> length bs \<le> n
        \<and> content r = bs @ content r' \<and> readable r'"
    and read_eof: "readable r \<Longrightarrow> 0 < n \<Longrightarrow> content r = [] \<Longrightarrow>
      \<exists>r'. read n r = Some (r', [], Some EOF) \<and> content r' = [] \<and> readable r'"
begin

lemma ReadFull_from_ok:
  assumes "readable r" and "n \<le> length (content r)"
  shows "\<exists>r'. ReadFull_from read n acc r = Some (r', Inr (acc @ take n (content r)))
    \<and> content r' = drop n (content r) \<and> readable r'"
  using assms
proof (induction n arbitrary: acc r rule: less_induct)
  case (less n)
  show ?case
  proof (cases "n = 0")
    case True
    with less.prems show ?thesis by (simp add: ReadFull_from.simps)
  next
    case False
    then obtain r1 bs where step: "read n r = Some (r1, bs, None)" "bs \<noteq> []" "length bs \<le> n"
        "content r = bs @ content r1" "readable r1"
      using read_some [of r n] less.prems by (metis gr0I length_0_conv le_zero_eq)
    show ?thesis
    proof (cases "n = length bs")
      case True
      with step False show ?thesis by (simp add: ReadFull_from.simps)
    next
      case neq: False
      with step have "n - length bs < n" "n - length bs \<le> length (content r1)"
        using less.prems False by (auto simp: length_greater_0_conv [symmetric] simp del: length_greater_0_conv)
      from less.IH [OF this(1) step(5) this(2), of "acc @ bs"] step neq False
      show ?thesis by (simp add: ReadFull_from.simps [of read n])
    qed
  qed
qed

lemma ReadFull_from_short:
  assumes "readable r" and "length (content r) < n"
  shows "\<exists>r'. ReadFull_from read n acc r =
      Some (r', Inl (if acc @ content r = [] then EOF else UnexpectedEOF)) \<and> content r' = [] \<and> readable r'"
  using assms
proof (induction "length (content r)" arbitrary: acc r n rule: less_induct)
  case less
  show ?case
  proof (cases "content r = []")
    case True
    then obtain r1 where "read n r = Some (r1, [], Some EOF)" "content r1 = []" "readable r1"
      using read_eof [of r n] less.prems by auto
    with less.prems True show ?thesis by (auto simp: ReadFull_from.simps [of read n])
  next
    case False
    then obtain r1 bs where step: "read n r = Some (r1, bs, None)" "bs \<noteq> []" "length bs \<le> n"
        "content r = bs @ content r1" "readable r1"
      using read_some [of r n] less.prems by fastforce
    then have "length (content r1) < length (content r)" "length (content r1) < n - length bs"
      using less.prems by auto
    from less.hyps [OF this(1) step(5) this(2), of "acc @ bs"] step less.prems
    show ?thesis by (auto simp: ReadFull_from.simps [of read n])
  qed
qed

lemma ReadFull_ok:
  "readable r \<Longrightarrow> n \<le> length (content r) \<Longrightarrow>
     \<exists>r'. ReadFull read n r = Some (r', Inr (take n (content r))) \<and> content r' = drop n (content r) \<and> readable r'"
  using ReadFull_from_ok [of r n "[]"] by (simp add: ReadFull_def)

lemma ReadFull_short:
  "readable r \<Longrightarrow> length (content r) < n \<Longrightarrow>
     \<exists>r'. ReadFull read n r = Some (r', Inl (if content r = [] then EOF else UnexpectedEOF)) \<and> content r' = [] \<and> readable r'"
  using ReadFull_from_short [of r n "[]"] by (simp add: ReadFull_def)

lemma ReadFull_outcome:
  assumes "readable r"
  shows "\<exists>r'. ReadFull read n r = Some (r', read_outcome n (content r)) \<and> content r' = drop n (content r) \<and> readable r'"
proof (cases "n \<le> length (content r)")
  case True
  with ReadFull_ok [OF assms True] show ?thesis by (simp add: read_outcome_def)
next
  case False
  with ReadFull_short [OF assms, of n] show ?thesis by (auto simp: read_outcome_def)
qed

end

section \<open>The contract of a writer\<close>

locale byte_sink =
  fixes wr :: "'w writer" and sent :: "'w \<Rightarrow> bytes" and writable :: "'w \<Rightarrow> bool"
  assumes write_takes: "writable w \<Longrightarrow>
      \<exists>w' n err. wr b w = Some (w', n, err) \<and> n \<le> length b \<and> sent w' = sent w @ take n b
        \<and> (err = None \<longrightarrow> n = length b \<and> writable w')"
begin

lemma write_ok:
  "writable w \<Longrightarrow> wr b w = Some (w', n, None) \<Longrightarrow> n = length b \<and> sent w' = sent w @ b \<and> writable w'"
  using write_takes [of w b] by auto

end

section \<open>Connections in both directions\<close>

text \<open>The two directions do not disturb each other.\<close>

locale duplex = byte_source read content readable + byte_sink wr sent writable
  for read :: "'c reader" and content :: "'c \<Rightarrow> bytes" and readable :: "'c \<Rightarrow> bool"
    and wr :: "'c writer" and sent :: "'c \<Rightarrow> bytes" and writable :: "'c \<Rightarrow> bool" +
  assumes write_returns: "\<exists>c' n err. wr b c = Some (c', n, err)"
    and write_keeps_input: "wr b c = Some (c', n, err) \<Longrightarrow> content c' = content c \<and> readable c' = readable c"
    and read_keeps_output: "read k c = Some (c', bs, err) \<Longrightarrow> sent c' = sent c \<and> writable c' = writable c"

section \<open>A connection\<close>

text \<open>
  The reading side delivers its remaining segments one after the other, none of them empty, and
  then end of file; the writing side takes bytes until its room is used up, and fails then
  (\<open>None\<close>: it never fails). A connection on which the peer sends nothing more and which stays open, on which
  a read would wait for ever, is not such a stream; nor is one that is reset or runs into a read deadline.
\<close>

record stream =
  st_segments :: "bytes list"
  st_sent :: bytes
  st_room :: "nat option"

definition stream_read :: "stream reader" where
  "stream_read n s =
     (case st_segments s of
        [] \<Rightarrow> Some (s, [], Some EOF)
      | seg # segs \<Rightarrow>
          if length seg \<le> n then Some (s\<lparr>st_segments := segs\<rparr>, seg, None)
          else Some (s\<lparr>st_segments := drop n seg # segs\<rparr>, take n seg, None))"

definition stream_write :: "stream writer" where
  "stream_write b s =
     (case st_room s of
        None \<Rightarrow> Some (s\<lparr>st_sent := st_sent s @ b\<rparr>, length b, None)
      | Some room \<Rightarrow>
          if length b \<le> room then Some (s\<lparr>st_sent := st_sent s @ b, st_room := Some (room - length b)\<rparr>, length b, None)
          else Some (s\<lparr>st_sent := st_sent s @ take room b, st_room := Some 0\<rparr>, room, Some IoFailed))"

definition stream_readable :: "stream \<Rightarrow> bool" where
  "stream_readable s \<longleftrightarrow> [] \<notin> set (st_segments s)"

definition stream_content :: "stream \<Rightarrow> bytes" where
  "stream_content s = concat (st_segments s)"

lemma stream_ReadFull_keeps:
  assumes "ReadFull stream_read n s = Some (s', res)"
  shows "st_sent s' = st_sent s \<and> st_room s' = st_room s"
  by (rule ReadFull_rel [of stream_read "\<lambda>s s'. st_sent s' = st_sent s \<and> st_room s' = st_room s", OF _ _ _ assms])
     (auto simp: stream_read_def split: list.splits if_splits)

interpretation stream_in: byte_source stream_read stream_content stream_readable
proof unfold_locales
  fix s :: stream and n :: nat
  assume s: "stream_readable s" "0 < n"
  {
    assume "stream_content s \<noteq> []"
    then obtain seg segs where "st_segments s = seg # segs"
      by (cases "st_segments s") (auto simp: stream_content_def)
    with s show "\<exists>r' bs. stream_read n s = Some (r', bs, None) \<and> bs \<noteq> [] \<and> length bs \<le> n
        \<and> stream_content s = bs @ stream_content r' \<and> stream_readable r'"
      by (auto simp: stream_read_def stream_content_def stream_readable_def)
  next
    assume "stream_content s = []"
    with s have "st_segments s = []"
      by (cases "st_segments s") (auto simp: stream_content_def stream_readable_def)
    with s show "\<exists>r'. stream_read n s = Some (r', [], Some EOF) \<and> stream_content r' = [] \<and> stream_readable r'"
      by (auto simp: stream_read_def stream_content_def stream_readable_def)
  }
qed

interpretation stream_out: byte_sink stream_write st_sent "\<lambda>_. True"
  by unfold_locales (auto simp: stream_write_def split: option.splits if_splits)

interpretation stream_io: duplex stream_read stream_content stream_readable stream_write st_sent "\<lambda>_. True"
  by unfold_locales
     (auto simp: stream_write_def stream_read_def stream_content_def stream_readable_def
       split: option.splits if_splits list.splits)

end
