(* ===== verification/Decoy.thy ===== *)
theory Decoy
  imports Go_Http Go_Io
begin

text \<open>
  The decoy site (\<open>internal/quicx/decoy.go\<close>): what the server answers to everyone who is not an
  authenticated client, a snapshot of another web site.

  The site is fetched by a function argument: what an HTTP client's request for a target returns
  (a failure to build the request included). \<open>Refresh\<close> is one atomic step, as its only write is
  under the mutex.

  Lemmas: \<open>snapshot_ok\<close>, what every snapshot that is served satisfies, whatever the fetched site
  sends.
\<close>

section \<open>Types\<close>

abbreviation maxDecoyBody :: nat where "maxDecoyBody \<equiv> 256 * 1024"

record DecoySnapshot =
  ds_Status :: int
  ds_Header :: Header
  ds_Body :: bytes

datatype decoy_error = TargetRequired | FetchFailed

type_synonym DecoyFetchFunc = "string \<Rightarrow> decoy_error + DecoySnapshot"

text \<open>The response of the fetched site: its body as far as it comes, and the error that ends it early.\<close>

record fetched_response =
  fr_StatusCode :: int
  fr_Header :: Header
  fr_Body :: bytes
  fr_BodyError :: bool

type_synonym HTTPClient = "string \<Rightarrow> fetched_response option"

record DecoyOptions =
  do_Fetch :: "DecoyFetchFunc option"
  do_HTTPClient :: "HTTPClient option"

record Decoy =
  dc_target :: string
  dc_fetch :: DecoyFetchFunc
  dc_snapshot :: DecoySnapshot

section \<open>Operations\<close>

definition defaultDecoyFetcher :: "HTTPClient \<Rightarrow> DecoyFetchFunc" where
  "defaultDecoyFetcher client target =
     (case client target of
        None \<Rightarrow> Inl FetchFailed
      | Some resp \<Rightarrow>
          if fr_BodyError resp \<and> length (fr_Body resp) < maxDecoyBody + 1 then Inl FetchFailed
          else Inr \<lparr>ds_Status = fr_StatusCode resp, ds_Header = fr_Header resp,
                    ds_Body = take (maxDecoyBody + 1) (fr_Body resp)\<rparr>)"

definition notFoundBody :: bytes where
  "notFoundBody = bytes_of_string
     ''<!doctype html><html><head><title>404 Not Found</title></head><body><h1>Not Found</h1></body></html>''"

text \<open>\<open>plainClient\<close> is the \<open>http.Client\<close> that \<open>NewDecoy\<close> makes when it is given none.\<close>

definition NewDecoy :: "HTTPClient \<Rightarrow> string \<Rightarrow> DecoyOptions \<Rightarrow> decoy_error + Decoy" where
  "NewDecoy plainClient target0 opts =
     (let target = TrimSpace target0 in
      if target = [] then Inl TargetRequired
      else
        let fetch = (case do_Fetch opts of
                       Some fetch \<Rightarrow> fetch
                     | None \<Rightarrow>
                         (case do_HTTPClient opts of
                            Some client \<Rightarrow> defaultDecoyFetcher client
                          | None \<Rightarrow> defaultDecoyFetcher plainClient))
        in Inr \<lparr>dc_target = target, dc_fetch = fetch,
                dc_snapshot = \<lparr>ds_Status = 404, ds_Header = [(''Content-Type'', [''text/html; charset=utf-8''])],
                               ds_Body = notFoundBody\<rparr>\<rparr>)"

definition safeNames :: "string list" where
  "safeNames = [''Cache-Control'', ''Content-Language'', ''Content-Type'', ''ETag'', ''Last-Modified'', ''Vary'']"

definition copySafe :: "Header \<Rightarrow> string \<Rightarrow> Header \<Rightarrow> Header" where
  "copySafe from name safe =
     fold (\<lambda>value safe. if ContainsAny value [CHR 0x0D, CHR 0x0A] then safe else Header_Add name value safe)
       (Header_Values name from) safe"

definition sanitizeDecoySnapshot :: "DecoySnapshot \<Rightarrow> DecoySnapshot" where
  "sanitizeDecoySnapshot snapshot =
     \<lparr>ds_Status = (if ds_Status snapshot < 200 \<or> 300 \<le> ds_Status snapshot then 200 else ds_Status snapshot),
      ds_Header = fold (copySafe (ds_Header snapshot)) safeNames [],
      ds_Body = (if maxDecoyBody < length (ds_Body snapshot) then take maxDecoyBody (ds_Body snapshot) else ds_Body snapshot)\<rparr>"

definition Refresh :: "Decoy \<Rightarrow> Decoy \<times> decoy_error option" where
  "Refresh d =
     (case dc_fetch d (dc_target d) of
        Inl e \<Rightarrow> (d, Some e)
      | Inr snapshot \<Rightarrow> (d\<lparr>dc_snapshot := sanitizeDecoySnapshot snapshot\<rparr>, None))"

text \<open>The response to a request on a fresh \<open>ResponseWriter\<close>. The order in which the header map is
  visited does not matter, as its keys are distinct.\<close>

definition copyHeader :: "Header \<Rightarrow> Header \<Rightarrow> Header" where
  "copyHeader from h = fold (\<lambda>(name, values) h. fold (Header_Add name) values h) from h"

definition serveStatus :: "Decoy \<Rightarrow> string \<Rightarrow> int \<Rightarrow> http_response" where
  "serveStatus d rmethod statusOverride =
     (let snapshot = dc_snapshot d;
          h = Header_Set ''Content-Length'' (Itoa (length (ds_Body snapshot))) (copyHeader (ds_Header snapshot) [])
      in \<lparr>rs_Status = (if statusOverride \<noteq> 0 then statusOverride else ds_Status snapshot),
          rs_Header = h,
          rs_Body = (if rmethod \<noteq> MethodHead then ds_Body snapshot else [])\<rparr>)"

definition Decoy_ServeHTTP :: "Decoy \<Rightarrow> string \<Rightarrow> http_response" where
  "Decoy_ServeHTTP d rmethod = serveStatus d rmethod 0"

section \<open>What is served\<close>

definition safe_pair :: "string \<Rightarrow> string \<Rightarrow> bool" where
  "safe_pair key value \<longleftrightarrow> key \<in> CanonicalHeaderKey ` set safeNames \<and> CHR 0x0D \<notin> set value \<and> CHR 0x0A \<notin> set value"

definition snapshot_ok :: "DecoySnapshot \<Rightarrow> bool" where
  "snapshot_ok s \<longleftrightarrow> (ds_Status s = 404 \<or> 200 \<le> ds_Status s \<and> ds_Status s < 300) \<and> length (ds_Body s) \<le> maxDecoyBody
     \<and> gm_wf (ds_Header s) \<and> (\<forall>key value. header_has (ds_Header s) key value \<longrightarrow> safe_pair key value)"

text \<open>The headers of a snapshot: only the listed names, no line breaks in the values.\<close>

definition header_ok :: "Header \<Rightarrow> bool" where
  "header_ok h \<longleftrightarrow> gm_wf h \<and> (\<forall>key value. header_has h key value \<longrightarrow> safe_pair key value)"

lemma header_ok_Add:
  "header_ok h \<Longrightarrow> name \<in> set safeNames \<Longrightarrow> CHR 0x0D \<notin> set v \<Longrightarrow> CHR 0x0A \<notin> set v \<Longrightarrow> header_ok (Header_Add name v h)"
  by (auto simp: header_ok_def header_has_Add safe_pair_def)

lemma header_ok_copySafe:
  assumes "header_ok safe" and "name \<in> set safeNames"
  shows "header_ok (copySafe from name safe)"
proof -
  have "header_ok (fold (\<lambda>value safe. if ContainsAny value [CHR 0x0D, CHR 0x0A] then safe else Header_Add name value safe) vs safe)" for vs
    using assms
    by (induction vs arbitrary: safe) (auto simp: ContainsAny_iff header_ok_Add)
  then show ?thesis by (simp add: copySafe_def)
qed

lemma header_ok_fold: "set names \<subseteq> set safeNames \<Longrightarrow> header_ok h \<Longrightarrow> header_ok (fold (copySafe from) names h)"
  by (induction names arbitrary: h) (auto simp: header_ok_copySafe)

lemma sanitize_ok: "snapshot_ok (sanitizeDecoySnapshot s)"
  using header_ok_fold [of safeNames "[]" "ds_Header s"]
  by (auto simp: snapshot_ok_def sanitizeDecoySnapshot_def header_ok_def)

lemma NewDecoy_ok: "NewDecoy client target opts = Inr d \<Longrightarrow> snapshot_ok (dc_snapshot d)"
proof -
  have "CanonicalHeaderKey ''Content-Type'' = ''Content-Type''" by code_simp
  then have "safe_pair ''Content-Type'' ''text/html; charset=utf-8''"
    by (simp add: safe_pair_def safeNames_def)
  moreover assume "NewDecoy client target opts = Inr d"
  ultimately show ?thesis
    by (auto simp: NewDecoy_def Let_def snapshot_ok_def notFoundBody_def header_has_def gm_lookup_def gm_wf_def split: if_splits)
qed

lemma Refresh_ok: "snapshot_ok (dc_snapshot d) \<Longrightarrow> snapshot_ok (dc_snapshot (fst (Refresh d)))"
  by (auto simp: Refresh_def sanitize_ok split: sum.split)

lemma header_has_copyHeader:
  "header_has (copyHeader from h) key value \<Longrightarrow>
     header_has h key value \<or> (\<exists>name vs. (name, vs) \<in> set from \<and> key = CanonicalHeaderKey name \<and> value \<in> set vs)"
proof (induction "from" arbitrary: h)
  case (Cons e "from")
  obtain name vs where e: "e = (name, vs)" by fastforce
  have add: "header_has (fold (Header_Add name) ws h) key value \<Longrightarrow> header_has h key value \<or> (key = CanonicalHeaderKey name \<and> value \<in> set ws)" for ws h
  proof (induction ws arbitrary: h)
    case (Cons w ws)
    from Cons.IH [of "Header_Add name w h"] Cons.prems show ?case by (auto simp: header_has_Add)
  qed simp
  from Cons.prems have "header_has (copyHeader from (fold (Header_Add name) vs h)) key value"
    by (simp add: copyHeader_def e)
  from Cons.IH [OF this] add [of vs h] show ?case by (auto simp: e)
qed (simp add: copyHeader_def)

text \<open>The keys of a snapshot's header are canonical already, so serving them keeps them.\<close>

lemma safeNames_canonical: "key \<in> CanonicalHeaderKey ` set safeNames \<Longrightarrow> CanonicalHeaderKey key = key"
proof -
  have "map CanonicalHeaderKey safeNames = [''Cache-Control'', ''Content-Language'', ''Content-Type'', ''Etag'', ''Last-Modified'', ''Vary'']"
    by code_simp
  moreover have "map CanonicalHeaderKey [''Cache-Control'', ''Content-Language'', ''Content-Type'', ''Etag'', ''Last-Modified'', ''Vary'']
      = [''Cache-Control'', ''Content-Language'', ''Content-Type'', ''Etag'', ''Last-Modified'', ''Vary'']"
    by code_simp
  ultimately have "map CanonicalHeaderKey (map CanonicalHeaderKey safeNames) = map CanonicalHeaderKey safeNames" by simp
  moreover assume "key \<in> CanonicalHeaderKey ` set safeNames"
  ultimately show ?thesis by (auto simp: map_eq_conv)
qed

section \<open>Properties\<close>

text \<open>The states of the decoy: made by \<open>NewDecoy\<close>, then refreshed any number of times, each time
  from whatever the fetch function returns then.\<close>

inductive reachable_decoy :: "Decoy \<Rightarrow> bool" where
  fresh: "NewDecoy client target opts = Inr d \<Longrightarrow> reachable_decoy d"
| refreshed: "reachable_decoy d \<Longrightarrow> reachable_decoy (fst (Refresh (d\<lparr>dc_fetch := fetch\<rparr>)))"

lemma reachable_decoy_ok: "reachable_decoy d \<Longrightarrow> snapshot_ok (dc_snapshot d)"
  by (induction rule: reachable_decoy.induct) (auto intro: NewDecoy_ok Refresh_ok)

text \<open>C27 (safety). Whatever the decoy site sends, an answer of the decoy has a status of 404 or in
  the two hundreds (or the given override), a body of at most 256 KiB, a \<open>Content-Length\<close> that is
  the snapshot's length, and besides that only the six listed headers, with no line break in
  their values; a \<open>HEAD\<close> request gets no body.\<close>

theorem decoy_answer_safe:
  assumes "reachable_decoy d"
  shows "let r = serveStatus d rmethod override in
    (if override = 0 then rs_Status r = 404 \<or> 200 \<le> rs_Status r \<and> rs_Status r < 300 else rs_Status r = override)
    \<and> length (rs_Body r) \<le> 256 * 1024 \<and> (rmethod = MethodHead \<longrightarrow> rs_Body r = [])
    \<and> Header_Values ''Content-Length'' (rs_Header r) = [Itoa (length (ds_Body (dc_snapshot d)))]
    \<and> (\<forall>key value. header_has (rs_Header r) key value \<longrightarrow> key \<noteq> ''Content-Length'' \<longrightarrow> safe_pair key value)"
proof -
  let ?s = "dc_snapshot d" and ?h = "copyHeader (ds_Header (dc_snapshot d)) []"
  have ok: "snapshot_ok ?s" by (rule reachable_decoy_ok [OF assms])
  have cl: "CanonicalHeaderKey ''Content-Length'' = ''Content-Length''" by code_simp
  have "safe_pair key v" if has: "header_has ?h key v" for key v
  proof -
    from header_has_copyHeader [OF has] obtain name vs
      where e: "(name, vs) \<in> set (ds_Header ?s)" "key = CanonicalHeaderKey name" "v \<in> set vs" by auto
    with ok have "header_has (ds_Header ?s) name v"
      by (auto simp: header_has_def snapshot_ok_def intro: gm_in_lookup)
    with ok have "safe_pair name v" by (simp add: snapshot_ok_def)
    with safeNames_canonical [of name] e(2) show ?thesis by (simp add: safe_pair_def)
  qed
  then show ?thesis
    using ok by (simp add: serveStatus_def Let_def header_has_Set cl snapshot_ok_def)
      (simp add: Header_Values_def Header_Set_def gomap)
qed

definition ex_decoy :: Decoy where
  "ex_decoy = \<lparr>dc_target = ''a'', dc_fetch = (\<lambda>_. Inl FetchFailed),
     dc_snapshot = \<lparr>ds_Status = 404, ds_Header = [(''Content-Type'', [''text/html; charset=utf-8''])], ds_Body = notFoundBody\<rparr>\<rparr>"

lemma ex_decoy_reachable: "reachable_decoy ex_decoy"
proof (rule reachable_decoy.fresh)
  have "TrimSpace ''a'' = ''a''" by (rule TrimSpace_plain) (simp add: plain_def plain_char_def)
  then show "NewDecoy (\<lambda>_. None) ''a'' \<lparr>do_Fetch = Some (\<lambda>_. Inl FetchFailed), do_HTTPClient = None\<rparr> = Inr ex_decoy"
    by (simp add: NewDecoy_def ex_decoy_def)
qed

text \<open>The decoy after a fetch that brought a redirect with a cookie.\<close>

definition ex_fetched :: Decoy where
  "ex_fetched = fst (Refresh (ex_decoy\<lparr>dc_fetch := (\<lambda>_. Inr \<lparr>ds_Status = 302,
     ds_Header = [(''Content-Type'', [''text/html'']), (''Set-Cookie'', [''a=b''])], ds_Body = [1, 2, 3]\<rparr>)\<rparr>))"

theorem decoy_answer_safe_witness:
  "rs_Status (serveStatus ex_fetched ''GET'' 0) = 200 \<and> rs_Body (serveStatus ex_fetched ''GET'' 0) = [1, 2, 3]
     \<and> Header_Values ''Content-Length'' (rs_Header (serveStatus ex_fetched ''GET'' 0)) = [''3'']
     \<and> \<not> header_has (rs_Header (serveStatus ex_fetched ''GET'' 0)) ''Set-Cookie'' ''a=b''"
proof -
  have "reachable_decoy ex_fetched"
    unfolding ex_fetched_def by (rule reachable_decoy.refreshed [OF ex_decoy_reachable])
  note safe = decoy_answer_safe [OF this, of "''GET''" 0, unfolded Let_def]
  have snap: "ds_Status (dc_snapshot ex_fetched) = 200" "ds_Body (dc_snapshot ex_fetched) = [1, 2, 3]"
    by (simp_all add: ex_fetched_def Refresh_def sanitizeDecoySnapshot_def)
  have "Itoa (length [1, 2, 3 :: byte]) = ''3''" by code_simp
  moreover have "''Set-Cookie'' \<notin> set (map CanonicalHeaderKey safeNames)" by code_simp
  then have "\<not> safe_pair ''Set-Cookie'' ''a=b''" by (simp add: safe_pair_def)
  ultimately show ?thesis using safe snap by (auto simp: serveStatus_def MethodHead_def Let_def)
qed

end
