(* ===== verification/Net_Addr.thy ===== *)
theory Net_Addr
  imports Go_Strings
begin

unbundle bit_operations_syntax

text \<open>
  What the program uses of Go's packages \<open>net\<close> and \<open>net/netip\<close>: \<open>SplitHostPort\<close> and
  \<open>JoinHostPort\<close>, \<open>net.IP\<close> (a byte slice, \<open>nil\<close> when empty) with \<open>ParseIP\<close>, \<open>String\<close>,
  \<open>To4\<close> and \<open>To16\<close>, and \<open>netip.Addr\<close> with the predicates and prefixes of
  \<open>internal/chimera/guard.go\<close>.

  Lemmas: \<open>SplitHostPort_JoinHostPort\<close> (joining and splitting are inverse),
  \<open>ParseIP_IP_String\<close> (the text of an address, with the zero compression of IPv6, parses to it).
\<close>

section \<open>Host and port\<close>

datatype host_port_error = MissingPort | TooManyColons | MissingBracket | UnexpectedBracket

definition LastIndexByte :: "string \<Rightarrow> char \<Rightarrow> nat option" where
  "LastIndexByte s c = (if c \<in> set s then Some (length s - 1 - length (takeWhile (\<lambda>x. x \<noteq> c) (rev s))) else None)"

definition IndexByte :: "string \<Rightarrow> char \<Rightarrow> nat option" where
  "IndexByte s c = (if c \<in> set s then Some (length (takeWhile (\<lambda>x. x \<noteq> c) s)) else None)"

definition SplitHostPort :: "string \<Rightarrow> host_port_error + (string \<times> string)" where
  "SplitHostPort hostport =
     (case LastIndexByte hostport CHR '':'' of
        None \<Rightarrow> Inl MissingPort
      | Some i \<Rightarrow>
          let port = drop (i + 1) hostport in
          if hd hostport = CHR ''['' then
            (case IndexByte hostport CHR '']'' of
               None \<Rightarrow> Inl MissingBracket
             | Some end \<Rightarrow>
                 if end + 1 = length hostport then Inl MissingPort
                 else if end + 1 = i then
                   (if CHR ''['' \<in> set (drop 1 hostport) then Inl UnexpectedBracket
                    else if CHR '']'' \<in> set (drop (end + 1) hostport) then Inl UnexpectedBracket
                    else Inr (take (end - 1) (drop 1 hostport), port))
                 else if hostport ! (end + 1) = CHR '':'' then Inl TooManyColons
                 else Inl MissingPort)
          else
            let host = take i hostport in
            if CHR '':'' \<in> set host then Inl TooManyColons
            else if CHR ''['' \<in> set hostport then Inl UnexpectedBracket
            else if CHR '']'' \<in> set hostport then Inl UnexpectedBracket
            else Inr (host, port))"

definition JoinHostPort :: "string \<Rightarrow> string \<Rightarrow> string" where
  "JoinHostPort host port =
     (if CHR '':'' \<in> set host then ''['' @ host @ '']:'' @ port else host @ '':'' @ port)"

lemma LastIndexByte_split:
  assumes "c \<notin> set t"
  shows "LastIndexByte (s @ c # t) c = Some (length s)"
proof -
  have "takeWhile (\<lambda>x. x \<noteq> c) (rev t @ c # rev s) = rev t"
    using assms by (subst takeWhile_append2) auto
  then show ?thesis by (simp add: LastIndexByte_def)
qed

lemma IndexByte_split:
  assumes "c \<notin> set s"
  shows "IndexByte (s @ c # t) c = Some (length s)"
proof -
  have "takeWhile (\<lambda>x. x \<noteq> c) (s @ c # t) = s"
    using assms by (subst takeWhile_append2) auto
  then show ?thesis by (simp add: IndexByte_def)
qed

definition host_chars_ok :: "string \<Rightarrow> bool" where
  "host_chars_ok s \<longleftrightarrow> CHR ''['' \<notin> set s \<and> CHR '']'' \<notin> set s"

lemma SplitHostPort_JoinHostPort:
  assumes host: "host_chars_ok host" and port: "host_chars_ok port" "CHR '':'' \<notin> set port"
  shows "SplitHostPort (JoinHostPort host port) = Inr (host, port)"
proof (cases "CHR '':'' \<in> set host")
  case True
  have "LastIndexByte ((''['' @ host @ '']'') @ CHR '':'' # port) CHR '':'' = Some (length (''['' @ host @ '']''))"
    by (rule LastIndexByte_split [OF port(2)])
  moreover have "IndexByte ((''['' @ host) @ CHR '']'' # '':'' @ port) CHR '']'' = Some (length (''['' @ host))"
    using host by (intro IndexByte_split) (auto simp: host_chars_ok_def)
  ultimately show ?thesis
    using True host port by (auto simp: JoinHostPort_def SplitHostPort_def host_chars_ok_def Let_def)
next
  case False
  have "LastIndexByte (host @ CHR '':'' # port) CHR '':'' = Some (length host)"
    by (rule LastIndexByte_split [OF port(2)])
  moreover have "hd (host @ CHR '':'' # port) \<noteq> CHR ''[''"
    using host by (cases host) (auto simp: host_chars_ok_def)
  ultimately show ?thesis
    using False host port by (auto simp: JoinHostPort_def SplitHostPort_def host_chars_ok_def Let_def)
qed

lemma host_chars_ok_Itoa: "host_chars_ok (Itoa n)" "CHR '':'' \<notin> set (Itoa n)"
  using Itoa_chars [of "CHR ''[''" n] Itoa_chars [of "CHR '']''" n] Itoa_chars [of "CHR '':''" n]
  by (auto simp: host_chars_ok_def)

section \<open>IP addresses\<close>

type_synonym IP = bytes

definition v4InV6Prefix :: bytes where
  "v4InV6Prefix = [0, 0, 0, 0, 0, 0, 0, 0, 0, 0, 255, 255]"

definition To4 :: "IP \<Rightarrow> IP" where
  "To4 ip = (if length ip = 4 then ip
     else if length ip = 16 \<and> take 12 ip = v4InV6Prefix then drop 12 ip else [])"

definition To16 :: "IP \<Rightarrow> IP" where
  "To16 ip = (if length ip = 4 then v4InV6Prefix @ ip else if length ip = 16 then ip else [])"

lemma length_To4: "length (To4 ip) = 4 \<or> To4 ip = []"
  by (simp add: To4_def)

lemma length_To16: "length (To16 ip) = 16 \<or> To16 ip = []"
  by (simp add: To16_def v4InV6Prefix_def)

subsection \<open>Text to address\<close>

definition parseOctet :: "string \<Rightarrow> byte option" where
  "parseOctet s =
     (case those (map digit_val s) of
        None \<Rightarrow> None
      | Some ds \<Rightarrow>
          let v = foldl (\<lambda>a d. a * 10 + d) 0 ds in
          if s = [] \<or> (1 < length s \<and> hd s = CHR ''0'') \<or> 255 < v then None else Some (of_nat v))"

definition parseIPv4Fields :: "string \<Rightarrow> bytes option" where
  "parseIPv4Fields s =
     (let parts = split_on CHR ''.'' s in
      if length parts \<noteq> 4 then None else those (map parseOctet parts))"

text \<open>The loop of \<open>netip.parseIPv6\<close>: what is parsed so far, where the ellipsis is, the rest of the
  text. The run of hexadecimal digits is \<open>takeWhile\<close>.\<close>

definition hexAcc :: "string \<Rightarrow> nat" where
  "hexAcc s = foldl (\<lambda>acc c. case hex_val c of None \<Rightarrow> acc | Some v \<Rightarrow> acc * 16 + v) 0 s"

function parse6_groups :: "bytes \<Rightarrow> nat option \<Rightarrow> string \<Rightarrow> (bytes \<times> nat option \<times> string) option" where
  "parse6_groups ip ellipsis s =
     (if 16 \<le> length ip then Some (ip, ellipsis, s)
      else
        let ds = takeWhile (\<lambda>c. hex_val c \<noteq> None) s;
            rest = drop (length ds) s
        in if 4 < length ds \<or> ds = [] then None
           else if rest \<noteq> [] \<and> hd rest = CHR ''.'' then
             (if ellipsis = None \<and> length ip \<noteq> 12 then None
              else if 16 < length ip + 4 then None
              else case parseIPv4Fields s of None \<Rightarrow> None | Some v4 \<Rightarrow> Some (ip @ v4, ellipsis, []))
           else
             let ip' = ip @ [of_nat (hexAcc ds div 256), of_nat (hexAcc ds)] in
             if rest = [] then Some (ip', ellipsis, [])
             else if hd rest \<noteq> CHR '':'' then None
             else if length rest = 1 then None
             else if rest ! 1 = CHR '':'' then
               (if ellipsis \<noteq> None then None
                else if length rest = 2 then Some (ip', Some (length ip'), [])
                else parse6_groups ip' (Some (length ip')) (drop 2 rest))
             else parse6_groups ip' ellipsis (drop 1 rest))"
  by pat_completeness auto
termination
  by (relation "measure (\<lambda>(ip, ellipsis, s). 16 - length ip)") auto

declare parse6_groups.simps [simp del]

text \<open>The address and whether it has a zone.\<close>

definition parseIPv6 :: "string \<Rightarrow> (bytes \<times> bool) option" where
  "parseIPv6 in6 =
     (let s = takeWhile (\<lambda>c. c \<noteq> CHR ''%'') in6;
          zone = drop (length s + 1) in6;
          has_zone = (length s < length in6)
      in if has_zone \<and> zone = [] then None
         else
           let leading = (2 \<le> length s \<and> take 2 s = ''::'');
               s' = (if leading then drop 2 s else s)
           in if leading \<and> s' = [] then Some (replicate 16 0, has_zone)
              else case parse6_groups [] (if leading then Some 0 else None) s' of
                  None \<Rightarrow> None
                | Some (ip, ellipsis, rest) \<Rightarrow>
                    if rest \<noteq> [] then None
                    else if length ip < 16 then
                      (case ellipsis of
                         None \<Rightarrow> None
                       | Some e \<Rightarrow> Some (take e ip @ replicate (16 - length ip) 0 @ drop e ip, has_zone))
                    else if ellipsis \<noteq> None then None
                    else Some (ip, has_zone))"

definition ParseIP :: "string \<Rightarrow> IP" where
  "ParseIP s =
     (case filter (\<lambda>c. c \<in> {CHR ''.'', CHR '':'', CHR ''%''}) s of
        [] \<Rightarrow> []
      | c # _ \<Rightarrow>
          if c = CHR ''.'' then (case parseIPv4Fields s of None \<Rightarrow> [] | Some v4 \<Rightarrow> v4InV6Prefix @ v4)
          else if c = CHR '':'' then
            (case parseIPv6 s of None \<Rightarrow> [] | Some (ip, has_zone) \<Rightarrow> if has_zone then [] else ip)
          else [])"

subsection \<open>Address to text\<close>

definition String4 :: "bytes \<Rightarrow> string" where
  "String4 ip = Itoa (unat (ip ! 0)) @ ''.'' @ Itoa (unat (ip ! 1)) @ ''.'' @ Itoa (unat (ip ! 2)) @ ''.'' @ Itoa (unat (ip ! 3))"

fun appendHex :: "nat \<Rightarrow> string" where
  "appendHex n = (if n < 16 then [hex_digit n] else appendHex (n div 16) @ [hex_digit (n mod 16)])"

declare appendHex.simps [simp del]

definition v6u16 :: "bytes \<Rightarrow> nat \<Rightarrow> nat" where
  "v6u16 ip i = unat (ip ! (2 * i)) * 256 + unat (ip ! (2 * i + 1))"

definition zeroRun :: "bytes \<Rightarrow> nat \<Rightarrow> nat" where
  "zeroRun ip i = length (takeWhile (\<lambda>k. v6u16 ip k = 0) [i..<8])"

text \<open>The longest run of at least two zero groups, the first one among equals: start and length.\<close>

fun longestZeros :: "bytes \<Rightarrow> nat list \<Rightarrow> nat \<times> nat \<Rightarrow> nat \<times> nat" where
  "longestZeros ip [] best = best"
| "longestZeros ip (i # is) best =
     longestZeros ip is (if 2 \<le> zeroRun ip i \<and> snd best < zeroRun ip i then (i, zeroRun ip i) else best)"

definition joinGroups :: "bytes \<Rightarrow> nat list \<Rightarrow> string" where
  "joinGroups ip is = concat (map (\<lambda>i. (if i = hd is then '''' else '':'') @ appendHex (v6u16 ip i)) is)"

definition String6 :: "bytes \<Rightarrow> string" where
  "String6 ip =
     (let (start, len) = longestZeros ip [0..<8] (255, 0) in
      if len = 0 then joinGroups ip [0..<8]
      else joinGroups ip [0..<start] @ ''::'' @ joinGroups ip [start + len..<8])"

definition IP_String :: "IP \<Rightarrow> string" where
  "IP_String ip =
     (if ip = [] then ''<nil>''
      else if length ip \<noteq> 4 \<and> length ip \<noteq> 16 then ''?'' @ hex_EncodeToString ip
      else if To4 ip \<noteq> [] then String4 (To4 ip)
      else String6 ip)"

subsection \<open>The text of an IPv4 address parses to it\<close>

lemma split_on_append: "d \<notin> set s \<Longrightarrow> split_on d (s @ d # t) = s # split_on d t"
  by (induction s) auto

lemma split_on_none: "d \<notin> set s \<Longrightarrow> split_on d s = [s]"
  by (induction s) auto

lemma Itoa_no_leading_zero: "0 < n \<Longrightarrow> hd (Itoa n) \<noteq> CHR ''0''"
proof (induction n rule: Itoa.induct)
  case (1 n)
  show ?case
  proof (cases "n < 10")
    case True
    have "char_of (48 + n) \<noteq> (CHR ''0'')"
    proof
      assume "char_of (48 + n) = CHR ''0''"
      then have "(of_char (char_of (48 + n)) :: nat) = of_char (CHR ''0'')" by (rule arg_cong)
      with True 1(2) show False by simp
    qed
    with True show ?thesis by (simp add: Itoa.simps [of n] digit_def)
  next
    case False
    then have "hd (Itoa (n div 10)) \<noteq> CHR ''0''" by (intro 1(1)) auto
    with False show ?thesis by (simp add: Itoa.simps [of n])
  qed
qed

lemma parseOctet_Itoa: "n < 256 \<Longrightarrow> parseOctet (Itoa n) = Some (of_nat n)"
proof -
  assume n: "n < 256"
  obtain ds where ds: "those (map digit_val (Itoa n)) = Some ds" "foldl (\<lambda>a d. a * 10 + d) 0 ds = n"
    using Itoa_digits [of n] by blast
  have "\<not> (1 < length (Itoa n) \<and> hd (Itoa n) = CHR ''0'')"
    using Itoa_no_leading_zero [of n] by (cases "n = 0") (auto simp: Itoa.simps)
  with ds n show ?thesis by (simp add: parseOctet_def)
qed

lemma not_in_Itoa: "of_char c < (48 :: nat) \<or> 57 < (of_char c :: nat) \<Longrightarrow> c \<notin> set (Itoa n)"
  using Itoa_chars [of c n] by auto

lemma unat_byte_less: "unat (b :: byte) < 256"
  using unsigned_less [of b] by simp

lemma parseIPv4Fields_String4:
  assumes "length ip = 4"
  shows "parseIPv4Fields (String4 ip) = Some ip"
proof -
  from assms obtain a b c d where ip: "ip = [a, b, c, d]"
    by (auto simp: numeral_eq_Suc length_Suc_conv)
  have "split_on CHR ''.'' (String4 ip) = [Itoa (unat a), Itoa (unat b), Itoa (unat c), Itoa (unat d)]"
    by (simp add: String4_def ip split_on_append split_on_none not_in_Itoa)
  then show ?thesis
    by (simp add: parseIPv4Fields_def parseOctet_Itoa unat_byte_less ip)
qed

lemma ParseIP_String4:
  assumes "length ip = 4"
  shows "ParseIP (String4 ip) = v4InV6Prefix @ ip"
proof -
  have "filter (\<lambda>c. c \<in> {CHR ''.'', CHR '':'', CHR ''%''}) (Itoa n) = []" for n
    by (auto simp: filter_empty_conv not_in_Itoa)
  then have "filter (\<lambda>c. c \<in> {CHR ''.'', CHR '':'', CHR ''%''}) (String4 ip) = ''...''"
    by (simp add: String4_def)
  then show ?thesis
    by (simp add: ParseIP_def parseIPv4Fields_String4 [OF assms])
qed

lemma String4_chars: "c \<in> set (String4 ip) \<Longrightarrow> c = CHR ''.'' \<or> 48 \<le> (of_char c :: nat) \<and> (of_char c :: nat) \<le> 57"
  by (auto simp: String4_def dest: Itoa_chars)

lemma appendHex_chars:
  "c \<in> set (appendHex n) \<Longrightarrow> 48 \<le> (of_char c :: nat) \<and> (of_char c :: nat) \<le> 57 \<or> 97 \<le> (of_char c :: nat) \<and> (of_char c :: nat) \<le> 102"
proof (induction n rule: appendHex.induct)
  case (1 n)
  then show ?case
    by (cases "n < 16") (auto simp: appendHex.simps [of n] hex_digit_def split: if_splits)
qed

lemma String6_chars:
  "c \<in> set (String6 ip) \<Longrightarrow> c = CHR '':'' \<or> 48 \<le> (of_char c :: nat) \<and> (of_char c :: nat) \<le> 57 \<or> 97 \<le> (of_char c :: nat) \<and> (of_char c :: nat) \<le> 102"
  by (auto simp: String6_def joinGroups_def Let_def dest: appendHex_chars split: prod.splits if_splits)

lemma host_chars_ok_IP_String: "length ip = 4 \<or> length ip = 16 \<Longrightarrow> host_chars_ok (IP_String ip)"
proof -
  assume "length ip = 4 \<or> length ip = 16"
  then have "IP_String ip = String4 (To4 ip) \<or> IP_String ip = String6 ip"
    by (auto simp: IP_String_def)
  then show ?thesis
    using String4_chars [of "CHR ''[''" "To4 ip"] String4_chars [of "CHR '']''" "To4 ip"]
      String6_chars [of "CHR ''[''" ip] String6_chars [of "CHR '']''" ip]
    by (auto simp: host_chars_ok_def)
qed

subsection \<open>The text of an IPv6 address parses to it\<close>

lemma appendHex_not_Nil [simp]: "appendHex n \<noteq> []"
  by (subst appendHex.simps) simp

lemma hexAcc_snoc: "n < 16 \<Longrightarrow> hexAcc (s @ [hex_digit n]) = hexAcc s * 16 + n"
  by (simp add: hexAcc_def hex_val_digit)

lemma hexAcc_appendHex: "hexAcc (appendHex n) = n"
proof (induction n rule: appendHex.induct)
  case (1 n)
  then show ?case
    using hexAcc_snoc [of "n mod 16" "appendHex (n div 16)"] hexAcc_snoc [of n "[]"]
    by (cases "n < 16") (simp_all add: appendHex.simps [of n] hexAcc_def [of "[]"])
qed

lemma length_appendHex: "0 < k \<Longrightarrow> n < 16 ^ k \<Longrightarrow> length (appendHex n) \<le> k"
proof (induction k arbitrary: n)
  case (Suc k)
  show ?case
  proof (cases "n < 16")
    case False
    with Suc.prems have "n div 16 < 16 ^ k" "0 < k"
      by (auto simp: less_mult_imp_div_less mult.commute intro: gr0I)
    with Suc.IH [of "n div 16"] False show ?thesis by (simp add: appendHex.simps [of n])
  qed (simp add: appendHex.simps [of n])
qed simp

lemma hex_val_appendHex: "c \<in> set (appendHex n) \<Longrightarrow> hex_val c \<noteq> None"
  using appendHex_chars [of c n] by (auto simp: hex_val_def Let_def)

lemma hex_val_colon: "hex_val (CHR '':'') = None"
  by (simp add: hex_val_def)

lemma takeWhile_appendHex:
  "rest = [] \<or> hd rest = CHR '':'' \<Longrightarrow> takeWhile (\<lambda>c. hex_val c \<noteq> None) (appendHex n @ rest) = appendHex n"
  using hex_val_appendHex [of _ n] by (cases rest) (fastforce simp: hex_val_colon takeWhile_append)+

lemma v6u16_less: "v6u16 ip i < 16 ^ 4"
  using unat_byte_less [of "ip ! (2 * i)"] unat_byte_less [of "ip ! (2 * i + 1)"] by (simp add: v6u16_def)

lemma v6u16_bytes:
  "of_nat (v6u16 ip i div 256) = ip ! (2 * i)" "of_nat (v6u16 ip i) = ip ! (2 * i + 1)"
proof -
  have "v6u16 ip i div 256 = unat (ip ! (2 * i))"
    using unat_byte_less [of "ip ! (2 * i + 1)"] by (simp add: v6u16_def)
  then show "of_nat (v6u16 ip i div 256) = ip ! (2 * i)" by simp
  have "(of_nat (v6u16 ip i) :: byte) = of_nat (unat (ip ! (2 * i))) * of_nat 256 + of_nat (unat (ip ! (2 * i + 1)))"
    unfolding v6u16_def by (simp only: of_nat_add of_nat_mult)
  also have "(of_nat 256 :: byte) = 0" by simp
  finally show "of_nat (v6u16 ip i) = ip ! (2 * i + 1)" by simp
qed

definition groups :: "bytes \<Rightarrow> nat \<Rightarrow> nat \<Rightarrow> bytes" where
  "groups ip a b = concat (map (\<lambda>i. [ip ! (2 * i), ip ! (2 * i + 1)]) [a..<b])"

lemma groups_Cons: "a < b \<Longrightarrow> groups ip a b = ip ! (2 * a) # ip ! (2 * a + 1) # groups ip (Suc a) b"
  by (simp add: groups_def upt_conv_Cons)

lemma length_groups: "length (groups ip a b) = 2 * (b - a)"
  by (induction "b - a" arbitrary: a) (auto simp: groups_def upt_conv_Cons)

lemma groups_append: "a \<le> b \<Longrightarrow> b \<le> c \<Longrightarrow> groups ip a c = groups ip a b @ groups ip b c"
  using upt_add_eq_append [of a b "c - b"] by (simp add: groups_def)

lemma groups_all: "length ip = 16 \<Longrightarrow> groups ip 0 8 = ip"
  by (rule nth_equalityI) (auto simp: groups_def upt_rec numeral_eq_Suc length_Suc_conv)

lemma groups_zero: "(\<And>i. a \<le> i \<Longrightarrow> i < b \<Longrightarrow> v6u16 ip i = 0) \<Longrightarrow> groups ip a b = replicate (2 * (b - a)) 0"
proof (induction "b - a" arbitrary: a)
  case (Suc n)
  then have ab: "a < b" by simp
  then have "v6u16 ip a = 0" using Suc.prems by simp
  then have "ip ! (2 * a) = 0" "ip ! (2 * a + 1) = 0"
    by (simp_all add: v6u16_def unsigned_eq_0_iff)
  moreover have "groups ip (Suc a) b = replicate (2 * (b - Suc a)) 0"
    using Suc by simp
  moreover have "2 * (b - a) = Suc (Suc (2 * (b - Suc a)))" using ab by simp
  ultimately show ?case using groups_Cons [OF ab, of ip] by simp
qed (simp add: groups_def)

lemma joinGroups_Cons:
  "a < b \<Longrightarrow> joinGroups ip [a..<b] = appendHex (v6u16 ip a) @ (if Suc a < b then CHR '':'' # joinGroups ip [Suc a..<b] else [])"
  by (cases "Suc a < b") (auto simp: joinGroups_def upt_conv_Cons intro!: arg_cong [where f = concat])

lemma joinGroups_single: "joinGroups ip [a] = appendHex (v6u16 ip a)"
  by (simp add: joinGroups_def)

lemma joinGroups_hd: "a < b \<Longrightarrow> joinGroups ip [a..<b] \<noteq> [] \<and> joinGroups ip [a..<b] ! 0 \<noteq> CHR '':''"
proof -
  assume "a < b"
  moreover have "hd (appendHex n) \<noteq> CHR '':''" for n
    using hex_val_appendHex [of "hd (appendHex n)" n] hex_val_colon by (metis hd_in_set appendHex_not_Nil)
  ultimately show ?thesis by (simp add: joinGroups_Cons nth_append hd_conv_nth [symmetric])
qed

text \<open>One group: the digits, then the colons or the end.\<close>

lemma parse6_group:
  assumes "length ip < 16" and "rest = [] \<or> hd rest = CHR '':''"
  shows "parse6_groups ip ellipsis (appendHex (v6u16 bs a) @ rest) =
    (let ip' = ip @ [bs ! (2 * a), bs ! (2 * a + 1)] in
     if rest = [] then Some (ip', ellipsis, [])
     else if length rest = 1 then None
     else if rest ! 1 = CHR '':'' then
       (if ellipsis \<noteq> None then None
        else if length rest = 2 then Some (ip', Some (length ip'), [])
        else parse6_groups ip' (Some (length ip')) (drop 2 rest))
     else parse6_groups ip' ellipsis (drop 1 rest))"
  using assms(1) takeWhile_appendHex [OF assms(2), of "v6u16 bs a"] assms(2)
    length_appendHex [OF _ v6u16_less [of bs a]]
  by (subst parse6_groups.simps) (auto simp: Let_def hexAcc_appendHex v6u16_bytes)

lemma parse6_joined:
  "a < b \<Longrightarrow> length acc + 2 * (b - a) \<le> 16 \<Longrightarrow>
   parse6_groups acc ellipsis (joinGroups ip [a..<b]) = Some (acc @ groups ip a b, ellipsis, [])"
proof (induction "b - a" arbitrary: a acc)
  case (Suc n)
  have short: "length acc < 16" using Suc.prems by simp
  show ?case
  proof (cases "Suc a < b")
    case True
    have "parse6_groups (acc @ [ip ! (2 * a), ip ! (2 * a + 1)]) ellipsis (joinGroups ip [Suc a..<b])
        = Some ((acc @ [ip ! (2 * a), ip ! (2 * a + 1)]) @ groups ip (Suc a) b, ellipsis, [])"
      by (rule Suc.hyps(1)) (use Suc.hyps(2) Suc.prems True in auto)
    with True Suc.prems joinGroups_hd [OF True, of ip] show ?thesis
      by (simp add: joinGroups_Cons [OF Suc.prems(1)] parse6_group [OF short] Let_def groups_Cons [OF Suc.prems(1)])
  next
    case False
    then have "b = Suc a" using Suc.prems by simp
    then show ?thesis
      using parse6_group [OF short, of "[]" ellipsis ip a]
      by (simp add: joinGroups_single groups_def)
  qed
qed simp

lemma parse6_split:
  "a < b \<Longrightarrow> b \<le> c \<Longrightarrow> c \<le> 8 \<Longrightarrow> length acc + 2 * (b - a) + 2 * (8 - c) < 16 \<Longrightarrow>
   parse6_groups acc None (joinGroups ip [a..<b] @ ''::'' @ joinGroups ip [c..<8])
     = Some (acc @ groups ip a b @ groups ip c 8, Some (length acc + 2 * (b - a)), [])"
proof (induction "b - a" arbitrary: a acc)
  case (Suc n)
  have short: "length acc < 16" using Suc.prems by simp
  show ?case
  proof (cases "Suc a < b")
    case True
    have len: "length acc + 2 * (b - a) = length acc + 2 + 2 * (b - Suc a)" using True by simp
    have "parse6_groups (acc @ [ip ! (2 * a), ip ! (2 * a + 1)]) None (joinGroups ip [Suc a..<b] @ ''::'' @ joinGroups ip [c..<8])
        = Some ((acc @ [ip ! (2 * a), ip ! (2 * a + 1)]) @ groups ip (Suc a) b @ groups ip c 8,
             Some (length (acc @ [ip ! (2 * a), ip ! (2 * a + 1)]) + 2 * (b - Suc a)), [])"
      by (rule Suc.hyps(1)) (use Suc.hyps(2) Suc.prems True in auto)
    with True Suc.prems joinGroups_hd [OF True, of ip] len show ?thesis
      by (simp add: joinGroups_Cons [OF Suc.prems(1)] parse6_group [OF short] Let_def nth_append groups_Cons [OF Suc.prems(1)])
  next
    case False
    then have b: "b = Suc a" using Suc.prems by simp
    let ?acc' = "acc @ [ip ! (2 * a), ip ! (2 * a + 1)]"
    have g: "groups ip a (Suc a) = [ip ! (2 * a), ip ! (2 * a + 1)]" by (simp add: groups_def)
    show ?thesis
    proof (cases "c < 8")
      case True
      have "parse6_groups ?acc' (Some (length ?acc')) (joinGroups ip [c..<8]) = Some (?acc' @ groups ip c 8, Some (length ?acc'), [])"
        by (rule parse6_joined) (use True Suc.prems b in auto)
      with True b show ?thesis
        using parse6_group [OF short, of "''::'' @ joinGroups ip [c..<8]" None ip a] joinGroups_hd [OF True, of ip]
        by (simp add: joinGroups_single g)
    next
      case False
      then have "c = 8" using Suc.prems by simp
      then show ?thesis
        using parse6_group [OF short, of "''::''" None ip a] b
        by (simp add: joinGroups_single g) (simp add: joinGroups_def groups_def)
    qed
  qed
qed simp

lemma longestZeros_zero:
  "longestZeros ip is best = (start, len) \<Longrightarrow> set is \<subseteq> {0..<8} \<Longrightarrow>
   snd best = 0 \<or> 2 \<le> snd best \<and> fst best + snd best \<le> 8 \<and> (\<forall>i. fst best \<le> i \<and> i < fst best + snd best \<longrightarrow> v6u16 ip i = 0) \<Longrightarrow>
   len = 0 \<or> 2 \<le> len \<and> start + len \<le> 8 \<and> (\<forall>i. start \<le> i \<and> i < start + len \<longrightarrow> v6u16 ip i = 0)"
proof (induction "is" arbitrary: best)
  case (Cons j "is")
  let ?r = "zeroRun ip j"
  have "?r \<le> 8 - j"
    using length_takeWhile_le [of "\<lambda>k. v6u16 ip k = 0" "[j..<8]"] by (simp add: zeroRun_def)
  moreover have "v6u16 ip i = 0" if "j \<le> i" "i < j + ?r" for i
  proof -
    have "i - j < length (takeWhile (\<lambda>k. v6u16 ip k = 0) [j..<8])" using that by (simp add: zeroRun_def)
    from nth_mem [OF this] have "v6u16 ip (takeWhile (\<lambda>k. v6u16 ip k = 0) [j..<8] ! (i - j)) = 0"
      by (auto dest: set_takeWhileD)
    moreover have "takeWhile (\<lambda>k. v6u16 ip k = 0) [j..<8] ! (i - j) = i"
      using that \<open>i - j < _\<close> length_takeWhile_le [of "\<lambda>k. v6u16 ip k = 0" "[j..<8]"] by (simp add: takeWhile_nth)
    ultimately show ?thesis by simp
  qed
  ultimately show ?case
    using Cons by (cases "2 \<le> ?r \<and> snd best < ?r") auto
qed simp

lemma String6_no_percent: "takeWhile (\<lambda>c. c \<noteq> CHR ''%'') (String6 ip) = String6 ip"
  using String6_chars [of "CHR ''%''" ip] by (auto simp: takeWhile_eq_all_conv)

text \<open>The zero groups at the front.\<close>

lemma parseIPv6_leading_zeros:
  assumes s: "String6 ip = ''::'' @ joinGroups ip [n..<8]" and n: "2 \<le> n" "n \<le> 8"
    and parts: "replicate (2 * n) 0 @ groups ip n 8 = ip"
  shows "parseIPv6 (String6 ip) = Some (ip, False)"
proof (cases "n = 8")
  case n8: True
  then have "ip = replicate 16 0" using parts by (simp add: groups_def)
  moreover have "String6 ip = ''::''" using s n8 by (simp add: joinGroups_def)
  ultimately show ?thesis using String6_no_percent [of ip] by (simp add: parseIPv6_def)
next
  case False
  then have n8: "n < 8" using n(2) by simp
  have s': "String6 ip = CHR '':'' # CHR '':'' # joinGroups ip [n..<8]" using s by (simp add: joinGroups_def)
  have "parse6_groups [] (Some 0) (joinGroups ip [n..<8]) = Some (groups ip n 8, Some 0, [])"
    using parse6_joined [OF n8, of "[]" "Some 0" ip] by simp
  moreover have "replicate (16 - length (groups ip n 8)) 0 @ groups ip n 8 = ip"
    using parts n8 right_diff_distrib' [of 2 8 n] by (simp add: length_groups groups_def [of ip 0 0])
  ultimately show ?thesis
    using joinGroups_hd [OF n8, of ip] n8 n(1)
    unfolding parseIPv6_def String6_no_percent by (simp add: s' length_groups)
qed

lemma parseIPv6_String6:
  assumes len: "length ip = 16"
  shows "parseIPv6 (String6 ip) = Some (ip, False)"
proof -
  obtain start n where z: "longestZeros ip [0..<8] (255, 0) = (start, n)" by fastforce
  have zero: "n = 0 \<or> 2 \<le> n \<and> start + n \<le> 8 \<and> (\<forall>i. start \<le> i \<and> i < start + n \<longrightarrow> v6u16 ip i = 0)"
    by (rule longestZeros_zero [OF z]) auto
  show ?thesis
  proof (cases "n = 0")
    case True
    then have s: "String6 ip = joinGroups ip [0..<8]" by (simp add: String6_def z)
    have "take 2 (String6 ip) \<noteq> ''::''"
      using joinGroups_hd [of 0 8 ip] by (cases "joinGroups ip [0..<8]") (auto simp: s)
    moreover have "parse6_groups [] None (String6 ip) = Some (ip, None, [])"
      using parse6_joined [of 0 8 "[]" None ip] by (simp add: s groups_all [OF len])
    ultimately show ?thesis
      by (simp add: parseIPv6_def String6_no_percent len)
  next
    case False
    with zero have n: "2 \<le> n" "start + n \<le> 8" "\<And>i. start \<le> i \<Longrightarrow> i < start + n \<Longrightarrow> v6u16 ip i = 0" by auto
    have s: "String6 ip = joinGroups ip [0..<start] @ ''::'' @ joinGroups ip [start + n..<8]"
      using False by (simp add: String6_def z)
    have zs: "groups ip start (start + n) = replicate (2 * n) 0"
      using groups_zero [of start "start + n" ip] n(3) by simp
    have parts: "groups ip 0 start @ replicate (2 * n) 0 @ groups ip (start + n) 8 = ip"
      using groups_append [of 0 start 8 ip] groups_append [of start "start + n" 8 ip] n(2)
      by (simp add: zs groups_all [OF len])
    show ?thesis
    proof (cases "start = 0")
      case True
      then show ?thesis
        using parseIPv6_leading_zeros [of ip n] s n(1,2) parts by (simp add: joinGroups_def groups_def [of ip 0 0])
    next
      case False
      then have pos: "0 < start" by simp
      have "take 2 (String6 ip) \<noteq> ''::''"
        using joinGroups_hd [OF pos, of ip] s by (cases "joinGroups ip [0..<start]") auto
      moreover have "parse6_groups [] None (String6 ip) = Some (groups ip 0 start @ groups ip (start + n) 8, Some (2 * start), [])"
        using parse6_split [of 0 start "start + n" "[]" ip] pos n s by simp
      moreover have "16 - length (groups ip 0 start @ groups ip (start + n) 8) = 2 * n"
          "length (groups ip 0 start @ groups ip (start + n) 8) < 16"
        using n by (simp_all add: length_groups)
      ultimately show ?thesis
        using parts by (simp add: parseIPv6_def String6_no_percent length_groups)
    qed
  qed
qed

lemma ParseIP_String6:
  assumes "length ip = 16"
  shows "ParseIP (String6 ip) = ip"
proof -
  let ?f = "filter (\<lambda>c. c \<in> {CHR ''.'', CHR '':'', CHR ''%''}) (String6 ip)"
  have colon: "c = CHR '':''" if "c \<in> set ?f" for c
    using that String6_chars [of c ip] by auto
  have "CHR '':'' \<in> set (String6 ip)"
    using joinGroups_Cons [of 0 8 ip] by (cases "longestZeros ip [0..<8] (255, 0)") (simp add: String6_def)
  then obtain c cs where f: "?f = c # cs" by (cases ?f) (auto simp: filter_empty_conv)
  then have "c = CHR '':''" using colon [of c] by simp
  with f show ?thesis
    unfolding ParseIP_def by (simp add: parseIPv6_String6 [OF assms])
qed

lemma ParseIP_IP_String:
  assumes "length ip = 4 \<or> length ip = 16"
  shows "ParseIP (IP_String ip) = To16 ip"
proof (cases "To4 ip = []")
  case True
  then have "length ip = 16" using assms by (auto simp: To4_def)
  with True show ?thesis by (auto simp: IP_String_def To16_def ParseIP_String6)
next
  case False
  then have "length (To4 ip) = 4" using length_To4 by blast
  moreover have "v4InV6Prefix @ To4 ip = To16 ip"
    using False append_take_drop_id [of 12 ip] by (auto simp: To4_def To16_def split: if_splits simp del: append_take_drop_id)
  moreover have "IP_String ip = String4 (To4 ip)"
    using False assms by (auto simp: IP_String_def)
  ultimately show ?thesis by (simp add: ParseIP_String4)
qed

section \<open>netip\<close>

datatype netip_addr = Addr4 "32 word" | Addr6 "128 word"

definition AddrFromSlice :: "bytes \<Rightarrow> netip_addr option" where
  "AddrFromSlice b =
     (if length b = 4 then Some (Addr4 (of_nat (be_get b)))
      else if length b = 16 then Some (Addr6 (of_nat (be_get b)))
      else None)"

text \<open>An IPv4-mapped address (\<open>::ffff:0:0/96\<close>) becomes the IPv4 address.\<close>

definition Unmap :: "netip_addr \<Rightarrow> netip_addr" where
  "Unmap a =
     (case a of Addr4 w \<Rightarrow> Addr4 w
      | Addr6 w \<Rightarrow> if drop_bit 32 w = 0xffff then Addr4 (ucast w) else Addr6 w)"

definition v4 :: "32 word \<Rightarrow> nat \<Rightarrow> byte" where "v4 w i = ucast (drop_bit ((3 - i) * 8) w)"
definition v6 :: "128 word \<Rightarrow> nat \<Rightarrow> byte" where "v6 w i = ucast (drop_bit ((15 - i) * 8) w)"

fun IsLoopback :: "netip_addr \<Rightarrow> bool" where
  "IsLoopback (Addr4 w) \<longleftrightarrow> v4 w 0 = 127"
| "IsLoopback (Addr6 w) \<longleftrightarrow> w = 1"

fun IsPrivate :: "netip_addr \<Rightarrow> bool" where
  "IsPrivate (Addr4 w) \<longleftrightarrow> v4 w 0 = 10 \<or> (v4 w 0 = 172 \<and> v4 w 1 AND 0xf0 = 16) \<or> (v4 w 0 = 192 \<and> v4 w 1 = 168)"
| "IsPrivate (Addr6 w) \<longleftrightarrow> v6 w 0 AND 0xfe = 0xfc"

fun IsLinkLocalUnicast :: "netip_addr \<Rightarrow> bool" where
  "IsLinkLocalUnicast (Addr4 w) \<longleftrightarrow> v4 w 0 = 169 \<and> v4 w 1 = 254"
| "IsLinkLocalUnicast (Addr6 w) \<longleftrightarrow> (ucast (drop_bit 112 w) :: 16 word) AND 0xffc0 = 0xfe80"

fun IsMulticast :: "netip_addr \<Rightarrow> bool" where
  "IsMulticast (Addr4 w) \<longleftrightarrow> v4 w 0 AND 0xf0 = 0xe0"
| "IsMulticast (Addr6 w) \<longleftrightarrow> v6 w 0 = 0xff"

fun IsUnspecified :: "netip_addr \<Rightarrow> bool" where
  "IsUnspecified (Addr4 w) \<longleftrightarrow> w = 0"
| "IsUnspecified (Addr6 w) \<longleftrightarrow> w = 0"

datatype netip_prefix = Prefix (prefix_ip: netip_addr) (prefix_bits: nat)

fun Contains :: "netip_prefix \<Rightarrow> netip_addr \<Rightarrow> bool" where
  "Contains (Prefix (Addr4 p) bits) (Addr4 w) \<longleftrightarrow> drop_bit (32 - bits) (w XOR p) = 0"
| "Contains (Prefix (Addr6 p) bits) (Addr6 w) \<longleftrightarrow> (w XOR p) AND push_bit (128 - bits) (NOT 0) = 0"
| "Contains _ _ \<longleftrightarrow> False"

text \<open>Fields of an address word are intervals of its value.\<close>

lemma drop_bit_eq_iff:
  fixes w :: "'a::len word"
  assumes "n < LENGTH('a)" and "v * 2 ^ n < 2 ^ LENGTH('a)"
  shows "drop_bit n w = of_nat v \<longleftrightarrow> v * 2 ^ n \<le> unat w \<and> unat w < (v + 1) * 2 ^ n"
proof -
  have v: "v < 2 ^ LENGTH('a)"
    using assms(2) by (metis le_less_trans mult.right_neutral mult_le_mono2 one_le_numeral one_le_power)
  have "drop_bit n w = of_nat v \<longleftrightarrow> unat (drop_bit n w) = unat (of_nat v :: 'a word)"
    by (simp add: word_unat_eq_iff)
  also have "unat (drop_bit n w) = unat w div 2 ^ n"
    by (simp only: unat_drop_bit_eq drop_bit_eq_div [where 'a = nat])
  also have "unat (of_nat v :: 'a word) = v"
    using v by (simp add: unsigned_of_nat take_bit_nat_eq_self)
  also have "unat w div 2 ^ n = v \<longleftrightarrow> v * 2 ^ n \<le> unat w \<and> unat w < (v + 1) * 2 ^ n"
  proof -
    have "unat w div 2 ^ n = v \<longleftrightarrow> v \<le> unat w div 2 ^ n \<and> unat w div 2 ^ n < v + 1" by linarith
    then show ?thesis
      by (simp add: less_eq_div_iff_mult_less_eq div_less_iff_less_mult)
  qed
  finally show ?thesis .
qed

end
