(* ===== verification/Wire.thy ===== *)
theory Wire
  imports Go_Io Net_Addr
begin

text \<open>
  The session protocol (\<open>internal/chimera/chimera.go\<close>): the session header and response, the
  address encoding and the target request, each with its writer and its reader.

  The functions take the reader or writer they are called with as an argument, as the code takes
  an \<open>io.Reader\<close> or \<open>io.Writer\<close>. \<open>decodeSession\<close>, \<open>decodeAddress\<close> and \<open>decodeTargetConnect\<close>
  say what the readers compute as functions of the bytes on the wire; the lemmas in the context
  of \<open>byte_source\<close> show that the readers implement them on every reader that keeps the contract,
  however it cuts the bytes into pieces.
\<close>

section \<open>Constants, types, errors\<close>

definition magic :: bytes where "magic = [0x43, 0x48, 0x49, 0x4D]"
definition ProtocolVersion :: byte where "ProtocolVersion = 0x01"
definition StatusOK :: byte where "StatusOK = 0x00"
definition StatusVersionMismatch :: byte where "StatusVersionMismatch = 0x01"
definition StatusDialError :: byte where "StatusDialError = 0x02"
definition CmdConnect :: byte where "CmdConnect = 0x01"
definition CmdUDP :: byte where "CmdUDP = 0x03"
definition AtypIPv4 :: byte where "AtypIPv4 = 0x01"
definition AtypDomain :: byte where "AtypDomain = 0x03"
definition AtypIPv6 :: byte where "AtypIPv6 = 0x04"

lemmas atyp_defs = AtypIPv4_def AtypDomain_def AtypIPv6_def

datatype wire_error =
    WireIo io_error | ErrBadMagic | ErrVersionMismatch | EmptyDomain | DomainTooLong | UnsupportedAtyp

record Address =
  ad_Type :: byte
  ad_IP :: IP
  ad_Domain :: string
  ad_Port :: "16 word"

section \<open>Session header and response\<close>

definition sessionBytes :: "nat \<Rightarrow> byte \<Rightarrow> bytes" where
  "sessionBytes n code = magic @ [ProtocolVersion, code] @ replicate (n - 6) 0"

definition WriteSessionHeader :: "'w writer \<Rightarrow> byte \<Rightarrow> 'w \<Rightarrow> ('w \<times> io_error option) option" where
  "WriteSessionHeader wr flags w =
     Option.bind (wr (sessionBytes 32 flags) w) (\<lambda>(w', n, err). Some (w', err))"

definition WriteSessionResponse :: "'w writer \<Rightarrow> byte \<Rightarrow> 'w \<Rightarrow> ('w \<times> io_error option) option" where
  "WriteSessionResponse wr status w =
     Option.bind (wr (sessionBytes 8 status) w) (\<lambda>(w', n, err). Some (w', err))"

definition checkSession :: "bytes \<Rightarrow> wire_error + byte" where
  "checkSession header =
     (if header ! 0 \<noteq> magic ! 0 \<or> header ! 1 \<noteq> magic ! 1 \<or> header ! 2 \<noteq> magic ! 2 \<or> header ! 3 \<noteq> magic ! 3
      then Inl ErrBadMagic
      else if header ! 4 \<noteq> ProtocolVersion then Inl ErrVersionMismatch
      else Inr (header ! 5))"

definition ReadSessionHeader :: "'r reader \<Rightarrow> 'r \<Rightarrow> ('r \<times> (wire_error + byte)) option" where
  "ReadSessionHeader read r =
     Option.bind (ReadFull read 32 r) (\<lambda>(r', res).
       Some (r', case res of Inl e \<Rightarrow> Inl (WireIo e) | Inr header \<Rightarrow> checkSession header))"

definition ReadSessionResponse :: "'r reader \<Rightarrow> 'r \<Rightarrow> ('r \<times> (wire_error + byte)) option" where
  "ReadSessionResponse read r =
     Option.bind (ReadFull read 8 r) (\<lambda>(r', res).
       Some (r', case res of Inl e \<Rightarrow> Inl (WireIo e) | Inr resp \<Rightarrow> checkSession resp))"

section \<open>Addresses\<close>

definition Address_String :: "Address \<Rightarrow> string" where
  "Address_String a =
     (if ad_Type a = AtypDomain then ad_Domain a @ '':'' @ Itoa (unat (ad_Port a))
      else if ad_Type a = AtypIPv6 then ''['' @ IP_String (ad_IP a) @ '']:'' @ Itoa (unat (ad_Port a))
      else IP_String (ad_IP a) @ '':'' @ Itoa (unat (ad_Port a)))"

definition addressBytes :: "Address \<Rightarrow> wire_error + bytes" where
  "addressBytes addr =
     (let port = PutUint16 (ad_Port addr) in
      if ad_Type addr = AtypIPv4 then Inr ([AtypIPv4] @ To4 (ad_IP addr) @ port)
      else if ad_Type addr = AtypDomain then
        if length (ad_Domain addr) = 0 then Inl EmptyDomain
        else if 255 < length (ad_Domain addr) then Inl DomainTooLong
        else Inr ([AtypDomain, of_nat (length (ad_Domain addr))] @ bytes_of_string (ad_Domain addr) @ port)
      else if ad_Type addr = AtypIPv6 then Inr ([AtypIPv6] @ To16 (ad_IP addr) @ port)
      else Inl UnsupportedAtyp)"

definition WriteAddress :: "'w writer \<Rightarrow> Address \<Rightarrow> 'w \<Rightarrow> ('w \<times> wire_error option) option" where
  "WriteAddress wr addr w =
     (case addressBytes addr of
        Inl e \<Rightarrow> Some (w, Some e)
      | Inr buf \<Rightarrow> Option.bind (wr buf w) (\<lambda>(w', n, err). Some (w', map_option WireIo err)))"

text \<open>A full read followed by the rest of the function: the early return on a read error.\<close>

definition thenFull ::
  "'r reader \<Rightarrow> nat \<Rightarrow> 'r \<Rightarrow> (bytes \<Rightarrow> 'r \<Rightarrow> ('r \<times> (wire_error + 'a)) option) \<Rightarrow> ('r \<times> (wire_error + 'a)) option" where
  "thenFull read n r k =
     Option.bind (ReadFull read n r) (\<lambda>(r', res). case res of Inl e \<Rightarrow> Some (r', Inl (WireIo e)) | Inr bs \<Rightarrow> k bs r')"

definition ReadAddress :: "'r reader \<Rightarrow> 'r \<Rightarrow> ('r \<times> (wire_error + Address)) option" where
  "ReadAddress read r =
     thenFull read 1 r (\<lambda>typeBuf r.
       let addr = \<lparr>ad_Type = typeBuf ! 0, ad_IP = [], ad_Domain = [], ad_Port = 0\<rparr>;
           readPort = (\<lambda>addr r. thenFull read 2 r (\<lambda>portBuf r. Some (r, Inr (addr\<lparr>ad_Port := Uint16 portBuf\<rparr>))))
       in if ad_Type addr = AtypIPv4 then
            thenFull read 4 r (\<lambda>ip r. readPort (addr\<lparr>ad_IP := ip\<rparr>) r)
          else if ad_Type addr = AtypDomain then
            thenFull read 1 r (\<lambda>lenBuf r.
              if lenBuf ! 0 = 0 then Some (r, Inl EmptyDomain)
              else thenFull read (unat (lenBuf ! 0)) r (\<lambda>domain r.
                     readPort (addr\<lparr>ad_Domain := string_of_bytes domain\<rparr>) r))
          else if ad_Type addr = AtypIPv6 then
            thenFull read 16 r (\<lambda>ip r. readPort (addr\<lparr>ad_IP := ip\<rparr>) r)
          else Some (r, Inl UnsupportedAtyp))"

definition WriteTargetConnect :: "'w writer \<Rightarrow> byte \<Rightarrow> Address \<Rightarrow> 'w \<Rightarrow> ('w \<times> wire_error option) option" where
  "WriteTargetConnect wr cmd addr w =
     Option.bind (wr [cmd] w) (\<lambda>(w', n, err).
       case err of Some e \<Rightarrow> Some (w', Some (WireIo e)) | None \<Rightarrow> WriteAddress wr addr w')"

definition ReadTargetConnect :: "'r reader \<Rightarrow> 'r \<Rightarrow> ('r \<times> (wire_error + byte \<times> Address)) option" where
  "ReadTargetConnect read r =
     thenFull read 1 r (\<lambda>cmdBuf r.
       Option.bind (ReadAddress read r) (\<lambda>(r', res).
         Some (r', case res of Inl e \<Rightarrow> Inl e | Inr addr \<Rightarrow> Inr (cmdBuf ! 0, addr))))"

section \<open>What is on the wire\<close>

definition takeFull :: "nat \<Rightarrow> bytes \<Rightarrow> (bytes \<Rightarrow> bytes \<Rightarrow> (wire_error + 'a) \<times> bytes) \<Rightarrow> (wire_error + 'a) \<times> bytes" where
  "takeFull n bs k =
     (case read_outcome n bs of Inl e \<Rightarrow> (Inl (WireIo e), drop n bs) | Inr x \<Rightarrow> k x (drop n bs))"

definition decodeSession :: "nat \<Rightarrow> bytes \<Rightarrow> (wire_error + byte) \<times> bytes" where
  "decodeSession n bs = takeFull n bs (\<lambda>header rest. (checkSession header, rest))"

definition decodeAddress :: "bytes \<Rightarrow> (wire_error + Address) \<times> bytes" where
  "decodeAddress bs =
     takeFull 1 bs (\<lambda>t bs.
       let port = (\<lambda>ip domain bs. takeFull 2 bs (\<lambda>p bs.
             (Inr \<lparr>ad_Type = hd t, ad_IP = ip, ad_Domain = domain, ad_Port = Uint16 p\<rparr>, bs)))
       in if hd t = AtypIPv4 then takeFull 4 bs (\<lambda>ip bs. port ip [] bs)
          else if hd t = AtypDomain then
            takeFull 1 bs (\<lambda>l bs. if hd l = 0 then (Inl EmptyDomain, bs)
              else takeFull (unat (hd l)) bs (\<lambda>d bs. port [] (string_of_bytes d) bs))
          else if hd t = AtypIPv6 then takeFull 16 bs (\<lambda>ip bs. port ip [] bs)
          else (Inl UnsupportedAtyp, bs))"

definition decodeTargetConnect :: "bytes \<Rightarrow> (wire_error + byte \<times> Address) \<times> bytes" where
  "decodeTargetConnect bs =
     takeFull 1 bs (\<lambda>c bs. case decodeAddress bs of
         (Inl e, bs) \<Rightarrow> (Inl e, bs) | (Inr addr, bs) \<Rightarrow> (Inr (hd c, addr), bs))"

lemma hd_conv_nth1: "read_outcome 1 bs = Inr x \<Longrightarrow> x ! 0 = hd x"
  by (cases x) (auto simp: read_outcome_def split: if_splits)

context byte_source
begin

definition implements :: "('r \<times> 'x) option \<Rightarrow> 'x \<times> bytes \<Rightarrow> bool" where
  "implements out spec \<longleftrightarrow> (\<exists>r'. out = Some (r', fst spec) \<and> content r' = snd spec \<and> readable r')"

lemma implements_Some: "content r = bs \<Longrightarrow> readable r \<Longrightarrow> implements (Some (r, x)) (x, bs)"
  by (simp add: implements_def)

lemma implements_thenFull:
  assumes "readable r" and bs: "content r = bs"
    and k: "\<And>x r'. read_outcome n bs = Inr x \<Longrightarrow> content r' = drop n bs \<Longrightarrow> readable r'
      \<Longrightarrow> implements (k x r') (k' x (drop n bs))"
  shows "implements (thenFull read n r k) (takeFull n bs k')"
proof -
  obtain r' where r': "ReadFull read n r = Some (r', read_outcome n bs)" "content r' = drop n bs" "readable r'"
    using ReadFull_outcome [OF assms(1)] bs by blast
  show ?thesis
  proof (cases "read_outcome n bs")
    case (Inl e)
    with r' show ?thesis by (simp add: thenFull_def takeFull_def implements_def)
  next
    case (Inr x)
    with r' k [OF Inr r'(2,3)] show ?thesis by (simp add: thenFull_def takeFull_def)
  qed
qed

lemma implements_session:
  "readable r \<Longrightarrow> implements (ReadSessionHeader read r) (decodeSession 32 (content r))"
  "readable r \<Longrightarrow> implements (ReadSessionResponse read r) (decodeSession 8 (content r))"
proof -
  assume r: "readable r"
  have "ReadSessionHeader read r = thenFull read 32 r (\<lambda>header r. Some (r, checkSession header))"
    unfolding ReadSessionHeader_def thenFull_def
    by (intro arg_cong [where f = "Option.bind (ReadFull read 32 r)"] ext) (auto split: sum.split)
  then show "implements (ReadSessionHeader read r) (decodeSession 32 (content r))"
    by (simp only: decodeSession_def) (rule implements_thenFull [OF r refl], rule implements_Some)
  have "ReadSessionResponse read r = thenFull read 8 r (\<lambda>header r. Some (r, checkSession header))"
    unfolding ReadSessionResponse_def thenFull_def
    by (intro arg_cong [where f = "Option.bind (ReadFull read 8 r)"] ext) (auto split: sum.split)
  then show "implements (ReadSessionResponse read r) (decodeSession 8 (content r))"
    by (simp only: decodeSession_def) (rule implements_thenFull [OF r refl], rule implements_Some)
qed

lemma implements_address:
  assumes "readable r"
  shows "implements (ReadAddress read r) (decodeAddress (content r))"
  unfolding ReadAddress_def decodeAddress_def Let_def
proof (rule implements_thenFull [OF assms refl], goal_cases)
  case (1 t r1)
  then show ?case
    by (auto simp: hd_conv_nth1 intro!: implements_thenFull implements_Some)
qed

lemma implements_target:
  assumes "readable r"
  shows "implements (ReadTargetConnect read r) (decodeTargetConnect (content r))"
  unfolding ReadTargetConnect_def decodeTargetConnect_def
proof (rule implements_thenFull [OF assms refl], goal_cases)
  case (1 c r1)
  then have "implements (ReadAddress read r1) (decodeAddress (drop 1 (content r)))"
    using implements_address [of r1] by simp
  with 1 show ?case
    by (auto simp: implements_def hd_conv_nth1 split: sum.split prod.split)
qed

end

context byte_sink
begin

lemma WriteSession_sent:
  "writable w \<Longrightarrow> WriteSessionHeader wr flags w = Some (w', None) \<Longrightarrow> sent w' = sent w @ sessionBytes 32 flags \<and> writable w'"
  "writable w \<Longrightarrow> WriteSessionResponse wr status w = Some (w', None) \<Longrightarrow> sent w' = sent w @ sessionBytes 8 status \<and> writable w'"
  by (auto simp: WriteSessionHeader_def WriteSessionResponse_def bind_eq_Some_conv dest: write_ok)

lemma WriteAddress_sent:
  assumes "writable w" and "WriteAddress wr addr w = Some (w', None)"
  shows "\<exists>buf. addressBytes addr = Inr buf \<and> sent w' = sent w @ buf \<and> writable w'"
  using assms by (auto simp: WriteAddress_def bind_eq_Some_conv split: sum.splits dest: write_ok)

lemma WriteTargetConnect_sent:
  assumes w: "writable w" and wr: "WriteTargetConnect wr cmd addr w = Some (w', None)"
  shows "\<exists>buf. addressBytes addr = Inr buf \<and> sent w' = sent w @ [cmd] @ buf \<and> writable w'"
proof -
  obtain w1 n where step: "wr [cmd] w = Some (w1, n, None)" and addr: "WriteAddress wr addr w1 = Some (w', None)"
    using wr by (auto simp: WriteTargetConnect_def bind_eq_Some_conv split: option.splits)
  from write_ok [OF w step] WriteAddress_sent [OF _ addr] show ?thesis by auto
qed

end

text \<open>What every single read keeps, the readers keep.\<close>

lemma thenFull_rel:
  assumes run: "thenFull rd n r k = Some (r', res)"
    and laws: "\<And>k c c' bs err. rd k c = Some (c', bs, err) \<Longrightarrow> R c c'" "\<And>c. R c c" "\<And>a b c. R a b \<Longrightarrow> R b c \<Longrightarrow> R a c"
    and k: "\<And>x r1 r' res. k x r1 = Some (r', res) \<Longrightarrow> R r1 r'"
  shows "R r r'"
proof -
  from run obtain r1 out where r1: "ReadFull rd n r = Some (r1, out)"
    and out: "(case out of Inl e \<Rightarrow> Some (r1, Inl (WireIo e)) | Inr bs \<Rightarrow> k bs r1) = Some (r', res)"
    by (auto simp: thenFull_def bind_eq_Some_conv)
  have "R r r1" by (rule ReadFull_rel [OF laws r1])
  then show ?thesis using out k laws(3) by (cases out) auto
qed

lemma readers_rel:
  assumes laws: "\<And>k c c' bs err. rd k c = Some (c', bs, err) \<Longrightarrow> R c c'" "\<And>c. R c c" "\<And>a b c. R a b \<Longrightarrow> R b c \<Longrightarrow> R a c"
  shows "ReadSessionHeader rd r = Some (r', h) \<Longrightarrow> R r r'" and "ReadSessionResponse rd r = Some (r', h) \<Longrightarrow> R r r'"
    and "ReadAddress rd r = Some (r', a) \<Longrightarrow> R r r'" and "ReadTargetConnect rd r = Some (r', ta) \<Longrightarrow> R r r'"
proof -
  show "ReadSessionHeader rd r = Some (r', h) \<Longrightarrow> R r r'" "ReadSessionResponse rd r = Some (r', h) \<Longrightarrow> R r r'"
    by (auto simp: ReadSessionHeader_def ReadSessionResponse_def bind_eq_Some_conv intro: ReadFull_rel [of rd R, OF laws])
  show addr: "ReadAddress rd r = Some (r', a) \<Longrightarrow> R r r'" for r r' a
    unfolding ReadAddress_def Let_def
    by (erule thenFull_rel [where R = R], erule laws(1), rule laws(2), erule laws(3), assumption)
       (auto split: if_splits elim!: thenFull_rel [where R = R] intro: laws)
  show "ReadTargetConnect rd r = Some (r', ta) \<Longrightarrow> R r r'"
    unfolding ReadTargetConnect_def
    by (erule thenFull_rel [where R = R], erule laws(1), rule laws(2), erule laws(3), assumption)
       (auto simp: bind_eq_Some_conv intro: addr)
qed

section \<open>The encodings are inverse to the decodings\<close>

lemma takeFull_append: "length x = n \<Longrightarrow> takeFull n (x @ rest) k = k x rest"
  by (simp add: takeFull_def read_outcome_def)

lemma takeFull_Cons: "takeFull 1 (b # rest) k = k [b] rest" "takeFull (Suc 0) (b # rest) k = k [b] rest"
  by (simp_all add: takeFull_def read_outcome_def)

lemma decodeSession_sessionBytes:
  assumes "6 \<le> n"
  shows "decodeSession n (sessionBytes n code @ rest) = (Inr code, rest)"
proof -
  have "length (sessionBytes n code) = n"
    using assms by (simp add: sessionBytes_def magic_def)
  then show ?thesis
    by (simp add: decodeSession_def takeFull_append) (simp add: checkSession_def sessionBytes_def magic_def ProtocolVersion_def)
qed

text \<open>The addresses that the encoding can carry, and what arrives of them: the IP address in the
  form that the type asks for, and nothing of the fields the type does not use.\<close>

definition address_ok :: "Address \<Rightarrow> bool" where
  "address_ok a \<longleftrightarrow>
     (ad_Type a = AtypIPv4 \<and> To4 (ad_IP a) \<noteq> []) \<or> (ad_Type a = AtypIPv6 \<and> To16 (ad_IP a) \<noteq> [])
     \<or> (ad_Type a = AtypDomain \<and> ad_Domain a \<noteq> [] \<and> length (ad_Domain a) \<le> 255)"

definition wire_form :: "Address \<Rightarrow> Address" where
  "wire_form a = \<lparr>ad_Type = ad_Type a,
     ad_IP = (if ad_Type a = AtypIPv4 then To4 (ad_IP a) else if ad_Type a = AtypIPv6 then To16 (ad_IP a) else []),
     ad_Domain = (if ad_Type a = AtypDomain then ad_Domain a else []), ad_Port = ad_Port a\<rparr>"

lemma address_ok_bytes: "address_ok a \<Longrightarrow> \<exists>buf. addressBytes a = Inr buf"
  by (auto simp: address_ok_def addressBytes_def atyp_defs Let_def)

lemma decodeAddress_addressBytes:
  assumes ok: "address_ok a" and buf: "addressBytes a = Inr buf"
  shows "decodeAddress (buf @ rest) = (Inr (wire_form a), rest)"
proof -
  consider (v4) "ad_Type a = AtypIPv4" "To4 (ad_IP a) \<noteq> []"
    | (v6) "ad_Type a = AtypIPv6" "To16 (ad_IP a) \<noteq> []"
    | (dom) "ad_Type a = AtypDomain" "ad_Domain a \<noteq> []" "length (ad_Domain a) \<le> 255"
    using ok by (auto simp: address_ok_def)
  then show ?thesis
  proof cases
    case v4
    then have "length (To4 (ad_IP a)) = 4" using length_To4 by blast
    with v4 buf show ?thesis
      by (auto simp: addressBytes_def decodeAddress_def atyp_defs wire_form_def takeFull_Cons takeFull_append Let_def)
  next
    case v6
    then have "length (To16 (ad_IP a)) = 16" using length_To16 by blast
    with v6 buf show ?thesis
      by (auto simp: addressBytes_def decodeAddress_def atyp_defs wire_form_def takeFull_Cons takeFull_append Let_def)
  next
    case dom
    let ?n = "length (ad_Domain a)"
    have n: "unat (of_nat ?n :: byte) = ?n"
      using dom(3) by (simp add: unsigned_of_nat take_bit_nat_eq_self)
    moreover have "(of_nat ?n :: byte) \<noteq> 0"
      using n dom(2) by (metis length_0_conv unsigned_0)
    ultimately show ?thesis
      using dom buf
      by (auto simp: addressBytes_def decodeAddress_def atyp_defs wire_form_def takeFull_Cons takeFull_append Let_def)
  qed
qed

text \<open>Conversely an address that was read has exactly one encoding, the bytes it was read from.\<close>

lemma takeFull_Inr:
  "takeFull n bs k = (Inr v, rest) \<longleftrightarrow> (\<exists>x bs'. bs = x @ bs' \<and> length x = n \<and> k x bs' = (Inr v, rest))"
proof
  assume "takeFull n bs k = (Inr v, rest)"
  then show "\<exists>x bs'. bs = x @ bs' \<and> length x = n \<and> k x bs' = (Inr v, rest)"
    by (intro exI [of _ "take n bs"] exI [of _ "drop n bs"])
       (auto simp: takeFull_def read_outcome_def split: if_splits)
next
  assume "\<exists>x bs'. bs = x @ bs' \<and> length x = n \<and> k x bs' = (Inr v, rest)"
  then show "takeFull n bs k = (Inr v, rest)" by (auto simp: takeFull_append)
qed

lemma decodeAddress_canonical:
  assumes "decodeAddress bs = (Inr a, rest)"
  shows "address_ok a \<and> wire_form a = a \<and> (\<exists>buf. addressBytes a = Inr buf \<and> bs = buf @ rest)"
proof -
  obtain t bs1 where bs: "bs = t # bs1"
    using assms by (cases bs) (auto simp: decodeAddress_def takeFull_def read_outcome_def)
  have l: "0 < unat l \<and> unat l \<le> 255" if "l \<noteq> 0" for l :: byte
    using that unat_byte_less [of l] by (simp add: unat_gt_0)
  note unfolded = assms [unfolded bs decodeAddress_def takeFull_Cons Let_def list.sel]
  consider (v4) "t = AtypIPv4" | (v6) "t = AtypIPv6" | (dom) "t = AtypDomain"
    using unfolded by (auto split: if_splits)
  then show ?thesis
  proof cases
    case v4
    then obtain ip p where "bs1 = ip @ p @ rest" "length ip = 4" "length p = 2"
        "a = \<lparr>ad_Type = t, ad_IP = ip, ad_Domain = [], ad_Port = Uint16 p\<rparr>"
      using unfolded by (auto simp: takeFull_Inr atyp_defs)
    with v4 show ?thesis
      by (auto simp: bs address_ok_def wire_form_def addressBytes_def atyp_defs To4_def PutUint16_Uint16 Let_def)
  next
    case v6
    then obtain ip p where "bs1 = ip @ p @ rest" "length ip = 16" "length p = 2"
        "a = \<lparr>ad_Type = t, ad_IP = ip, ad_Domain = [], ad_Port = Uint16 p\<rparr>"
      using unfolded by (auto simp: takeFull_Inr atyp_defs)
    with v6 show ?thesis
      by (auto simp: bs address_ok_def wire_form_def addressBytes_def atyp_defs To16_def PutUint16_Uint16 Let_def)
  next
    case dom
    then obtain l bs2 where bs1: "bs1 = l # bs2" "l \<noteq> 0"
      using unfolded by (cases bs1) (auto simp: takeFull_def read_outcome_def atyp_defs split: if_splits)
    then obtain d p where d: "bs2 = d @ p @ rest" "length d = unat l" "length p = 2"
        "a = \<lparr>ad_Type = t, ad_IP = [], ad_Domain = string_of_bytes d, ad_Port = Uint16 p\<rparr>"
      using unfolded dom by (auto simp: takeFull_Inr takeFull_Cons atyp_defs)
    moreover have "string_of_bytes d \<noteq> []"
      using d(2) l [OF bs1(2)] by (auto simp: string_of_bytes_def)
    ultimately show ?thesis
      using dom bs1 l [OF bs1(2)]
      by (auto simp: bs address_ok_def wire_form_def addressBytes_def atyp_defs PutUint16_Uint16 Let_def)
  qed
qed

section \<open>Properties\<close>

text \<open>The session handshake accepts a peer only after 32 bytes that start with the
  magic and the protocol version, whatever the pieces in which they arrive: a shorter stream is
  an I/O error (a clean end of file only when there is no byte at all), other bytes are a bad
  magic or a version mismatch, and what follows the header is left in the stream.\<close>

theorem ReadSessionHeader_spec:
  assumes "stream_readable s"
  shows "\<exists>s'. ReadSessionHeader stream_read s = Some (s',
      let bs = stream_content s in
      if length bs < 32 then Inl (WireIo (if bs = [] then EOF else UnexpectedEOF))
      else if take 4 bs \<noteq> [0x43, 0x48, 0x49, 0x4D] then Inl ErrBadMagic
      else if bs ! 4 \<noteq> 1 then Inl ErrVersionMismatch
      else Inr (bs ! 5))
    \<and> stream_content s' = drop 32 (stream_content s)"
proof -
  let ?bs = "stream_content s"
  have take4: "take 4 ?bs = [?bs ! 0, ?bs ! 1, ?bs ! 2, ?bs ! 3]" if "32 \<le> length ?bs"
    using that by (auto simp: list_eq_iff_nth_eq less_Suc_eq numeral_eq_Suc)
  have "decodeSession 32 ?bs = ((if length ?bs < 32 then Inl (WireIo (if ?bs = [] then EOF else UnexpectedEOF))
      else if take 4 ?bs \<noteq> [0x43, 0x48, 0x49, 0x4D] then Inl ErrBadMagic
      else if ?bs ! 4 \<noteq> 1 then Inl ErrVersionMismatch
      else Inr (?bs ! 5)), drop 32 ?bs)"
    using take4
    by (auto simp: decodeSession_def takeFull_def read_outcome_def checkSession_def magic_def ProtocolVersion_def)
  then show ?thesis
    using stream_in.implements_session(1) [OF assms] by (simp only: stream_in.implements_def Let_def) auto
qed

theorem ReadSessionHeader_spec_witness:
  "\<exists>s'. ReadSessionHeader stream_read \<lparr>st_segments = [[0x43, 0x48], [0x49, 0x4D, 1, 7] @ replicate 26 0, [9]], st_sent = [], st_room = None\<rparr>
     = Some (s', Inr 7) \<and> stream_content s' = [9]"
  using ReadSessionHeader_spec [of "\<lparr>st_segments = [[0x43, 0x48], [0x49, 0x4D, 1, 7] @ replicate 26 0, [9]], st_sent = [], st_room = None\<rparr>"]
  by (simp add: stream_readable_def stream_content_def Let_def)

text \<open>C19 (roundtrip). The address encoding is canonical: an address that is read is well-formed and
  encodes to exactly the bytes it was read from, so no two byte sequences mean the same target.\<close>

theorem ReadAddress_canonical:
  assumes "stream_readable s" and "ReadAddress stream_read s = Some (s', Inr a)"
  shows "address_ok a \<and> (\<exists>buf. addressBytes a = Inr buf \<and> stream_content s = buf @ stream_content s')"
proof -
  have "decodeAddress (stream_content s) = (Inr a, stream_content s')"
    using stream_in.implements_address [OF assms(1)] assms(2)
    by (auto simp: stream_in.implements_def prod_eq_iff)
  from decodeAddress_canonical [OF this] show ?thesis by blast
qed

definition ex_stream :: stream where
  "ex_stream = \<lparr>st_segments = [[3, 2], [0x61, 0x62, 0, 80], [9]], st_sent = [], st_room = None\<rparr>"

definition ex_address :: Address where
  "ex_address = \<lparr>ad_Type = 3, ad_IP = [], ad_Domain = ''ab'', ad_Port = 80\<rparr>"

lemma ex_ReadAddress: "\<exists>s'. ReadAddress stream_read ex_stream = Some (s', Inr ex_address)"
proof -
  have "decodeAddress (stream_content ex_stream) = (Inr ex_address, [9])"
    by code_simp
  then show ?thesis
    using stream_in.implements_address [of ex_stream]
    by (auto simp: stream_in.implements_def ex_stream_def stream_readable_def)
qed

theorem ReadAddress_canonical_witness:
  "address_ok ex_address \<and> (\<exists>buf. addressBytes ex_address = Inr buf)"
proof -
  obtain s' where "ReadAddress stream_read ex_stream = Some (s', Inr ex_address)"
    using ex_ReadAddress by blast
  then show ?thesis
    using ReadAddress_canonical [of ex_stream s' ex_address] by (auto simp: ex_stream_def stream_readable_def)
qed

text \<open>\<open>WriteAddress\<close> does not check an IPv4 address: one that is not an IPv4
  address (an IPv6 address, or none) is written without its four bytes and without an error, so
  the reader takes the port and the first two bytes of what follows for the address.\<close>

theorem WriteAddress_IPv4_truncated:
  assumes "ad_Type a = AtypIPv4" and "To4 (ad_IP a) = []" and "st_room w = None"
  shows "WriteAddress stream_write a w = Some (w\<lparr>st_sent := st_sent w @ [AtypIPv4] @ PutUint16 (ad_Port a)\<rparr>, None)"
  using assms by (simp add: WriteAddress_def addressBytes_def stream_write_def)

lemma PutUint16_443: "PutUint16 443 = [1, 187]" "To4 (replicate 16 0) = []"
  by code_simp+

theorem WriteAddress_IPv4_truncated_witness:
  "map_option (st_sent \<circ> fst) (WriteAddress stream_write \<lparr>ad_Type = 1, ad_IP = replicate 16 0, ad_Domain = [], ad_Port = 443\<rparr>
     \<lparr>st_segments = [], st_sent = [], st_room = None\<rparr>) = Some [1, 1, 187]"
  using WriteAddress_IPv4_truncated [of "\<lparr>ad_Type = 1, ad_IP = replicate 16 0, ad_Domain = [], ad_Port = 443\<rparr>"
      "\<lparr>st_segments = [], st_sent = [], st_room = None\<rparr>"]
  by (simp add: AtypIPv4_def PutUint16_443)

end
