(* ===== verification/Guard.thy ===== *)
theory Guard
  imports Wire
begin

unbundle bit_operations_syntax

text \<open>
  The target guard (\<open>internal/chimera/guard.go\<close>): which addresses the server refuses to dial, and
  the resolution of a CONNECT authority to an address that was checked.

  The DNS lookup is an argument, as the code's \<open>LookupIPFunc\<close>. \<open>forbidden4\<close> and \<open>forbidden6\<close>
  list the refused address blocks as intervals; the lemmas show that the byte tests of the code
  are membership in them.
\<close>

section \<open>The guard\<close>

definition ip4 :: "nat \<Rightarrow> nat \<Rightarrow> nat \<Rightarrow> nat \<Rightarrow> 32 word" where
  "ip4 a b c d = of_nat (((a * 256 + b) * 256 + c) * 256 + d)"

definition forbiddenPrefixes :: "netip_prefix list" where
  "forbiddenPrefixes =
     [Prefix (Addr4 (ip4 0 0 0 0)) 8,
      Prefix (Addr4 (ip4 100 64 0 0)) 10,
      Prefix (Addr4 (ip4 192 0 0 0)) 24,
      Prefix (Addr4 (ip4 192 0 2 0)) 24,
      Prefix (Addr4 (ip4 198 18 0 0)) 15,
      Prefix (Addr4 (ip4 198 51 100 0)) 24,
      Prefix (Addr4 (ip4 203 0 113 0)) 24,
      Prefix (Addr4 (ip4 240 0 0 0)) 4,
      Prefix (Addr6 (push_bit 96 0x20010db8)) 32]"

definition IsForbiddenIP :: "IP \<Rightarrow> bool" where
  "IsForbiddenIP ip =
     (if ip = [] then True
      else case AddrFromSlice ip of
          None \<Rightarrow> True
        | Some a \<Rightarrow>
            let addr = Unmap a in
            if IsLoopback addr \<or> IsPrivate addr \<or> IsLinkLocalUnicast addr \<or> IsMulticast addr \<or> IsUnspecified addr
            then True
            else list_ex (\<lambda>prefix. Contains prefix addr) forbiddenPrefixes)"

definition IsForbiddenTarget :: "Address \<Rightarrow> bool" where
  "IsForbiddenTarget addr =
     (if ad_Type addr = AtypDomain then False
      else if ad_Type addr = AtypIPv4 then list_ex IsForbiddenIP [To4 (ad_IP addr)]
      else if ad_Type addr = AtypIPv6 then list_ex IsForbiddenIP [To16 (ad_IP addr)]
      else False)"

datatype guard_error = InvalidAuthority | InvalidPort | ResolutionFailed | ForbiddenAddress

type_synonym lookup = "string \<Rightarrow> IP list option"

text \<open>\<open>LookupIPFunc\<close>: \<open>None\<close> is an error of the resolver.\<close>

definition ResolveAndValidateAuthority :: "lookup \<Rightarrow> string \<Rightarrow> guard_error + string" where
  "ResolveAndValidateAuthority lookup authority =
     (case SplitHostPort (TrimSpace authority) of
        Inl _ \<Rightarrow> Inl InvalidAuthority
      | Inr (host, portText) \<Rightarrow>
          if host = [] then Inl InvalidAuthority
          else case ParseUint10 16 portText of
              None \<Rightarrow> Inl InvalidPort
            | Some port \<Rightarrow>
                if port = 0 then Inl InvalidPort
                else
                  let found = (let ip = ParseIP host in
                               if ip \<noteq> [] then Some [ip]
                               else case lookup host of None \<Rightarrow> None | Some ips \<Rightarrow> if ips = [] then None else Some ips)
                  in case found of
                       None \<Rightarrow> Inl ResolutionFailed
                     | Some ips \<Rightarrow>
                         if list_ex IsForbiddenIP ips then Inl ForbiddenAddress
                         else Inr (JoinHostPort (IP_String (ips ! 0)) (Itoa port)))"

section \<open>Byte tests as intervals\<close>

lemma unat32_less: "unat (w :: 32 word) < 2 ^ 32"
  using unsigned_less [of w] by simp

lemma unat128_less: "unat (w :: 128 word) < 2 ^ 128"
  using unsigned_less [of w] by simp

lemma unat_v4: "unat (v4 w i) = unat w div 2 ^ ((3 - i) * 8) mod 256"
  by (simp add: v4_def unsigned_ucast_eq unat_drop_bit_eq drop_bit_eq_div [where 'a = nat] take_bit_eq_mod)

lemma unat_v6: "unat (v6 w i) = unat w div 2 ^ ((15 - i) * 8) mod 256"
  by (simp add: v6_def unsigned_ucast_eq unat_drop_bit_eq drop_bit_eq_div [where 'a = nat] take_bit_eq_mod)

lemma byte_eq_iff: "b = of_nat k \<longleftrightarrow> unat b = k" if "k < 256" for b :: byte
  using that by (auto simp: unsigned_of_nat take_bit_nat_eq_self word_unat_eq_iff)

lemma high_bits_iff:
  fixes b :: "'a::len word"
  assumes "k * 2 ^ n < 2 ^ LENGTH('a)"
  shows "b AND push_bit n (NOT 0) = of_nat (k * 2 ^ n) \<longleftrightarrow> unat b div 2 ^ n = k"
proof -
  have "b AND push_bit n (NOT 0) = push_bit n (drop_bit n b)"
    by (rule bit_word_eqI) (auto simp: bit_simps)
  moreover have "unat (push_bit n (drop_bit n b)) = unat b div 2 ^ n * 2 ^ n"
  proof -
    have "unat b div 2 ^ n * 2 ^ n < 2 ^ LENGTH('a)"
      using unsigned_less [of b, where 'a = nat] by (meson div_times_less_eq_dividend le_less_trans)
    then show ?thesis
      by (simp only: unsigned_push_bit_eq unat_drop_bit_eq push_bit_eq_mult [where 'a = nat] drop_bit_eq_div [where 'a = nat] take_bit_nat_eq_self)
  qed
  moreover have "unat (of_nat (k * 2 ^ n) :: 'a word) = k * 2 ^ n"
    using assms by (simp only: unsigned_of_nat take_bit_nat_eq_self of_nat_id)
  ultimately show ?thesis
    by (simp only: word_unat_eq_iff [where 'a = 'a]) simp
qed

lemma Contains4_iff:
  assumes "bits \<le> 32" and "0 < bits"
  shows "Contains (Prefix (Addr4 p) bits) (Addr4 w) \<longleftrightarrow> unat w div 2 ^ (32 - bits) = unat p div 2 ^ (32 - bits)"
proof -
  have "drop_bit n (w XOR p) = 0 \<longleftrightarrow> drop_bit n w = drop_bit n p" for n
    by (simp add: bit_eq_iff bit_simps)
  also have "drop_bit n w = drop_bit n p \<longleftrightarrow> unat w div 2 ^ n = unat p div 2 ^ n" for n
    by (simp only: word_unat_eq_iff unat_drop_bit_eq drop_bit_eq_div [where 'a = nat])
  finally show ?thesis by simp
qed

lemma Contains6_iff:
  "Contains (Prefix (Addr6 p) bits) (Addr6 w) \<longleftrightarrow> unat w div 2 ^ (128 - bits) = unat p div 2 ^ (128 - bits)"
proof -
  have "(w XOR p) AND push_bit n (NOT 0) = 0 \<longleftrightarrow> drop_bit n w = drop_bit n p" for n
  proof
    assume "(w XOR p) AND push_bit n (NOT 0) = 0"
    then have z: "\<not> bit ((w XOR p) AND push_bit n (NOT 0)) i" for i by simp
    show "drop_bit n w = drop_bit n p"
    proof (rule bit_word_eqI)
      fix i assume "i < LENGTH(128)"
      from z [of "n + i"] show "bit (drop_bit n w) i = bit (drop_bit n p) i"
        by (auto simp: bit_simps dest: bit_imp_le_length)
    qed
  next
    assume eq: "drop_bit n w = drop_bit n p"
    show "(w XOR p) AND push_bit n (NOT 0) = 0"
    proof (rule bit_word_eqI)
      fix i
      have "bit (drop_bit n w) (i - n) = bit (drop_bit n p) (i - n)" using eq by simp
      then show "bit ((w XOR p) AND push_bit n (NOT 0)) i = bit 0 i"
        by (auto simp: bit_simps)
    qed
  qed
  also have "drop_bit n w = drop_bit n p \<longleftrightarrow> unat w div 2 ^ n = unat p div 2 ^ n" for n
    by (simp only: word_unat_eq_iff unat_drop_bit_eq drop_bit_eq_div [where 'a = nat])
  finally show ?thesis by simp
qed

text \<open>IPv4: the tests on the value \<open>n\<close> of the address.\<close>

lemma v4_pair: "n < 2 ^ 32 \<Longrightarrow> n div 16777216 mod 256 = (n :: nat) div 65536 div 256"
proof -
  assume "n < 2 ^ 32"
  then have "n div 16777216 < 256" by (simp add: div_less_iff_less_mult)
  then show ?thesis by (simp add: div_mult2_eq [of n 65536 256, simplified])
qed

lemma f0_mask: "b AND 0xf0 = 16 \<longleftrightarrow> unat b div 16 = 1" "b AND 0xf0 = 0xe0 \<longleftrightarrow> unat b div 16 = 14" for b :: byte
proof -
  have "(0xf0 :: byte) = push_bit 4 (NOT 0)" by code_simp
  then show "b AND 0xf0 = 16 \<longleftrightarrow> unat b div 16 = 1" "b AND 0xf0 = 0xe0 \<longleftrightarrow> unat b div 16 = 14"
    using high_bits_iff [of 1 4 b] high_bits_iff [of 14 4 b] by simp_all
qed

lemma div_mod_pair: "b < k \<Longrightarrow> x div k = a \<and> x mod k = b \<longleftrightarrow> x = a * k + b" for x :: nat
  by auto

lemma preds4:
  fixes w :: "32 word"
  defines "n \<equiv> unat w"
  shows "IsLoopback (Addr4 w) \<longleftrightarrow> n div 2 ^ 24 = 127"
    and "IsPrivate (Addr4 w) \<longleftrightarrow> n div 2 ^ 24 = 10 \<or> n div 2 ^ 20 = 2753 \<or> n div 2 ^ 16 = 49320"
    and "IsLinkLocalUnicast (Addr4 w) \<longleftrightarrow> n div 2 ^ 16 = 43518"
    and "IsMulticast (Addr4 w) \<longleftrightarrow> n div 2 ^ 28 = 14"
    and "IsUnspecified (Addr4 w) \<longleftrightarrow> n = 0"
proof -
  have n: "n < 2 ^ 32" by (simp add: n_def unat32_less [simplified])
  define x where "x = n div 65536"
  have b0: "unat (v4 w 0) = x div 256" and b1: "unat (v4 w 1) = x mod 256"
    using v4_pair [OF n] by (simp_all add: unat_v4 n_def [symmetric] x_def)
  have d24: "n div 2 ^ 24 = x div 256" and d20: "n div 2 ^ 20 = x div 16" and d28: "n div 2 ^ 28 = x div 256 div 16" and d16: "n div 2 ^ 16 = x"
    by (simp_all add: x_def div_mult2_eq [symmetric])
  have eqs: "v4 w 0 = k \<longleftrightarrow> x div 256 = unat k" "v4 w 1 = k \<longleftrightarrow> x mod 256 = unat k" for k
    by (simp_all only: word_unat_eq_iff b0 b1)
  show "IsLoopback (Addr4 w) \<longleftrightarrow> n div 2 ^ 24 = 127"
    unfolding d24 by (simp add: eqs)
  have "x div 256 = 172 \<and> x mod 256 div 16 = 1 \<longleftrightarrow> x div 16 = 2753"
  proof -
    have "x mod 256 div 16 = x div 16 mod 16"
      using mod_mult2_eq [of x 16 16] by simp
    moreover have "x div 256 = x div 16 div 16"
      using div_mult2_eq [of x 16 16] by simp
    ultimately show ?thesis using div_mod_pair [of 1 16 "x div 16" 172] by simp
  qed
  moreover have "x div 256 = 192 \<and> x mod 256 = 168 \<longleftrightarrow> x = 49320"
    using div_mod_pair [of 168 256 x 192] by simp
  ultimately show "IsPrivate (Addr4 w) \<longleftrightarrow> n div 2 ^ 24 = 10 \<or> n div 2 ^ 20 = 2753 \<or> n div 2 ^ 16 = 49320"
    unfolding d24 d20 d16 by (simp add: eqs f0_mask b1 eqs [unfolded One_nat_def] b1 [unfolded One_nat_def])
  have "x div 256 = 169 \<and> x mod 256 = 254 \<longleftrightarrow> x = 43518"
    using div_mod_pair [of 254 256 x 169] by simp
  then show "IsLinkLocalUnicast (Addr4 w) \<longleftrightarrow> n div 2 ^ 16 = 43518"
    unfolding d16 by (simp add: eqs eqs [unfolded One_nat_def])
  show "IsMulticast (Addr4 w) \<longleftrightarrow> n div 2 ^ 28 = 14"
    unfolding d28 by (simp add: f0_mask b0)
  show "IsUnspecified (Addr4 w) \<longleftrightarrow> n = 0"
    by (simp add: n_def unsigned_eq_0_iff)
qed

text \<open>The refused blocks.\<close>

definition quad :: "nat \<Rightarrow> nat \<Rightarrow> nat \<Rightarrow> nat \<Rightarrow> nat" where
  "quad a b c d = ((a * 256 + b) * 256 + c) * 256 + d"

definition forbidden4 :: "(nat \<times> nat) list" where
  "forbidden4 =
     [(quad 0 0 0 0, quad 0 255 255 255), (quad 10 0 0 0, quad 10 255 255 255),
      (quad 100 64 0 0, quad 100 127 255 255), (quad 127 0 0 0, quad 127 255 255 255),
      (quad 169 254 0 0, quad 169 254 255 255), (quad 172 16 0 0, quad 172 31 255 255),
      (quad 192 0 0 0, quad 192 0 0 255), (quad 192 0 2 0, quad 192 0 2 255),
      (quad 192 168 0 0, quad 192 168 255 255), (quad 198 18 0 0, quad 198 19 255 255),
      (quad 198 51 100 0, quad 198 51 100 255), (quad 203 0 113 0, quad 203 0 113 255),
      (quad 224 0 0 0, quad 239 255 255 255), (quad 240 0 0 0, quad 255 255 255 255)]"

definition in_blocks :: "(nat \<times> nat) list \<Rightarrow> nat \<Rightarrow> bool" where
  "in_blocks blocks n \<longleftrightarrow> list_ex (\<lambda>(lo, hi). lo \<le> n \<and> n \<le> hi) blocks"

lemma div_interval: "0 < k \<Longrightarrow> n div k = v \<longleftrightarrow> v * k \<le> n \<and> n \<le> v * k + (k - 1)" for n k v :: nat
proof -
  assume k: "0 < k"
  have "n div k = v \<longleftrightarrow> v \<le> n div k \<and> n div k < v + 1" by linarith
  then show ?thesis
    using k by (auto simp: less_eq_div_iff_mult_less_eq div_less_iff_less_mult)
qed

definition refused_addr :: "netip_addr \<Rightarrow> bool" where
  "refused_addr addr \<longleftrightarrow> IsLoopback addr \<or> IsPrivate addr \<or> IsLinkLocalUnicast addr \<or> IsMulticast addr
     \<or> IsUnspecified addr \<or> list_ex (\<lambda>prefix. Contains prefix addr) forbiddenPrefixes"

lemma refused4: "refused_addr (Addr4 w) \<longleftrightarrow> in_blocks forbidden4 (unat w)"
proof -
  let ?n = "unat w"
  have "list_ex (\<lambda>prefix. Contains prefix (Addr4 w)) forbiddenPrefixes \<longleftrightarrow>
      ?n div 2 ^ 24 = 0 \<or> ?n div 2 ^ 22 = 401 \<or> ?n div 2 ^ 8 = 12582912 \<or> ?n div 2 ^ 8 = 12582914
      \<or> ?n div 2 ^ 17 = 25353 \<or> ?n div 2 ^ 8 = 12989284 \<or> ?n div 2 ^ 8 = 13303921 \<or> ?n div 2 ^ 28 = 15"
    by (simp add: forbiddenPrefixes_def Contains4_iff ip4_def del: Contains.simps(1))
  then show ?thesis
    unfolding refused_addr_def preds4
    by (simp add: div_interval forbidden4_def in_blocks_def quad_def)
       (rule iffI; elim disjE; simp)
qed

text \<open>IPv6.\<close>

definition forbidden6 :: "(nat \<times> nat) list" where
  "forbidden6 =
     [(0, 0), (1, 1),
      (0x20010db8 * 2 ^ 96, 0x20010db8 * 2 ^ 96 + (2 ^ 96 - 1)),
      (0xfc00 * 2 ^ 112, 0xfc00 * 2 ^ 112 + (2 ^ 121 - 1)),
      (0xfe80 * 2 ^ 112, 0xfe80 * 2 ^ 112 + (2 ^ 118 - 1)),
      (0xff00 * 2 ^ 112, 0xff00 * 2 ^ 112 + (2 ^ 120 - 1))]"

lemma preds6:
  fixes w :: "128 word"
  defines "n \<equiv> unat w"
  shows "IsLoopback (Addr6 w) \<longleftrightarrow> n = 1"
    and "IsPrivate (Addr6 w) \<longleftrightarrow> n div 2 ^ 121 = 126"
    and "IsLinkLocalUnicast (Addr6 w) \<longleftrightarrow> n div 2 ^ 118 = 1018"
    and "IsMulticast (Addr6 w) \<longleftrightarrow> n div 2 ^ 120 = 255"
    and "IsUnspecified (Addr6 w) \<longleftrightarrow> n = 0"
proof -
  have n: "n < 2 ^ 128" by (simp add: n_def unat128_less [simplified])
  have top: "n div 2 ^ 120 < 256" "n div 2 ^ 112 < 65536"
    using n by (simp_all add: div_less_iff_less_mult)
  have b0: "unat (v6 w 0) = n div 2 ^ 120"
    using top by (simp add: unat_v6 n_def)
  have h0: "unat (ucast (drop_bit 112 w) :: 16 word) = n div 2 ^ 112"
    using top by (simp add: unsigned_ucast_eq unat_drop_bit_eq drop_bit_eq_div [where 'a = nat] take_bit_eq_mod n_def)
  show "IsLoopback (Addr6 w) \<longleftrightarrow> n = 1"
    by (simp add: n_def word_unat_eq_iff)
  show "IsUnspecified (Addr6 w) \<longleftrightarrow> n = 0"
    by (simp add: n_def word_unat_eq_iff)
  show "IsMulticast (Addr6 w) \<longleftrightarrow> n div 2 ^ 120 = 255"
    by (simp add: word_unat_eq_iff b0)
  have fe: "push_bit 1 (NOT 0) = (0xfe :: byte)" by code_simp
  have "v6 w 0 AND 0xfe = 0xfc \<longleftrightarrow> n div 2 ^ 120 div 2 = 126"
    using high_bits_iff [of 126 1 "v6 w 0", unfolded fe] b0 by simp
  moreover have "n div 2 ^ 120 div 2 = n div 2 ^ 121"
    by (simp add: div_mult2_eq [symmetric])
  ultimately show "IsPrivate (Addr6 w) \<longleftrightarrow> n div 2 ^ 121 = 126"
    by (simp only: IsPrivate.simps)
  have ffc0: "push_bit 6 (NOT 0) = (0xffc0 :: 16 word)" by code_simp
  have "(ucast (drop_bit 112 w) :: 16 word) AND 0xffc0 = 0xfe80 \<longleftrightarrow> n div 2 ^ 112 div 64 = 1018"
    using high_bits_iff [of 1018 6 "ucast (drop_bit 112 w) :: 16 word", unfolded ffc0] h0 by simp
  moreover have "n div 2 ^ 112 div 64 = n div 2 ^ 118"
    by (simp add: div_mult2_eq [symmetric])
  ultimately show "IsLinkLocalUnicast (Addr6 w) \<longleftrightarrow> n div 2 ^ 118 = 1018"
    by (simp only: IsLinkLocalUnicast.simps)
qed

lemma refused6: "refused_addr (Addr6 w) \<longleftrightarrow> in_blocks forbidden6 (unat w)"
proof -
  let ?n = "unat w"
  have "list_ex (\<lambda>prefix. Contains prefix (Addr6 w)) forbiddenPrefixes \<longleftrightarrow> ?n div 2 ^ 96 = 536939960"
  proof -
    have "unat (push_bit 96 0x20010db8 :: 128 word) = 0x20010db8 * 2 ^ 96"
      by (simp add: push_bit_eq_mult)
    then show ?thesis
      by (simp add: forbiddenPrefixes_def Contains6_iff del: Contains.simps(2))
  qed
  then show ?thesis
    unfolding refused_addr_def preds6
    by (simp add: div_interval forbidden6_def in_blocks_def) (rule iffI; elim disjE; simp)
qed

section \<open>Slices\<close>

lemma be_get_append: "be_get (xs @ ys) = be_get xs * 256 ^ length ys + be_get ys"
proof (induction ys rule: rev_induct)
  case (snoc y ys)
  then show ?case
    using be_get_snoc [of "xs @ ys" y] be_get_snoc [of ys y] by (simp add: algebra_simps)
qed (simp add: be_get_def)

lemma be_get_inj: "length xs = length ys \<Longrightarrow> be_get xs = be_get ys \<longleftrightarrow> xs = ys"
  using be_put_get [of xs] be_put_get [of ys] by metis

lemma IsForbiddenIP_refused:
  "IsForbiddenIP ip \<longleftrightarrow> (case AddrFromSlice ip of None \<Rightarrow> True | Some a \<Rightarrow> refused_addr (Unmap a))"
  by (auto simp: IsForbiddenIP_def refused_addr_def AddrFromSlice_def Let_def)

lemma Unmap_slice16:
  assumes "length ip = 16"
  shows "Unmap (Addr6 (of_nat (be_get ip))) =
    (if take 12 ip = v4InV6Prefix then Addr4 (of_nat (be_get (drop 12 ip))) else Addr6 (of_nat (be_get ip)))"
proof -
  let ?w = "of_nat (be_get ip) :: 128 word"
  have less: "be_get ip < 2 ^ 128" "be_get (drop 12 ip) < 2 ^ 32"
    using be_get_less [of ip] be_get_less [of "drop 12 ip"] assms by simp_all
  then have w: "unat ?w = be_get ip"
    by (simp add: unsigned_of_nat take_bit_nat_eq_self)
  have split: "be_get ip = be_get (take 12 ip) * 2 ^ 32 + be_get (drop 12 ip)"
    using be_get_append [of "take 12 ip" "drop 12 ip"] assms by simp
  have "be_get v4InV6Prefix = 65535" by (simp add: be_get_def v4InV6Prefix_def)
  then have pre: "take 12 ip = v4InV6Prefix \<longleftrightarrow> be_get (take 12 ip) = 65535"
    using be_get_inj [of "take 12 ip" v4InV6Prefix] assms by (auto simp: v4InV6Prefix_def)
  have "drop_bit 32 ?w = 0xffff \<longleftrightarrow> unat ?w div 2 ^ 32 = 65535"
    by (simp only: word_unat_eq_iff unat_drop_bit_eq drop_bit_eq_div [where 'a = nat]) simp
  also have "\<dots> \<longleftrightarrow> be_get (take 12 ip) = 65535"
  proof -
    have "be_get ip div 2 ^ 32 = be_get (take 12 ip)"
      using less(2) by (subst split) simp
    then show ?thesis by (simp only: w)
  qed
  finally have top: "drop_bit 32 ?w = 0xffff \<longleftrightarrow> take 12 ip = v4InV6Prefix" using pre by simp
  have "(ucast ?w :: 32 word) = of_nat (be_get (drop 12 ip))"
  proof -
    have "unat (ucast ?w :: 32 word) = be_get ip mod 2 ^ 32"
      by (simp only: unsigned_ucast_eq w) (simp add: take_bit_eq_mod)
    also have "be_get ip mod 2 ^ 32 = be_get (drop 12 ip)"
      using less(2) by (subst split) simp
    finally show ?thesis
      using less(2) by (simp add: word_unat_eq_iff unsigned_of_nat take_bit_nat_eq_self)
  qed
  with top show ?thesis by (simp add: Unmap_def)
qed

section \<open>Properties\<close>

text \<open>C22 (functional). The guard refuses exactly the listed address blocks: every IPv4 address in
  one of the fourteen blocks (private, loopback, link-local, shared, documentation, benchmark,
  multicast, reserved), also when it comes as an IPv4-mapped IPv6 address; of the other IPv6
  addresses the unspecified and the loopback address and the four listed blocks; and every slice
  that is not an address.\<close>

theorem IsForbiddenIP_blocks:
  "IsForbiddenIP ip =
     (if length ip = 4 then in_blocks forbidden4 (be_get ip)
      else if length ip = 16 then
        (if take 12 ip = v4InV6Prefix then in_blocks forbidden4 (be_get (drop 12 ip)) else in_blocks forbidden6 (be_get ip))
      else True)"
proof -
  have w32: "unat (of_nat (be_get bs) :: 32 word) = be_get bs" if "length bs = 4" for bs
    using be_get_less [of bs] that by (simp add: unsigned_of_nat take_bit_nat_eq_self)
  have w128: "unat (of_nat (be_get bs) :: 128 word) = be_get bs" if "length bs = 16" for bs
    using be_get_less [of bs] that by (simp add: unsigned_of_nat take_bit_nat_eq_self)
  consider "length ip = 4" | "length ip = 16" | "length ip \<noteq> 4" "length ip \<noteq> 16" by blast
  then show ?thesis
  proof cases
    case 1
    then show ?thesis
      by (simp add: IsForbiddenIP_refused AddrFromSlice_def Unmap_def refused4 w32)
  next
    case 2
    then show ?thesis
      using w128 [OF 2] w32 [of "drop 12 ip"]
      by (simp add: IsForbiddenIP_refused AddrFromSlice_def Unmap_slice16 refused4 refused6)
  next
    case 3
    then show ?thesis by (simp add: IsForbiddenIP_refused AddrFromSlice_def)
  qed
qed

text \<open>Accepted authorities, in parts.\<close>

lemma resolve_Inr:
  assumes "ResolveAndValidateAuthority lookup authority = Inr target"
  obtains host portText port ips where "SplitHostPort (TrimSpace authority) = Inr (host, portText)"
    "ParseUint10 16 portText = Some port" "0 < port"
    "if ParseIP host \<noteq> [] then ips = [ParseIP host] else lookup host = Some ips" "ips \<noteq> []"
    "list_all (\<lambda>ip. \<not> IsForbiddenIP ip) ips" "length (hd ips) = 4 \<or> length (hd ips) = 16"
    "SplitHostPort target = Inr (IP_String (hd ips), Itoa port)"
proof -
  from assms obtain host portText port ips where
    parts: "SplitHostPort (TrimSpace authority) = Inr (host, portText)" "ParseUint10 16 portText = Some port" "0 < port"
    and ips: "if ParseIP host \<noteq> [] then ips = [ParseIP host] else lookup host = Some ips" "ips \<noteq> []"
    and allowed: "\<not> list_ex IsForbiddenIP ips"
    and target: "target = JoinHostPort (IP_String (ips ! 0)) (Itoa port)"
    by (auto simp: ResolveAndValidateAuthority_def Let_def split: sum.splits option.splits if_splits)
  have hd: "hd ips = ips ! 0" "\<not> IsForbiddenIP (hd ips)"
    using ips(2) allowed by (cases ips; auto)+
  then have len: "length (hd ips) = 4 \<or> length (hd ips) = 16"
    by (auto simp: IsForbiddenIP_refused AddrFromSlice_def split: if_splits)
  have "SplitHostPort target = Inr (IP_String (hd ips), Itoa port)"
    unfolding target hd(1) [symmetric]
    by (intro SplitHostPort_JoinHostPort host_chars_ok_IP_String host_chars_ok_Itoa len)
  moreover have "list_all (\<lambda>ip. \<not> IsForbiddenIP ip) ips"
    using allowed by (simp add: list_all_iff list_ex_iff)
  ultimately show thesis using that parts ips len by blast
qed

text \<open>The 16-byte form of an address is refused exactly when the address is.\<close>

lemma IsForbiddenIP_To16: "length ip = 4 \<or> length ip = 16 \<Longrightarrow> IsForbiddenIP (To16 ip) = IsForbiddenIP ip"
proof -
  assume "length ip = 4 \<or> length ip = 16"
  then consider "length ip = 4" | "length ip = 16" by blast
  then show ?thesis
  proof cases
    case 1
    have "length (v4InV6Prefix @ ip) = 16" "take 12 (v4InV6Prefix @ ip) = v4InV6Prefix" "drop 12 (v4InV6Prefix @ ip) = ip"
      using 1 by (simp_all add: v4InV6Prefix_def)
    with 1 Unmap_slice16 [of "v4InV6Prefix @ ip"] show ?thesis
      by (simp add: IsForbiddenIP_refused To16_def AddrFromSlice_def Unmap_def)
  qed (simp add: To16_def)
qed

text \<open>C23 (safety). A CONNECT authority is accepted only when every address it stands for is allowed,
  whatever the resolver answers, and the address to dial is then a literal: it splits into the
  text of the first of the checked addresses and the requested port, and that text parses back to
  the very address that was checked, for IPv4 and IPv6, so nothing is resolved a second time.\<close>

theorem ResolveAndValidateAuthority_safe:
  assumes "ResolveAndValidateAuthority lookup authority = Inr target"
  shows "\<exists>host portText port ips. SplitHostPort (TrimSpace authority) = Inr (host, portText)
    \<and> ParseUint10 16 portText = Some port \<and> 0 < port
    \<and> (if ParseIP host \<noteq> [] then ips = [ParseIP host] else lookup host = Some ips) \<and> ips \<noteq> []
    \<and> list_all (\<lambda>ip. \<not> IsForbiddenIP ip) ips
    \<and> SplitHostPort target = Inr (IP_String (hd ips), Itoa port)
    \<and> ParseIP (IP_String (hd ips)) = To16 (hd ips) \<and> \<not> IsForbiddenIP (To16 (hd ips))"
proof -
  from assms obtain host portText port ips where
    parts: "SplitHostPort (TrimSpace authority) = Inr (host, portText)" "ParseUint10 16 portText = Some port" "0 < port"
    "if ParseIP host \<noteq> [] then ips = [ParseIP host] else lookup host = Some ips" "ips \<noteq> []"
    "list_all (\<lambda>ip. \<not> IsForbiddenIP ip) ips" "SplitHostPort target = Inr (IP_String (hd ips), Itoa port)"
    and len: "length (hd ips) = 4 \<or> length (hd ips) = 16"
    by (rule resolve_Inr)
  moreover have "\<not> IsForbiddenIP (To16 (hd ips))"
    using parts(5,6) by (simp add: IsForbiddenIP_To16 [OF len] list_all_iff)
  ultimately show ?thesis using ParseIP_IP_String [OF len] by blast
qed

definition ex_lookup :: lookup where
  "ex_lookup host = (if host = ''example.org'' then Some [[93, 184, 215, 14]] else None)"

lemma ex_resolve_parts:
  "SplitHostPort ''example.org:443'' = Inr (''example.org'', ''443'')"
  "ParseIP ''example.org'' = []"
  "IP_String [93, 184, 215, 14] = ''93.184.215.14''" "Itoa 443 = ''443''"
  "JoinHostPort ''93.184.215.14'' ''443'' = ''93.184.215.14:443''"
  by code_simp+

lemma ex_port: "ParseUint10 16 ''443'' = Some 443"
  using ParseUint10_Itoa [of 443 16] by (simp add: ex_resolve_parts)

lemma ex_trim: "TrimSpace ''example.org:443'' = ''example.org:443''"
  by (rule TrimSpace_plain) (simp add: plain_def plain_char_def)

lemma ex_allowed: "\<not> IsForbiddenIP [93, 184, 215, 14]"
  by (simp add: IsForbiddenIP_refused AddrFromSlice_def Unmap_def refused4 in_blocks_def forbidden4_def quad_def be_get_def)

lemma ex_resolve: "ResolveAndValidateAuthority ex_lookup ''example.org:443'' = Inr ''93.184.215.14:443''"
  unfolding ResolveAndValidateAuthority_def ex_trim
  by (simp add: ex_resolve_parts ex_port ex_lookup_def ex_allowed)

theorem ResolveAndValidateAuthority_safe_witness:
  "\<exists>ips. ips \<noteq> [] \<and> list_all (\<lambda>ip. \<not> IsForbiddenIP ip) ips
     \<and> SplitHostPort ''93.184.215.14:443'' = Inr (IP_String (hd ips), ''443'')"
  using ResolveAndValidateAuthority_safe [OF ex_resolve]
  unfolding ex_trim by (auto simp: ex_resolve_parts ex_port)

end
