(* ===== verification/Go_Float.thy ===== *)
theory Go_Float
  imports Complex_Main "HOL-Library.Log_Nat" Prelude
begin

text \<open>
  Go's \<open>float64\<close> for the numbers the rate limiter computes with: a value is the rational number it
  stands for, and every operation is the exact one followed by \<open>fl\<close>, the rounding to 53
  significant bits, to the nearest and to even in case of a tie, of the magnitude for negative
  numbers. Overflow, underflow and NaN do not arise: the values are zero or have a magnitude
  between \<open>2 ^ -100\<close> and \<open>2 ^ 130\<close>.

  Lemmas: \<open>fl\<close> is odd (\<open>fl_minus\<close>), monotone (\<open>fl_mono\<close>), the identity on its own results
  (\<open>fl_fl\<close>) and on the integers up to \<open>2 ^ 53\<close> (\<open>fl_of_nat\<close>).
\<close>

section \<open>Rounding\<close>

definition round_even :: "rat \<Rightarrow> int" where
  "round_even m =
     (let f = \<lfloor>m\<rfloor>; d = m - of_int f in
      if d < 1 / 2 \<or> (d = 1 / 2 \<and> even f) then f else f + 1)"

text \<open>The binary exponent of a positive number.\<close>

definition expo :: "rat \<Rightarrow> int" where
  "expo x =
     (let (p, q) = quotient_of x; e = bitlen p - bitlen q in
      if power_int 2 e \<le> x then e else e - 1)"

definition fl :: "rat \<Rightarrow> rat" where
  "fl x =
     (if x = 0 then 0
      else let e = expo \<bar>x\<bar> in sgn x * (of_int (round_even (\<bar>x\<bar> * power_int 2 (52 - e))) * power_int 2 (e - 52)))"

lemma fl_zero [simp]: "fl 0 = 0"
  by (simp add: fl_def)

lemma fl_minus: "fl (- x) = - fl x"
  by (simp add: fl_def sgn_minus Let_def)

lemma fl_of_pos: "0 < x \<Longrightarrow> fl x = of_int (round_even (x * power_int 2 (52 - expo x))) * power_int 2 (expo x - 52)"
  by (simp add: fl_def Let_def)

lemma round_even_floor: "\<lfloor>m\<rfloor> \<le> round_even m \<and> round_even m \<le> \<lfloor>m\<rfloor> + 1"
  by (simp add: round_even_def Let_def)

lemma round_even_of_int [simp]: "round_even (of_int k) = k"
  by (simp add: round_even_def)

lemma round_even_mono:
  assumes "m \<le> m'"
  shows "round_even m \<le> round_even m'"
proof (cases "\<lfloor>m\<rfloor> = \<lfloor>m'\<rfloor>")
  case True
  with assms have "m - of_int \<lfloor>m\<rfloor> \<le> m' - of_int \<lfloor>m'\<rfloor>" by simp
  with True show ?thesis by (auto simp: round_even_def Let_def)
next
  case False
  with assms have "\<lfloor>m\<rfloor> + 1 \<le> \<lfloor>m'\<rfloor>" using floor_mono [OF assms] by linarith
  then show ?thesis using round_even_floor [of m] round_even_floor [of m'] by linarith
qed

lemma p2_pos [simp]: "0 < (power_int 2 n :: rat)"
  by (simp add: zero_less_power_int)

lemma p2_add: "power_int 2 m * power_int 2 n = (power_int 2 (m + n) :: rat)"
  by (simp add: power_int_add)

lemma p2_less: "(power_int 2 m :: rat) < power_int 2 n \<longleftrightarrow> m < n"
proof
  assume "(power_int 2 m :: rat) < power_int 2 n"
  then show "m < n"
    using power_int_increasing [of n m "2 :: rat"] by (meson not_le one_le_numeral)
next
  assume "m < n"
  then show "(power_int 2 m :: rat) < power_int 2 n"
    by (rule power_int_strict_increasing) simp
qed

lemma p2_bitlen: "0 < p \<Longrightarrow> (power_int 2 (bitlen p - 1) :: rat) \<le> of_int p \<and> (of_int p :: rat) < power_int 2 (bitlen p)"
proof -
  assume p: "0 < p"
  then have "1 \<le> bitlen p" using bitlen_eq_zero_iff [of p] bitlen_nonneg [of p] by linarith
  then have "(power_int 2 (bitlen p - 1) :: rat) = of_int (2 ^ nat (bitlen p - 1))" "(power_int 2 (bitlen p) :: rat) = of_int (2 ^ nat (bitlen p))"
    by (simp_all add: power_int_def)
  then show ?thesis using bitlen_bounds [OF p] by (metis of_int_le_iff of_int_less_iff)
qed

lemma expo_bounds:
  assumes "0 < x"
  shows "power_int 2 (expo x) \<le> x \<and> x < power_int 2 (expo x + 1)"
proof -
  obtain p q where pq: "quotient_of x = (p, q)" by fastforce
  then have q: "0 < q" and x: "x = of_int p / of_int q"
    by (simp_all add: quotient_of_denom_pos quotient_of_div)
  with assms have p: "0 < p" by (simp add: zero_less_divide_iff)
  define e where "e = bitlen p - bitlen q"
  have qpos: "(0 :: rat) < of_int q" using q by simp
  have "power_int 2 (e - 1) \<le> x"
  proof -
    have "power_int 2 (e - 1) * of_int q \<le> (power_int 2 (e - 1) * power_int 2 (bitlen q) :: rat)"
      using p2_bitlen [OF q] by (intro mult_left_mono) (auto intro: less_imp_le)
    also have "\<dots> = power_int 2 (bitlen p - 1)" by (simp add: p2_add e_def)
    also have "\<dots> \<le> of_int p" using p2_bitlen [OF p] by simp
    finally show ?thesis using qpos by (simp add: x field_simps)
  qed
  moreover have "x < power_int 2 (e + 1)"
  proof -
    have "(of_int p :: rat) < power_int 2 (bitlen p)" using p2_bitlen [OF p] by simp
    also have "\<dots> = power_int 2 (e + 1) * power_int 2 (bitlen q - 1)" by (simp add: p2_add e_def)
    also have "\<dots> \<le> power_int 2 (e + 1) * of_int q"
      using p2_bitlen [OF q] by (intro mult_left_mono) (auto intro: less_imp_le)
    finally show ?thesis using qpos by (simp add: x field_simps)
  qed
  ultimately show ?thesis
    by (auto simp: expo_def pq e_def [symmetric] Let_def)
qed

lemma expo_unique:
  assumes "power_int 2 e \<le> x" and "x < power_int 2 (e + 1)"
  shows "expo x = e"
proof -
  have x: "0 < x" using assms(1) p2_pos [of e] by linarith
  have "power_int 2 (expo x) < (power_int 2 (e + 1) :: rat)" "power_int 2 e < (power_int 2 (expo x + 1) :: rat)"
    using expo_bounds [OF x] assms by linarith+
  then show ?thesis by (simp add: p2_less)
qed

lemma expo_mono: "0 < x \<Longrightarrow> x \<le> y \<Longrightarrow> expo x \<le> expo y"
proof -
  assume x: "0 < x" "x \<le> y"
  then have "power_int 2 (expo x) < (power_int 2 (expo y + 1) :: rat)"
    using expo_bounds [of x] expo_bounds [of y] by linarith
  then show ?thesis by (simp add: p2_less)
qed

text \<open>The mantissa of a rounded number.\<close>

lemma mantissa:
  assumes "0 < x"
  shows "2 ^ 52 \<le> round_even (x * power_int 2 (52 - expo x)) \<and> round_even (x * power_int 2 (52 - expo x)) \<le> 2 ^ 53"
proof -
  let ?m = "x * power_int 2 (52 - expo x)"
  have "power_int 2 (expo x) * power_int 2 (52 - expo x) \<le> ?m" "?m \<le> power_int 2 (expo x + 1) * power_int 2 (52 - expo x)"
    using expo_bounds [OF assms] by (auto intro!: mult_right_mono less_imp_le)
  then have "of_int (2 ^ 52) \<le> ?m" "?m \<le> of_int (2 ^ 53)" by (simp_all add: p2_add)
  from this [THEN round_even_mono] show ?thesis by (simp only: round_even_of_int)
qed

lemma fl_bounds: "0 < x \<Longrightarrow> power_int 2 (expo x) \<le> fl x \<and> fl x \<le> power_int 2 (expo x + 1)"
proof -
  assume x: "0 < x"
  let ?k = "round_even (x * power_int 2 (52 - expo x))"
  have "(of_int (2 ^ 52) :: rat) \<le> of_int ?k" "(of_int ?k :: rat) \<le> of_int (2 ^ 53)"
    using mantissa [OF x] by (simp_all only: of_int_le_iff)
  then have "power_int 2 52 * power_int 2 (expo x - 52) \<le> (of_int ?k * power_int 2 (expo x - 52) :: rat)"
      "(of_int ?k * power_int 2 (expo x - 52) :: rat) \<le> power_int 2 53 * power_int 2 (expo x - 52)"
    by (auto intro!: mult_right_mono less_imp_le)
  then show ?thesis using x by (simp add: fl_of_pos p2_add add.commute del: power_int_numeral)
qed

lemma fl_pos: "0 < x \<Longrightarrow> 0 < fl x"
  using fl_bounds [of x] p2_pos [of "expo x"] by linarith

lemma fl_nonneg [simp]: "0 \<le> x \<Longrightarrow> 0 \<le> fl x"
  using fl_pos [of x] by (cases "x = 0") (auto intro: less_imp_le)

lemma fl_mono_pos:
  assumes pos: "0 < x" and le: "x \<le> y"
  shows "fl x \<le> fl y"
proof (cases "expo x = expo y")
  case True
  have "x * power_int 2 (52 - expo x) \<le> y * power_int 2 (52 - expo x)"
    using le by (intro mult_right_mono) (auto intro: less_imp_le)
  from round_even_mono [OF this] show ?thesis
    using pos le True by (auto simp: fl_of_pos intro!: mult_right_mono less_imp_le)
next
  case False
  with expo_mono [OF pos le] have "expo x + 1 \<le> expo y" by simp
  then have "(power_int 2 (expo x + 1) :: rat) \<le> power_int 2 (expo y)"
    by (intro power_int_increasing) auto
  with fl_bounds [OF pos] fl_bounds [of y] pos le show ?thesis by linarith
qed

lemma fl_mono:
  assumes "x \<le> y"
  shows "fl x \<le> fl y"
proof -
  consider "0 < x" | "x \<le> 0" "0 \<le> y" | "y < 0" by linarith
  then show ?thesis
  proof cases
    case 1
    then show ?thesis using assms by (rule fl_mono_pos)
  next
    case 2
    then have "0 \<le> fl (- x)" "0 \<le> fl y" by simp_all
    then show ?thesis by (simp add: fl_minus)
  next
    case 3
    then have "fl (- y) \<le> fl (- x)" using assms by (intro fl_mono_pos) simp_all
    then show ?thesis by (simp add: fl_minus)
  qed
qed

lemma fl_exact:
  assumes "0 < x" and "x * power_int 2 (52 - expo x) = of_int k"
  shows "fl x = x"
proof -
  have "of_int k * power_int 2 (expo x - 52) = x * (power_int 2 (52 - expo x) * power_int 2 (expo x - 52))"
    by (simp add: assms(2) [symmetric])
  also have "\<dots> = x" by (simp add: p2_add)
  finally show ?thesis using assms by (simp add: fl_of_pos)
qed

lemma fl_fl_pos:
  assumes x: "0 < x"
  shows "fl (fl x) = fl x"
proof -
  define e where "e = expo x"
  define k where "k = round_even (x * power_int 2 (52 - e))"
  have fx: "fl x = of_int k * power_int 2 (e - 52)" using x by (simp add: fl_of_pos e_def k_def)
  have pos: "0 < fl x" using fl_bounds [OF x] p2_pos [of "expo x"] by linarith
  show ?thesis
  proof (cases "fl x = power_int 2 (e + 1)")
    case True
    have "expo (fl x) = e + 1" unfolding True by (rule expo_unique) (simp_all add: p2_less)
    then have "fl x * power_int 2 (52 - expo (fl x)) = of_int (2 ^ 51 * 2)"
      by (simp add: True p2_add)
    from fl_exact [OF pos this] show ?thesis .
  next
    case False
    then have "expo (fl x) = e" using fl_bounds [OF x] by (intro expo_unique) (auto simp: e_def)
    then have "fl x * power_int 2 (52 - expo (fl x)) = of_int k"
      by (simp add: fx p2_add mult.assoc)
    from fl_exact [OF pos this] show ?thesis .
  qed
qed

lemma fl_fl [simp]: "fl (fl x) = fl x"
proof -
  consider "0 < x" | "x = 0" | "0 < - x" by linarith
  then show ?thesis
    using fl_fl_pos [of x] fl_fl_pos [of "- x"] by cases (auto simp: fl_minus)
qed

lemma fl_of_nat: "n \<le> 2 ^ 53 \<Longrightarrow> fl (of_nat n) = of_nat n"
proof (cases "n = 0")
  case True
  then show ?thesis by simp
next
  case False
  assume n: "n \<le> 2 ^ 53"
  define e where "e = expo (of_nat n)"
  have pos: "(0 :: rat) < of_nat n" using False by simp
  show ?thesis
  proof (cases "n = 2 ^ 53")
    case True
    then have "fl (of_nat n) = fl (power_int 2 53)" by simp
    also have "\<dots> = power_int 2 53"
    proof -
      have "expo (power_int 2 53) = 53" by (rule expo_unique) (rule order.refl, subst p2_less, simp)
      then have "power_int 2 53 * power_int 2 (52 - expo (power_int 2 53)) = (of_int (2 ^ 52) :: rat)"
        by (simp add: p2_add del: power_int_numeral) simp
      from fl_exact [OF p2_pos this] show ?thesis .
    qed
    finally show ?thesis using True by simp
  next
    case False
    have "(power_int 2 e :: rat) \<le> of_nat n" using expo_bounds [OF pos] by (simp add: e_def)
    also have "of_nat n < (of_nat (2 ^ 53) :: rat)" using n False by (simp only: of_nat_less_iff)
    also have "(of_nat (2 ^ 53) :: rat) = power_int 2 53" by simp
    finally have "e < 53" by (simp only: p2_less)
    then have "(power_int 2 (52 - e) :: rat) = of_int (2 ^ nat (52 - e))" by (simp add: power_int_def)
    then have "of_nat n * power_int 2 (52 - e) = (of_int (int n * 2 ^ nat (52 - e)) :: rat)" by simp
    from fl_exact [OF pos this [unfolded e_def]] show ?thesis .
  qed
qed

end
