(* ===== verification/Limiter.thy ===== *)
theory Limiter
  imports Go_Float Net_Addr
begin

text \<open>
  The rate limiter (\<open>internal/quicx/limiter.go\<close>): a bound on concurrent requests (a channel used
  as a semaphore) and a token bucket per IP address, with a bounded number of buckets.

  \<^item> The token arithmetic is \<open>float64\<close> arithmetic (\<open>Go_Float\<close>). Go allows a compiler to fuse
    the multiplication and the addition of the refill: \<open>fused\<close> says whether it does, and the
    theorems hold for both.
  \<^item> \<open>Allow\<close> is three atomic steps: taking a place in the channel, the section under the mutex
    (\<open>admit\<close>), and the return of the place. A call that took a place owns a release function,
    which works once; \<open>li_once\<close> holds the \<open>sync.Once\<close> of each of them.
  \<^item> \<open>now\<close> is the clock, \<open>it\<close> the order in which \<open>evictOldestIP\<close> visits the map.

  Lemmas: \<open>limiter_inv\<close> holds in every state that calls can reach in any interleaving;
  \<open>limiter_step\<close> is the step relation.
\<close>

section \<open>Types\<close>

record LimitConfig =
  lc_MaxConcurrent :: int
  lc_PerIPBurst :: int
  lc_PerIPWindow :: duration
  lc_MaxTrackedIPs :: int

record ipLimitState =
  il_tokens :: rat
  il_updated :: instant
  il_lastSeen :: instant

record Limiter =
  li_sem :: nat
  li_semCap :: nat
  li_perIPBurst :: int
  li_perIPWindow :: duration
  li_maxTrackedIPs :: int
  li_ips :: "(string, ipLimitState) gomap"
  li_once :: "bool list"

definition NewLimiter :: "LimitConfig \<Rightarrow> Limiter" where
  "NewLimiter cfg =
     \<lparr>li_sem = 0,
      li_semCap = nat (if lc_MaxConcurrent cfg \<le> 0 then 128 else lc_MaxConcurrent cfg),
      li_perIPBurst = (if lc_PerIPBurst cfg \<le> 0 then 20 else lc_PerIPBurst cfg),
      li_perIPWindow = (if lc_PerIPWindow cfg \<le> 0 then minute else lc_PerIPWindow cfg),
      li_maxTrackedIPs = (if lc_MaxTrackedIPs cfg \<le> 0 then 4096 else lc_MaxTrackedIPs cfg),
      li_ips = [], li_once = []\<rparr>"

section \<open>Arithmetic\<close>

text \<open>\<open>time.Time.Sub\<close> saturates; \<open>time.Duration.Seconds\<close> adds whole and fractional seconds (of a
  duration that is not negative, as both durations of the refill are).\<close>

definition Sub :: "instant \<Rightarrow> instant \<Rightarrow> duration" where
  "Sub t u = max (- (2 ^ 63)) (min (2 ^ 63 - 1) (t - u))"

definition Seconds :: "duration \<Rightarrow> rat" where
  "Seconds d = fl (fl (of_int (d div second)) + fl (fl (of_int (d mod second)) / fl (of_int second)))"

definition refill :: "bool \<Rightarrow> duration \<Rightarrow> duration \<Rightarrow> int \<Rightarrow> rat \<Rightarrow> rat" where
  "refill fused elapsed window burst tokens =
     (let ratio = fl (Seconds elapsed / Seconds window);
          gain = ratio * fl (of_int burst);
          tokens' = fl (tokens + (if fused then gain else fl gain))
      in if fl (of_int burst) < tokens' then fl (of_int burst) else tokens')"

section \<open>Operations\<close>

definition remoteIP :: "unicode_tables \<Rightarrow> string \<Rightarrow> string" where
  "remoteIP U remoteAddr =
     (case SplitHostPort (TrimSpace remoteAddr) of
        Inr (host, _) \<Rightarrow> if host \<noteq> [] then ToLower U host else ToLower U (TrimSpace remoteAddr)
      | Inl _ \<Rightarrow> ToLower U (TrimSpace remoteAddr))"

text \<open>The loop of \<open>evictOldestIP\<close>; the empty key stands for "none yet".\<close>

fun oldestIP :: "(string, ipLimitState) gomap \<Rightarrow> string list \<Rightarrow> string \<times> instant \<Rightarrow> string \<times> instant" where
  "oldestIP m [] best = best"
| "oldestIP m (key # it) (oldestKey, oldestTime) =
     (case gm_lookup m key of
        None \<Rightarrow> oldestIP m it (oldestKey, oldestTime)
      | Some state \<Rightarrow>
          oldestIP m it (if oldestKey = [] \<or> il_lastSeen state < oldestTime then (key, il_lastSeen state)
                         else (oldestKey, oldestTime)))"

definition evictOldestIP :: "string list \<Rightarrow> Limiter \<Rightarrow> Limiter" where
  "evictOldestIP it l = l\<lparr>li_ips := gm_delete (fst (oldestIP (li_ips l) it ([], 0))) (li_ips l)\<rparr>"

text \<open>\<open>select { case l.sem <- struct{}{}: default: }\<close>: the new release function, if there was room.\<close>

definition acquire :: "Limiter \<Rightarrow> Limiter \<times> nat option" where
  "acquire l =
     (if li_sem l < li_semCap l
      then (l\<lparr>li_sem := li_sem l + 1, li_once := li_once l @ [False]\<rparr>, Some (length (li_once l)))
      else (l, None))"

text \<open>A release function: \<open>once.Do(func() { <-l.sem })\<close>. \<open>None\<close>: the receive blocks.\<close>

definition releaseSemaphore :: "nat \<Rightarrow> Limiter \<Rightarrow> Limiter option" where
  "releaseSemaphore h l =
     (if li_once l ! h then Some l
      else if li_sem l = 0 then None
      else Some (l\<lparr>li_sem := li_sem l - 1, li_once := (li_once l)[h := True]\<rparr>))"

text \<open>The section of \<open>Allow\<close> under the mutex: whether the address has a token left.\<close>

definition admit :: "bool \<Rightarrow> string list \<Rightarrow> instant \<Rightarrow> string \<Rightarrow> Limiter \<Rightarrow> Limiter \<times> bool" where
  "admit fused it now ip l =
     (let (l1, state0) =
            (case gm_lookup (li_ips l) ip of
               Some state \<Rightarrow> (l, state)
             | None \<Rightarrow>
                 let l1 = (if li_maxTrackedIPs l \<le> int (gm_len (li_ips l)) then evictOldestIP it l else l)
                 in (l1, \<lparr>il_tokens = fl (of_int (li_perIPBurst l)), il_updated = now, il_lastSeen = 0\<rparr>));
          state1 =
            (if il_updated state0 < now
             then state0\<lparr>il_tokens := refill fused (Sub now (il_updated state0)) (li_perIPWindow l) (li_perIPBurst l) (il_tokens state0),
                         il_updated := now\<rparr>
             else state0);
          state2 = state1\<lparr>il_lastSeen := now\<rparr>
      in if il_tokens state2 < 1 then (l1\<lparr>li_ips := gm_put ip state2 (li_ips l1)\<rparr>, False)
         else (l1\<lparr>li_ips := gm_put ip (state2\<lparr>il_tokens := fl (il_tokens state2 - 1)\<rparr>) (li_ips l1)\<rparr>, True))"

definition Allow ::
  "unicode_tables \<Rightarrow> bool \<Rightarrow> string list \<Rightarrow> instant \<Rightarrow> string \<Rightarrow> bool \<Rightarrow> Limiter \<Rightarrow> (Limiter \<times> nat option) option" where
  "Allow U fused it now remoteAddr authenticated l =
     (case acquire l of
        (l1, None) \<Rightarrow> Some (l1, None)
      | (l1, Some h) \<Rightarrow>
          if authenticated then Some (l1, Some h)
          else case admit fused it now (remoteIP U remoteAddr) l1 of
              (l2, False) \<Rightarrow> map_option (\<lambda>l3. (l3, None)) (releaseSemaphore h l2)
            | (l2, True) \<Rightarrow> Some (l2, Some h))"

definition trackedIPs :: "Limiter \<Rightarrow> nat" where
  "trackedIPs l = gm_len (li_ips l)"

section \<open>The buckets\<close>

lemma fl_one [simp]: "fl 1 = 1"
  using fl_of_nat [of 1] by simp

lemma Seconds_mono:
  assumes "0 \<le> d" and "d \<le> d'" and "d' < 2 ^ 63"
  shows "Seconds d \<le> Seconds d'"
proof -
  let ?frac = "\<lambda>d. fl (fl (of_int (d mod second)) / fl (of_int second))"
  have frac: "0 \<le> ?frac d" "?frac d \<le> 1" for d :: int
  proof -
    have r: "0 \<le> d mod second" "d mod second \<le> second" by (simp_all add: less_imp_le)
    have "fl (of_int (d mod second)) \<le> fl (of_int second)" using r(2) by (intro fl_mono) simp
    moreover have "0 < fl (of_int second)" using fl_of_nat [of 1000000000] by simp
    ultimately have "fl (of_int (d mod second)) / fl (of_int second) \<le> 1" by simp
    from fl_mono [OF this] show "?frac d \<le> 1" by simp
    show "0 \<le> ?frac d" using r(1) by (intro fl_nonneg divide_nonneg_nonneg) simp_all
  qed
  have whole: "fl (of_int (d div second)) = of_int (d div second)" if "0 \<le> d" "d < 2 ^ 63" for d :: int
  proof -
    have "d div second \<le> d" "0 \<le> d div second" "d div second \<le> 2 ^ 53"
      using that by (auto simp: pos_imp_zdiv_nonneg_iff)
    then show ?thesis using fl_of_nat [of "nat (d div second)"] by simp
  qed
  have "of_int (d div second) + ?frac d \<le> of_int (d' div second) + ?frac d'"
  proof (cases "d div second = d' div second")
    case True
    then have "d mod second \<le> d' mod second"
      using assms(2) by (simp add: minus_div_mult_eq_mod [symmetric])
    then have "?frac d \<le> ?frac d'"
      by (intro fl_mono divide_right_mono) auto
    with True show ?thesis by simp
  next
    case False
    moreover have "d div second \<le> d' div second" using assms(2) by (intro zdiv_mono1) auto
    ultimately have "of_int (d div second) + 1 \<le> (of_int (d' div second) :: rat)"
      by (metis of_int_1 of_int_add of_int_le_iff zless_imp_add1_zle order_le_neq_trans)
    then show ?thesis using frac(2) [of d] frac(1) [of d'] by linarith
  qed
  then show ?thesis
    using fl_mono whole [of d] whole [of d'] assms by (simp add: Seconds_def)
qed

lemma Seconds_pos:
  assumes "0 < d"
  shows "0 < Seconds d"
proof (cases "0 < d div second")
  case True
  then have "0 < fl (of_int (d div second))" by (intro fl_pos) simp
  then have "0 < fl (of_int (d div second)) + fl (fl (of_int (d mod second)) / fl (of_int second))"
    by (intro add_pos_nonneg) simp_all
  then show ?thesis
    unfolding Seconds_def by (rule fl_pos)
next
  case False
  then have "0 < d mod second"
    using assms by (metis div_mult_mod_eq add.left_neutral mult_nonneg_nonneg mult_not_zero mod_int_pos_iff
        pos_imp_zdiv_nonneg_iff order_le_less zero_less_numeral less_imp_le)
  then have "0 < fl (of_int (d mod second))" by (intro fl_pos) simp
  moreover have "0 < fl (of_int second)" by (intro fl_pos) simp
  ultimately have "0 < fl (fl (of_int (d mod second)) / fl (of_int second))"
    by (rule fl_pos [OF divide_pos_pos])
  then have "0 < fl (of_int (d div second)) + fl (fl (of_int (d mod second)) / fl (of_int second))"
    using assms by (intro add_nonneg_pos fl_nonneg) (simp_all add: pos_imp_zdiv_nonneg_iff)
  then show ?thesis
    unfolding Seconds_def by (rule fl_pos)
qed

definition full :: "int \<Rightarrow> rat" where "full burst = fl (of_int burst)"

lemma full_ge_1: "0 < burst \<Longrightarrow> 1 \<le> full burst"
  using fl_mono [of 1 "of_int burst"] by (simp add: full_def)

lemma refill_le: "refill fused elapsed window burst tokens \<le> full burst"
  by (simp add: refill_def full_def Let_def)

lemma refill_nonneg:
  assumes "0 < window" and "0 < elapsed" and "0 \<le> burst" and "0 \<le> tokens"
  shows "0 \<le> refill fused elapsed window burst tokens"
proof -
  let ?gain = "fl (Seconds elapsed / Seconds window) * fl (of_int burst)"
  have "0 \<le> ?gain"
    using Seconds_pos [OF assms(1)] Seconds_pos [OF assms(2)] assms(3) by (intro mult_nonneg_nonneg fl_nonneg) simp_all
  then have "0 \<le> fl (tokens + (if fused then ?gain else fl ?gain))"
    using assms(4) by (intro fl_nonneg) simp
  then show ?thesis using assms(3) by (simp add: refill_def Let_def)
qed

text \<open>A full window refills the bucket.\<close>

lemma refill_full:
  assumes "0 < window" and "window \<le> elapsed" and "elapsed < 2 ^ 63" and "0 \<le> tokens" and "0 \<le> burst"
  shows "refill fused elapsed window burst tokens = full burst"
proof -
  let ?B = "fl (of_int burst)" and ?r = "fl (Seconds elapsed / Seconds window)"
  have "1 \<le> Seconds elapsed / Seconds window"
    using Seconds_mono [of window elapsed] Seconds_pos [OF assms(1)] assms by simp
  from fl_mono [OF this] have r: "1 \<le> ?r" by simp
  then have gain: "?B \<le> ?r * ?B" using mult_right_mono [OF r, of ?B] assms(5) by simp
  from fl_mono [OF this] have "?B \<le> fl (?r * ?B)" by simp
  with gain have "?B \<le> tokens + (if fused then ?r * ?B else fl (?r * ?B))" using assms(4) by auto
  from fl_mono [OF this] have "?B \<le> fl (tokens + (if fused then ?r * ?B else fl (?r * ?B)))" by simp
  then show ?thesis by (auto simp: refill_def full_def Let_def)
qed

section \<open>The eviction\<close>

lemma oldestIP_key:
  "k \<in> gm_keys m \<Longrightarrow> fst (oldestIP m it (k, t)) \<in> gm_keys m"
proof (induction it arbitrary: k t)
  case (Cons key it)
  then show ?case by (cases "gm_lookup m key") (auto simp: gm_keys_lookup)
qed simp

lemma oldestIP_found:
  assumes "gm_order it m" and "m \<noteq> []"
  shows "fst (oldestIP m it ([], 0)) \<in> gm_keys m"
proof -
  from assms obtain key it' where it: "it = key # it'" "key \<in> gm_keys m"
    by (cases it) (auto simp: gm_order_def gm_keys_def)
  then obtain st where "gm_lookup m key = Some st" by (auto simp: gm_keys_lookup)
  with it oldestIP_key [OF it(2)] show ?thesis by simp
qed

interpretation buckets: bounded_store trackedIPs evictOldestIP
  "\<lambda>it l. gm_order it (li_ips l)" "\<lambda>ip st l. l\<lparr>li_ips := gm_put ip st (li_ips l)\<rparr>"
  "\<lambda>l. gm_wf (li_ips l)"
proof unfold_locales
  fix l :: Limiter and it ip and st :: ipLimitState
  assume wf: "gm_wf (li_ips l)"
  show "trackedIPs (evictOldestIP it l) = trackedIPs l - 1" if "gm_order it (li_ips l)" "0 < trackedIPs l"
  proof -
    have "li_ips l \<noteq> []" using that(2) by (auto simp: trackedIPs_def gm_len_def)
    with oldestIP_found [OF that(1)] wf show ?thesis
      by (simp add: trackedIPs_def evictOldestIP_def gm_len_delete)
  qed
  show "gm_wf (li_ips (evictOldestIP it l))" if "gm_order it (li_ips l)"
    using wf by (auto simp: evictOldestIP_def)
  show "trackedIPs (l\<lparr>li_ips := gm_put ip st (li_ips l)\<rparr>) \<le> Suc (trackedIPs l)"
    using wf by (simp add: trackedIPs_def gm_len_put)
qed

text \<open>It takes the bucket that was used longest ago, unless the empty key is in the map.\<close>

lemma oldestIP_le:
  assumes "k \<noteq> []" and "[] \<notin> set it"
  shows "snd (oldestIP m it (k, t)) \<le> t
    \<and> (\<forall>key st. key \<in> set it \<longrightarrow> gm_lookup m key = Some st \<longrightarrow> snd (oldestIP m it (k, t)) \<le> il_lastSeen st)"
  using assms
proof (induction it arbitrary: k t)
  case (Cons key it)
  show ?case
  proof (cases "gm_lookup m key")
    case None
    with Cons show ?thesis by auto
  next
    case (Some st)
    show ?thesis
    proof (cases "il_lastSeen st < t")
      case True
      with Cons.IH [of key "il_lastSeen st"] Cons.prems Some show ?thesis by auto
    next
      case False
      with Cons.IH [of k t] Cons.prems Some show ?thesis by auto
    qed
  qed
qed simp

section \<open>The states calls can reach\<close>

inductive limiter_step :: "Limiter \<Rightarrow> Limiter \<Rightarrow> bool" where
  taken: "acquire l = (l', Some h) \<Longrightarrow> limiter_step l l'"
| decided: "gm_order it (li_ips l) \<Longrightarrow> admit fused it now ip l = (l', ok) \<Longrightarrow> limiter_step l l'"
| released: "h < length (li_once l) \<Longrightarrow> releaseSemaphore h l = Some l' \<Longrightarrow> limiter_step l l'"

inductive_cases limiter_stepE: "limiter_step l l'"

definition limiter_inv :: "Limiter \<Rightarrow> bool" where
  "limiter_inv l \<longleftrightarrow> li_sem l \<le> li_semCap l \<and> li_sem l = count_list (li_once l) False
     \<and> 0 < li_perIPBurst l \<and> 0 < li_perIPWindow l \<and> 0 < li_maxTrackedIPs l
     \<and> gm_wf (li_ips l) \<and> int (trackedIPs l) \<le> li_maxTrackedIPs l
     \<and> (\<forall>ip st. gm_lookup (li_ips l) ip = Some st \<longrightarrow> 0 \<le> il_tokens st \<and> il_tokens st \<le> full (li_perIPBurst l))"

lemma limiter_inv_new: "limiter_inv (NewLimiter cfg)"
  by (simp add: limiter_inv_def NewLimiter_def trackedIPs_def gm_len_def)

lemma count_list_update:
  "h < length xs \<Longrightarrow> \<not> xs ! h \<Longrightarrow> count_list xs False = Suc (count_list (xs[h := True]) False)"
  by (induction xs arbitrary: h) (auto simp: nth_Cons' less_Suc_eq_0_disj)

lemma release_returns:
  assumes "limiter_inv l" and "h < length (li_once l)"
  shows "\<exists>l'. releaseSemaphore h l = Some l'"
proof -
  have "0 < li_sem l" if "\<not> li_once l ! h"
    using assms count_list_update [OF assms(2) that] by (simp add: limiter_inv_def)
  then show ?thesis by (cases "li_once l ! h") (auto simp: releaseSemaphore_def)
qed

text \<open>What \<open>admit\<close> does to the bucket of the address: the bucket it looks at, refilled.\<close>

definition bucket :: "bool \<Rightarrow> instant \<Rightarrow> string \<Rightarrow> Limiter \<Rightarrow> ipLimitState" where
  "bucket fused now ip l =
     (let state0 = (case gm_lookup (li_ips l) ip of Some state \<Rightarrow> state
            | None \<Rightarrow> \<lparr>il_tokens = full (li_perIPBurst l), il_updated = now, il_lastSeen = 0\<rparr>);
          state1 = (if il_updated state0 < now
             then state0\<lparr>il_tokens := refill fused (Sub now (il_updated state0)) (li_perIPWindow l) (li_perIPBurst l) (il_tokens state0),
                         il_updated := now\<rparr>
             else state0)
      in state1\<lparr>il_lastSeen := now\<rparr>)"

definition makePlace :: "string list \<Rightarrow> string \<Rightarrow> Limiter \<Rightarrow> Limiter" where
  "makePlace it ip l =
     (if gm_lookup (li_ips l) ip = None \<and> li_maxTrackedIPs l \<le> int (trackedIPs l) then evictOldestIP it l else l)"

lemma admit_eq:
  "admit fused it now ip l =
     (let b = bucket fused now ip l; l1 = makePlace it ip l in
      if il_tokens b < 1 then (l1\<lparr>li_ips := gm_put ip b (li_ips l1)\<rparr>, False)
      else (l1\<lparr>li_ips := gm_put ip (b\<lparr>il_tokens := fl (il_tokens b - 1)\<rparr>) (li_ips l1)\<rparr>, True))"
  by (cases "gm_lookup (li_ips l) ip") (simp_all add: admit_def bucket_def makePlace_def full_def trackedIPs_def Let_def)

lemma bucket_bounds:
  assumes inv: "limiter_inv l"
  shows "0 \<le> il_tokens (bucket fused now ip l) \<and> il_tokens (bucket fused now ip l) \<le> full (li_perIPBurst l)"
proof (cases "gm_lookup (li_ips l) ip")
  case None
  then show ?thesis using inv by (simp add: bucket_def limiter_inv_def full_def)
next
  case (Some st)
  have st: "0 \<le> il_tokens st" "il_tokens st \<le> full (li_perIPBurst l)"
    using inv Some by (auto simp: limiter_inv_def)
  have "0 < Sub now (il_updated st)" if "il_updated st < now"
    using that by (simp add: Sub_def)
  then show ?thesis
    using Some st inv refill_le refill_nonneg by (auto simp: bucket_def limiter_inv_def Let_def)
qed

text \<open>A token is taken only where there is one: what is left is not negative.\<close>

lemma taken_tokens: "1 \<le> t \<Longrightarrow> t \<le> full burst \<Longrightarrow> 0 \<le> fl (t - 1) \<and> fl (t - 1) \<le> full burst"
  using fl_mono [of "t - 1" "full burst"] by (simp add: full_def)

lemma evict_lookup: "gm_lookup (li_ips (evictOldestIP it l)) ip = Some st \<Longrightarrow> gm_lookup (li_ips l) ip = Some st"
  by (auto simp: evictOldestIP_def gomap split: if_splits)

lemma evict_config [simp]:
  "li_sem (evictOldestIP it l) = li_sem l" "li_semCap (evictOldestIP it l) = li_semCap l"
  "li_once (evictOldestIP it l) = li_once l" "li_perIPBurst (evictOldestIP it l) = li_perIPBurst l"
  "li_perIPWindow (evictOldestIP it l) = li_perIPWindow l" "li_maxTrackedIPs (evictOldestIP it l) = li_maxTrackedIPs l"
  by (simp_all add: evictOldestIP_def)

lemma admit_inv:
  assumes inv: "limiter_inv l" and it: "gm_order it (li_ips l)" and step: "admit fused it now ip l = (l', ok)"
  shows "limiter_inv l'"
proof -
  let ?b = "bucket fused now ip l" and ?l1 = "makePlace it ip l"
  obtain st where l': "l' = ?l1\<lparr>li_ips := gm_put ip st (li_ips ?l1)\<rparr>"
      and st: "0 \<le> il_tokens st \<and> il_tokens st \<le> full (li_perIPBurst l)"
    using step bucket_bounds [OF inv, of fused now ip] taken_tokens [of "il_tokens ?b" "li_perIPBurst l"]
    by (auto simp: admit_eq Let_def split: if_splits)
  have wf1: "gm_wf (li_ips ?l1)"
    using inv it buckets.evict_inv [of l it] by (auto simp: makePlace_def limiter_inv_def)
  have cfg: "li_sem l' = li_sem l" "li_semCap l' = li_semCap l" "li_once l' = li_once l" "li_perIPBurst l' = li_perIPBurst l"
      "li_perIPWindow l' = li_perIPWindow l" "li_maxTrackedIPs l' = li_maxTrackedIPs l"
    by (simp_all add: l' makePlace_def)
  have tokens: "0 \<le> il_tokens s \<and> il_tokens s \<le> full (li_perIPBurst l)" if "gm_lookup (li_ips l') k = Some s" for k s
    using that st inv evict_lookup [of it l k s]
    by (auto simp: l' gomap makePlace_def limiter_inv_def split: if_splits)
  have "int (trackedIPs l') \<le> li_maxTrackedIPs l"
  proof (cases "gm_lookup (li_ips l) ip")
    case None
    have "li_maxTrackedIPs l \<le> int (trackedIPs l) \<longleftrightarrow> nat (li_maxTrackedIPs l) \<le> trackedIPs l" by auto
    then have eq: "?l1 = (if nat (li_maxTrackedIPs l) \<le> trackedIPs l then evictOldestIP it l else l)"
      using None by (simp add: makePlace_def)
    have "trackedIPs l' \<le> nat (li_maxTrackedIPs l)"
      unfolding l' eq by (rule buckets.store_after_evict_bounded) (use inv it in \<open>auto simp: limiter_inv_def\<close>)
    moreover have "0 < li_maxTrackedIPs l" using inv by (simp add: limiter_inv_def)
    ultimately show ?thesis by linarith
  next
    case (Some s)
    then show ?thesis
      using inv by (simp add: l' makePlace_def limiter_inv_def trackedIPs_def gm_len_put gm_keys_lookup)
  qed
  moreover have "gm_wf (li_ips l')" using wf1 by (auto simp: l')
  ultimately show ?thesis
    using inv tokens unfolding limiter_inv_def cfg by blast
qed

lemma limiter_step_inv:
  assumes inv: "limiter_inv l" and "limiter_step l l'"
  shows "limiter_inv l'"
  using assms(2)
proof cases
  case (taken h)
  with inv show ?thesis
    by (auto simp: acquire_def limiter_inv_def trackedIPs_def split: if_splits)
next
  case (decided it fused now ip ok)
  then show ?thesis by (rule admit_inv [OF inv])
next
  case (released h)
  with inv count_list_update [of h "li_once l"] show ?thesis
    by (auto simp: releaseSemaphore_def limiter_inv_def trackedIPs_def split: if_splits)
qed

lemma limiter_reachable_inv: "limiter_step\<^sup>*\<^sup>* (NewLimiter cfg) l \<Longrightarrow> limiter_inv l"
  by (induction rule: rtranclp_induct) (auto intro: limiter_inv_new limiter_step_inv)

lemma Allow_steps:
  assumes inv: "limiter_inv l" and it: "gm_order it (li_ips l)"
  shows "\<exists>l' r. Allow U fused it now remoteAddr authenticated l = Some (l', r) \<and> limiter_step\<^sup>*\<^sup>* l l'"
proof (cases "snd (acquire l)")
  case None
  then show ?thesis by (cases "acquire l") (auto simp: Allow_def acquire_def split: if_splits)
next
  case (Some h)
  then obtain l1 where acq: "acquire l = (l1, Some h)" by (cases "acquire l") auto
  then have s1: "limiter_step l l1" by (rule limiter_step.taken)
  obtain l2 ok where adm: "admit fused it now (remoteIP U remoteAddr) l1 = (l2, ok)" by fastforce
  have "gm_order it (li_ips l1)" using acq it by (auto simp: acquire_def split: if_splits)
  then have s2: "limiter_step l1 l2" by (rule limiter_step.decided [OF _ adm])
  have inv2: "limiter_inv l2" using limiter_step_inv [OF limiter_step_inv [OF inv s1] s2] .
  have "h < length (li_once l1)" using acq by (auto simp: acquire_def split: if_splits)
  moreover have "li_once l2 = li_once l1"
    using adm by (auto simp: admit_eq makePlace_def Let_def split: if_splits)
  ultimately have h: "h < length (li_once l2)" by simp
  obtain l3 where rel: "releaseSemaphore h l2 = Some l3"
    using release_returns [OF inv2 h] by blast
  have s3: "limiter_step l2 l3" by (rule limiter_step.released [OF h rel])
  show ?thesis
    using acq adm rel s1 s2 s3
    by (cases authenticated; cases ok) (auto simp: Allow_def intro: rtranclp.rtrancl_into_rtrancl)
qed

section \<open>Runs of the guarded section\<close>

type_synonym admit_call = "string list \<times> string"

text \<open>Requests at one instant, and how many of address \<open>ip\<close> were admitted.\<close>

fun admit_run :: "bool \<Rightarrow> instant \<Rightarrow> string \<Rightarrow> admit_call list \<Rightarrow> Limiter \<Rightarrow> Limiter \<times> nat" where
  "admit_run fused now ip [] l = (l, 0)"
| "admit_run fused now ip ((it, a) # calls) l =
     (let (l1, ok) = admit fused it now a l; (l2, n) = admit_run fused now ip calls l1
      in (l2, n + (if ok \<and> a = ip then 1 else 0)))"

definition in_room :: "string set \<Rightarrow> Limiter \<Rightarrow> bool" where
  "in_room K l \<longleftrightarrow> finite K \<and> int (card K) \<le> li_maxTrackedIPs l \<and> gm_wf (li_ips l) \<and> gm_keys (li_ips l) \<subseteq> K"

lemma in_room_keeps:
  assumes room: "in_room K l" and a: "a \<in> K"
  shows "makePlace it a l = l"
proof (cases "gm_lookup (li_ips l) a")
  case None
  have "gm_keys (li_ips l) \<subset> K"
    using room a None by (auto simp: in_room_def gm_keys_lookup)
  then have "card (gm_keys (li_ips l)) < card K"
    using room by (intro psubset_card_mono) (auto simp: in_room_def)
  then show ?thesis
    using room by (simp add: makePlace_def trackedIPs_def gm_len_card in_room_def)
qed (simp add: makePlace_def)

lemma admit_in_room:
  assumes room: "in_room K l" and a: "a \<in> K" and step: "admit fused it now a l = (l', ok)"
  shows "in_room K l'" and "li_perIPBurst l' = li_perIPBurst l"
    and "ok = (1 \<le> il_tokens (bucket fused now a l))"
    and "gm_lookup (li_ips l') k = (if k = a then Some (let b = bucket fused now a l in
           if ok then b\<lparr>il_tokens := fl (il_tokens b - 1)\<rparr> else b) else gm_lookup (li_ips l) k)"
  using step room a in_room_keeps [OF room a, of it]
  by (auto simp: admit_eq Let_def in_room_def gomap split: if_splits)

text \<open>A bucket that is up to date and holds at most \<open>k\<close> tokens admits at most \<open>k\<close> requests.\<close>

lemma run_bound:
  assumes "in_room K l" and "\<forall>(it, a) \<in> set calls. a \<in> K" and "k \<le> 2 ^ 53"
    and "gm_lookup (li_ips l) ip = Some st" and "now \<le> il_updated st" and "il_tokens st \<le> of_nat k"
    and "admit_run fused now ip calls l = (l', n)"
  shows "n \<le> k"
  using assms
proof (induction calls arbitrary: l st k n)
  case (Cons c calls)
  obtain it a where c: "c = (it, a)" by fastforce
  obtain l1 ok where step: "admit fused it now a l = (l1, ok)" by fastforce
  obtain m where run: "admit_run fused now ip calls l1 = (l', m)" and n: "n = m + (if ok \<and> a = ip then 1 else 0)"
    using Cons.prems(7) step by (auto simp: c split: prod.splits)
  have aK: "a \<in> K" and rest: "\<forall>(it, a) \<in> set calls. a \<in> K" using Cons.prems(2) by (auto simp: c)
  note adm = admit_in_room [OF Cons.prems(1) aK step]
  show ?case
  proof (cases "a = ip")
    case False
    then have "gm_lookup (li_ips l1) ip = Some st" using adm(4) [of ip] Cons.prems(4) by simp
    from Cons.IH [OF adm(1) rest Cons.prems(3) this Cons.prems(5,6) run] show ?thesis using n False by simp
  next
    case True
    then have b: "bucket fused now a l = st\<lparr>il_lastSeen := now\<rparr>"
      using Cons.prems(4,5) by (simp add: bucket_def)
    show ?thesis
    proof (cases ok)
      case False
      then have "gm_lookup (li_ips l1) ip = Some (st\<lparr>il_lastSeen := now\<rparr>)" using adm(4) [of ip] True b by simp
      from Cons.IH [OF adm(1) rest Cons.prems(3) this _ _ run] Cons.prems(5,6) show ?thesis using n False by simp
    next
      case ok: True
      then have one: "1 \<le> il_tokens st" using adm(3) b by simp
      with Cons.prems(6) have "(1 :: rat) \<le> of_nat k" by linarith
      then obtain k' where k: "k = Suc k'" by (cases k) auto
      have "il_tokens st - 1 \<le> of_nat k'" using Cons.prems(6) k by simp
      from fl_mono [OF this] have le: "fl (il_tokens st - 1) \<le> of_nat k'"
        using fl_of_nat [of k'] Cons.prems(3) k by simp
      have "gm_lookup (li_ips l1) ip = Some (st\<lparr>il_lastSeen := now, il_tokens := fl (il_tokens st - 1)\<rparr>)"
        using adm(4) [of ip] True b ok by simp
      from Cons.IH [OF adm(1) rest _ this _ _ run, of k'] Cons.prems(3,5) le k have "m \<le> k'" by simp
      then show ?thesis using n k by simp
    qed
  qed
qed simp

section \<open>Properties\<close>

text \<open>C24 (invariant). Whatever calls run, in any interleaving of their steps, no more requests are
  in progress than the configured number, each place taken is given back exactly by one release
  function that has not run yet, a release never blocks, no more buckets are kept than configured,
  and every bucket holds at least zero tokens (one is taken only where one is left) and at most the
  burst. \<open>Allow\<close> always returns, and is itself such a sequence of steps.\<close>

theorem limiter_bounds:
  assumes "limiter_step\<^sup>*\<^sup>* (NewLimiter cfg) l"
    and "gm_order it (li_ips l)"
  shows "li_sem l \<le> li_semCap l \<and> li_sem l = count_list (li_once l) False
    \<and> (\<forall>h < length (li_once l). releaseSemaphore h l \<noteq> None)
    \<and> int (trackedIPs l) \<le> li_maxTrackedIPs l
    \<and> (\<forall>ip st. gm_lookup (li_ips l) ip = Some st \<longrightarrow> 0 \<le> il_tokens st \<and> il_tokens st \<le> fl (of_int (li_perIPBurst l)))
    \<and> (\<exists>l' r. Allow U fused it now remoteAddr authenticated l = Some (l', r) \<and> limiter_step\<^sup>*\<^sup>* (NewLimiter cfg) l')"
proof -
  have inv: "limiter_inv l" by (rule limiter_reachable_inv [OF assms(1)])
  have "\<forall>h < length (li_once l). releaseSemaphore h l \<noteq> None"
    using release_returns [OF inv] by fastforce
  moreover obtain l' r where "Allow U fused it now remoteAddr authenticated l = Some (l', r)" "limiter_step\<^sup>*\<^sup>* l l'"
    using Allow_steps [OF inv assms(2)] by blast
  then have "\<exists>l' r. Allow U fused it now remoteAddr authenticated l = Some (l', r) \<and> limiter_step\<^sup>*\<^sup>* (NewLimiter cfg) l'"
    using rtranclp_trans [OF assms(1)] by blast
  ultimately show ?thesis
    using inv unfolding limiter_inv_def full_def by blast
qed

definition ex_config :: LimitConfig where
  "ex_config = \<lparr>lc_MaxConcurrent = 2, lc_PerIPBurst = 1, lc_PerIPWindow = minute, lc_MaxTrackedIPs = 4\<rparr>"

definition ex_tables :: unicode_tables where
  "ex_tables = \<lparr>uni_lower = (\<lambda>s. s), uni_upper = (\<lambda>s. s)\<rparr>"

text \<open>A limiter in use: one address took its only token, came back after a third of the window,
  which is too early, while the place of its first request is still taken.\<close>

definition ex_used :: Limiter where
  "ex_used = fst (admit False [] 5 ''192.0.2.1'' (fst (acquire (NewLimiter ex_config))))"

definition ex_refused :: Limiter where
  "ex_refused = fst (admit False [''192.0.2.1''] (20 * second + 5) ''192.0.2.1'' ex_used)"

lemma ex_acquire: "snd (acquire (NewLimiter ex_config)) = Some 0"
  by (simp add: acquire_def NewLimiter_def ex_config_def)

lemma ex_used_eq:
  "ex_used = \<lparr>li_sem = 1, li_semCap = 2, li_perIPBurst = 1, li_perIPWindow = minute, li_maxTrackedIPs = 4,
     li_ips = [(''192.0.2.1'', \<lparr>il_tokens = 0, il_updated = 5, il_lastSeen = 5\<rparr>)], li_once = [False]\<rparr>"
  by (simp add: ex_used_def admit_eq bucket_def makePlace_def trackedIPs_def full_def acquire_def NewLimiter_def ex_config_def
      gm_put_def gm_len_def Let_def)

lemma Seconds_whole: "n \<le> 2 ^ 53 \<Longrightarrow> Seconds (int n * second) = of_nat n"
  by (simp add: Seconds_def fl_of_nat)

text \<open>A third, rounded to 53 bits.\<close>

lemma fl_third: "fl (1 / 3) = 6004799503160661 / 2 ^ 54"
proof -
  have "expo (1 / 3) = - 2" by (rule expo_unique) (simp_all add: power_int_minus)
  moreover have "\<lfloor>18014398509481984 / 3 :: rat\<rfloor> = 6004799503160661" by (simp add: floor_eq_iff)
  then have "round_even (18014398509481984 / 3) = 6004799503160661" by (simp add: round_even_def Let_def)
  ultimately show ?thesis by (simp add: fl_of_pos power_int_minus)
qed

lemma ex_second_call:
  "admit False [''192.0.2.1''] (20 * second + 5) ''192.0.2.1'' ex_used =
     (\<lparr>li_sem = 1, li_semCap = 2, li_perIPBurst = 1, li_perIPWindow = minute, li_maxTrackedIPs = 4,
       li_ips = [(''192.0.2.1'', \<lparr>il_tokens = 6004799503160661 / 2 ^ 54, il_updated = 20 * second + 5, il_lastSeen = 20 * second + 5\<rparr>)],
       li_once = [False]\<rparr>, False)"
proof -
  have "Seconds (20 * second) = 20" "Seconds minute = 60"
    using Seconds_whole [of 20] Seconds_whole [of 60] by simp_all
  moreover have "Sub (20 * second + 5) 5 = 20 * second" by (simp add: Sub_def)
  ultimately have "refill False (Sub (20 * second + 5) 5) minute 1 0 = fl (1 / 3)"
    using fl_mono [of "1 / 3" 1] by (simp add: refill_def Let_def del: mult_numeral_left_semiring_numeral)
  then show ?thesis
    by (simp add: ex_used_eq admit_eq bucket_def makePlace_def fl_third gm_put_def gm_lookup_def Let_def)
qed

lemmas ex_refused_eq = ex_refused_def [unfolded ex_second_call fst_conv]

lemma ex_used_order: "gm_order [''192.0.2.1''] (li_ips ex_used)"
  by (simp add: ex_used_def) code_simp

lemma ex_refused_reached: "limiter_step\<^sup>*\<^sup>* (NewLimiter ex_config) ex_refused"
proof -
  have "acquire (NewLimiter ex_config) = (fst (acquire (NewLimiter ex_config)), Some 0)"
    by (metis ex_acquire prod.collapse)
  then have "limiter_step (NewLimiter ex_config) (fst (acquire (NewLimiter ex_config)))" by (rule limiter_step.taken)
  moreover have "limiter_step (fst (acquire (NewLimiter ex_config))) ex_used"
    unfolding ex_used_def by (rule limiter_step.decided [OF _ prod.collapse [symmetric]]) (simp add: acquire_def NewLimiter_def ex_config_def gm_order_def)
  moreover have "limiter_step ex_used ex_refused"
    unfolding ex_refused_def by (rule limiter_step.decided [OF ex_used_order prod.collapse [symmetric]])
  ultimately show ?thesis by (meson rtranclp.rtrancl_into_rtrancl rtranclp.rtrancl_refl)
qed

theorem limiter_bounds_witness:
  "li_sem ex_refused = count_list (li_once ex_refused) False \<and> releaseSemaphore 0 ex_refused \<noteq> None
    \<and> int (trackedIPs ex_refused) \<le> 4 \<and> li_sem ex_refused = 1 \<and> trackedIPs ex_refused = 1
    \<and> (\<exists>st. gm_lookup (li_ips ex_refused) ''192.0.2.1'' = Some st \<and> 0 \<le> il_tokens st \<and> il_tokens st \<le> fl 1)
    \<and> Allow ex_tables False [''192.0.2.1''] (20 * second + 6) ''192.0.2.1:9'' False ex_refused \<noteq> None"
proof -
  have order: "gm_order [''192.0.2.1''] (li_ips ex_refused)" by (simp add: ex_refused_eq gm_order_def)
  note bounds = limiter_bounds [OF ex_refused_reached order, of ex_tables False "20 * second + 6" "''192.0.2.1:9''" False]
  have "li_sem ex_refused = 1" "trackedIPs ex_refused = 1" "li_maxTrackedIPs ex_refused = 4" "length (li_once ex_refused) = 1"
      "li_perIPBurst ex_refused = 1" "\<exists>st. gm_lookup (li_ips ex_refused) ''192.0.2.1'' = Some st"
    by (simp_all add: ex_refused_eq trackedIPs_def gm_len_def gm_lookup_def)
  with bounds show ?thesis by auto
qed

text \<open>One call more than a run that is bounded by one token less.\<close>

lemma admit_run_bound:
  assumes "in_room K l" and "\<forall>(it, a) \<in> set calls. a \<in> K" and "admit_run fused now ip calls l = (l', n)" and "limiter_inv l"
    and "full (li_perIPBurst l) = of_nat B" and B: "B \<le> 2 ^ 53" "0 < B"
  shows "n \<le> B"
  using assms(1-5)
proof (induction calls arbitrary: l n)
  case (Cons c calls)
  obtain it a where c: "c = (it, a)" by fastforce
  obtain l1 ok where step: "admit fused it now a l = (l1, ok)" by fastforce
  obtain m where run: "admit_run fused now ip calls l1 = (l', m)" and n: "n = m + (if ok \<and> a = ip then 1 else 0)"
    using Cons.prems(3) step by (auto simp: c split: prod.splits)
  have aK: "a \<in> K" and rest: "\<forall>(it, a) \<in> set calls. a \<in> K" using Cons.prems(2) by (auto simp: c)
  note adm = admit_in_room [OF Cons.prems(1) aK step]
  have "makePlace (map fst (li_ips l)) a l = makePlace it a l"
    using in_room_keeps [OF Cons.prems(1) aK] by simp
  then have "admit fused (map fst (li_ips l)) now a l = (l1, ok)" using step by (simp add: admit_eq)
  moreover have "gm_wf (li_ips l)" using Cons.prems(1) by (simp add: in_room_def)
  ultimately have inv1: "limiter_inv l1"
    using admit_inv [OF Cons.prems(4) gm_order_self] by blast
  show ?case
  proof (cases "a = ip \<and> ok")
    case False
    then show ?thesis using Cons.IH [OF adm(1) rest run inv1] adm(2) Cons.prems(5) n by auto
  next
    case True
    let ?b = "bucket fused now a l"
    have upd: "now \<le> il_updated ?b"
      by (cases "gm_lookup (li_ips l) a") (auto simp: bucket_def Let_def)
    have "il_tokens ?b - 1 \<le> of_nat (B - 1)"
      using bucket_bounds [OF Cons.prems(4), of fused now a] Cons.prems(5) B(2) by (simp add: of_nat_diff)
    from fl_mono [OF this] have "fl (il_tokens ?b - 1) \<le> of_nat (B - 1)"
      using fl_of_nat [of "B - 1"] B(1) by simp
    moreover have "gm_lookup (li_ips l1) ip = Some (?b\<lparr>il_tokens := fl (il_tokens ?b - 1)\<rparr>)"
      using adm(4) [of ip] True by (simp add: Let_def)
    ultimately have "m \<le> B - 1"
      using run_bound [OF adm(1) rest _ _ _ _ run, of "B - 1"] upd B(1) by simp
    then show ?thesis using n True B(2) by simp
  qed
qed simp

text \<open>C25 (safety). At one instant an address gets at most its burst of requests through, however its
  requests mix with those of other addresses, as long as the addresses fit into the table (so
  that no bucket is evicted and started afresh).\<close>

theorem burst_bound:
  assumes "limiter_step\<^sup>*\<^sup>* (NewLimiter cfg) l" and "li_perIPBurst l \<le> 2 ^ 53"
    and "in_room K l" and "\<forall>(it, a) \<in> set calls. a \<in> K"
    and "admit_run fused now ip calls l = (l', n)"
  shows "int n \<le> li_perIPBurst l"
proof -
  have inv: "limiter_inv l" by (rule limiter_reachable_inv [OF assms(1)])
  define B where "B = nat (li_perIPBurst l)"
  have B: "B \<le> 2 ^ 53" "full (li_perIPBurst l) = of_nat B" "0 < B" "int B = li_perIPBurst l"
    using inv assms(2) fl_of_nat [of B] by (auto simp: B_def full_def limiter_inv_def)
  show ?thesis using admit_run_bound [OF assms(3-5) inv B(2,1,3)] B(4) by linarith
qed

theorem burst_bound_witness:
  "int (snd (admit_run False 5 ''a'' [([], ''a''), ([], ''b''), ([], ''a'')] (NewLimiter ex_config))) \<le> 1"
proof -
  obtain l' n where run: "admit_run False 5 ''a'' [([], ''a''), ([], ''b''), ([], ''a'')] (NewLimiter ex_config) = (l', n)"
    by fastforce
  have "in_room {''a'', ''b''} (NewLimiter ex_config)"
    by (simp add: in_room_def NewLimiter_def ex_config_def)
  with burst_bound [OF rtranclp.rtrancl_refl _ _ _ run, of "{''a'', ''b''}"] run show ?thesis
    by (simp add: NewLimiter_def ex_config_def)
qed

text \<open>C26 (liveness). An address that has been quiet for a whole window is admitted again: its
  bucket is full then, in spite of the rounding of the arithmetic, whether it was kept or evicted
  in the meantime.\<close>

theorem admitted_after_window:
  assumes "limiter_step\<^sup>*\<^sup>* (NewLimiter cfg) l" and "li_perIPWindow l < 2 ^ 63"
    and "\<And>st. gm_lookup (li_ips l) ip = Some st \<Longrightarrow> il_updated st + li_perIPWindow l \<le> now"
  shows "snd (admit fused it now ip l)"
proof -
  have inv: "limiter_inv l" by (rule limiter_reachable_inv [OF assms(1)])
  have win: "0 < li_perIPWindow l" "0 < li_perIPBurst l" using inv by (auto simp: limiter_inv_def)
  have "il_tokens (bucket fused now ip l) = full (li_perIPBurst l)"
  proof (cases "gm_lookup (li_ips l) ip")
    case None
    then show ?thesis by (simp add: bucket_def)
  next
    case (Some st)
    have "li_perIPWindow l \<le> Sub now (il_updated st)" "Sub now (il_updated st) < 2 ^ 63"
      using assms(2) assms(3) [of st] Some by (auto simp: Sub_def)
    then have "refill fused (Sub now (il_updated st)) (li_perIPWindow l) (li_perIPBurst l) (il_tokens st) = full (li_perIPBurst l)"
      using refill_full [OF win(1)] inv Some by (auto simp: limiter_inv_def)
    moreover have "il_updated st < now" using assms(3) [OF Some] win(1) by simp
    ultimately show ?thesis using Some by (simp add: bucket_def Let_def)
  qed
  with full_ge_1 [OF win(2)] show ?thesis by (simp add: admit_eq Let_def)
qed

text \<open>The address of \<open>ex_refused\<close>, whose bucket holds a third of a token, rounded, a window later.\<close>

theorem admitted_after_window_witness:
  "(\<exists>st. gm_lookup (li_ips ex_refused) ''192.0.2.1'' = Some st \<and> il_updated st = 20 * second + 5
      \<and> il_tokens st < 1 / 3 \<and> 0 < il_tokens st)
    \<and> \<not> snd (admit True [''192.0.2.1''] (20 * second + 5) ''192.0.2.1'' ex_refused)
    \<and> snd (admit True [''192.0.2.1''] (80 * second + 5) ''192.0.2.1'' ex_refused)"
proof (intro conjI)
  show "\<exists>st. gm_lookup (li_ips ex_refused) ''192.0.2.1'' = Some st \<and> il_updated st = 20 * second + 5
      \<and> il_tokens st < 1 / 3 \<and> 0 < il_tokens st"
    by (simp add: ex_refused_eq gm_lookup_def)
  show "\<not> snd (admit True [''192.0.2.1''] (20 * second + 5) ''192.0.2.1'' ex_refused)"
    by (simp add: ex_refused_eq admit_eq bucket_def gm_lookup_def Let_def)
  show "snd (admit True [''192.0.2.1''] (80 * second + 5) ''192.0.2.1'' ex_refused)"
  proof (rule admitted_after_window [OF ex_refused_reached])
    show "li_perIPWindow ex_refused < 2 ^ 63" by (simp add: ex_refused_eq)
    show "il_updated st + li_perIPWindow ex_refused \<le> 80 * second + 5"
      if "gm_lookup (li_ips ex_refused) ''192.0.2.1'' = Some st" for st
      using that by (auto simp: ex_refused_eq gm_lookup_def)
  qed
qed

end
