(* ===== verification/Udp_Codec.thy ===== *)
theory Udp_Codec
  imports Prelude
begin

unbundle bit_operations_syntax

text \<open>
  The UDP fragment codec (\<open>internal/quicx/udp_codec.go\<close>): one UDP packet becomes one or more
  HTTP Datagram payloads, and the receiver reassembles them.

  The methods run under the codec's mutex, so each is one atomic step. \<open>Decode\<close> takes the
  clock's reading \<open>now\<close> and the order \<open>it\<close> in which \<open>evictOldestLocked\<close>'s \<open>range\<close> visits
  the pending map (only ties between equally old assemblies depend on it). An index out of
  range, which Go answers with a panic, is the error \<open>PartsPanic\<close>.

  Lemmas: \<open>ud_wf\<close>, the invariant of the decoder, is kept by every frame and bounds its memory;
  \<open>from_frames\<close> records where every buffered byte came from; \<open>asm_of\<close> describes the assembly
  of a packet of which a set of fragments has arrived. The properties are
  at the end.
\<close>

section \<open>Constants, types, errors\<close>

abbreviation defaultUDPMaxPacketSize :: int where "defaultUDPMaxPacketSize \<equiv> 16 * 1024"
definition udpFragmentVersion :: byte where "udpFragmentVersion = 2"
abbreviation udpFragmentHeaderSize :: nat where "udpFragmentHeaderSize \<equiv> 7"
abbreviation udpFragmentPayloadSize :: nat where "udpFragmentPayloadSize \<equiv> 1000"
abbreviation udpFragmentMaxCount :: nat where "udpFragmentMaxCount \<equiv> 64"
abbreviation udpFragmentMaxAssemblies :: nat where "udpFragmentMaxAssemblies \<equiv> 16"
abbreviation udpFragmentAssemblyTTL :: duration where "udpFragmentAssemblyTTL \<equiv> 2 * second"

datatype udp_error =
    EmptyPacket | PacketTooLarge | TooManyFragments | SequenceExhausted
  | InvalidFrame | InvalidIndex | InvalidSize | ConflictingCount | IncompleteAssembly | PartsPanic

record udpFragmentEncoder =
  ue_maxPacket :: int
  ue_nextSeq :: "32 word"
  ue_exhausted :: bool

record udpFragmentAssembly =
  ua_count :: nat
  ua_parts :: "bytes option list"
  ua_received :: nat
  ua_total :: nat
  ua_expiresAt :: instant

record udpFragmentDecoder =
  ud_maxPacket :: int
  ud_pending :: "(32 word, udpFragmentAssembly) gomap"

section \<open>The encoder\<close>

definition newUDPFragmentEncoder :: "int \<Rightarrow> udpFragmentEncoder" where
  "newUDPFragmentEncoder maxPacket =
     \<lparr>ue_maxPacket = (if maxPacket \<le> 0 then defaultUDPMaxPacketSize else maxPacket),
      ue_nextSeq = 0, ue_exhausted = False\<rparr>"

definition mkFrame :: "32 word \<Rightarrow> nat \<Rightarrow> nat \<Rightarrow> bytes \<Rightarrow> bytes" where
  "mkFrame sequence index count payload =
     [udpFragmentVersion] @ PutUint32 sequence @ [of_nat index, of_nat count] @ payload"

function framesFrom :: "32 word \<Rightarrow> nat \<Rightarrow> bytes \<Rightarrow> nat \<Rightarrow> nat \<Rightarrow> bytes list" where
  "framesFrom sequence count packet index offset =
     (if offset < length packet then
        let end = min (offset + udpFragmentPayloadSize) (length packet) in
        mkFrame sequence index count (take (end - offset) (drop offset packet))
        # framesFrom sequence count packet (index + 1) (offset + udpFragmentPayloadSize)
      else [])"
  by pat_completeness auto
termination
  by (relation "measure (\<lambda>(sequence, count, packet, index, offset). length packet - offset)") auto

declare framesFrom.simps [simp del]

definition Encode :: "bytes \<Rightarrow> udpFragmentEncoder \<Rightarrow> udpFragmentEncoder \<times> (udp_error + bytes list)" where
  "Encode packet e =
     (if length packet = 0 then (e, Inl EmptyPacket)
      else if ue_maxPacket e < int (length packet) then (e, Inl PacketTooLarge)
      else
        let count = (length packet + udpFragmentPayloadSize - 1) div udpFragmentPayloadSize in
        if count = 0 \<or> udpFragmentMaxCount < count then (e, Inl TooManyFragments)
        else if ue_exhausted e then (e, Inl SequenceExhausted)
        else
          let sequence = ue_nextSeq e;
              e' = (if sequence = NOT 0 then e\<lparr>ue_exhausted := True\<rparr>
                    else e\<lparr>ue_nextSeq := ue_nextSeq e + 1\<rparr>)
          in (e', Inr (framesFrom sequence count packet 0 0)))"

section \<open>The decoder\<close>

definition newUDPFragmentDecoder :: "int \<Rightarrow> udpFragmentDecoder" where
  "newUDPFragmentDecoder maxPacket =
     \<lparr>ud_maxPacket = (if maxPacket \<le> 0 then defaultUDPMaxPacketSize else maxPacket), ud_pending = []\<rparr>"

text \<open>The checks of \<open>Decode\<close> that need no state: sequence, index, count and payload.\<close>

definition parseFrame :: "bytes \<Rightarrow> udp_error + (32 word \<times> nat \<times> nat \<times> bytes)" where
  "parseFrame frame =
     (if length frame \<le> udpFragmentHeaderSize \<or> hd frame \<noteq> udpFragmentVersion then Inl InvalidFrame
      else
        let sequence = Uint32 (take 4 (drop 1 frame));
            index = unat (frame ! 5);
            count = unat (frame ! 6);
            payload = drop udpFragmentHeaderSize frame
        in if count = 0 \<or> udpFragmentMaxCount < count \<or> count \<le> index then Inl InvalidIndex
           else if length payload = 0 \<or> udpFragmentPayloadSize < length payload then Inl InvalidSize
           else Inr (sequence, index, count, payload))"

definition pruneExpiredLocked :: "instant \<Rightarrow> udpFragmentDecoder \<Rightarrow> udpFragmentDecoder" where
  "pruneExpiredLocked now d =
     d\<lparr>ud_pending := filter (\<lambda>(sequence, assembly). now < ua_expiresAt assembly) (ud_pending d)\<rparr>"

fun oldestOf ::
  "(32 word, udpFragmentAssembly) gomap \<Rightarrow> 32 word list \<Rightarrow> (32 word \<times> instant) option \<Rightarrow> (32 word \<times> instant) option" where
  "oldestOf m [] found = found"
| "oldestOf m (sequence # it) found =
     (case gm_lookup m sequence of
        None \<Rightarrow> oldestOf m it found
      | Some assembly \<Rightarrow>
          oldestOf m it
            (case found of
               None \<Rightarrow> Some (sequence, ua_expiresAt assembly)
             | Some (_, oldestExpiry) \<Rightarrow>
                 if ua_expiresAt assembly < oldestExpiry then Some (sequence, ua_expiresAt assembly) else found))"

definition evictOldestLocked :: "32 word list \<Rightarrow> udpFragmentDecoder \<Rightarrow> udpFragmentDecoder" where
  "evictOldestLocked it d =
     (case oldestOf (ud_pending d) it None of
        None \<Rightarrow> d
      | Some (oldestSequence, _) \<Rightarrow> d\<lparr>ud_pending := gm_delete oldestSequence (ud_pending d)\<rparr>)"

definition newAssembly :: "nat \<Rightarrow> instant \<Rightarrow> udpFragmentAssembly" where
  "newAssembly count now =
     \<lparr>ua_count = count, ua_parts = replicate count None, ua_received = 0, ua_total = 0,
      ua_expiresAt = now + udpFragmentAssemblyTTL\<rparr>"

text \<open>The part of \<open>Decode\<close> after the assembly of the sequence is found or created.\<close>

definition addFragment ::
  "32 word \<Rightarrow> nat \<Rightarrow> bytes \<Rightarrow> udpFragmentAssembly \<Rightarrow> udpFragmentDecoder
     \<Rightarrow> udpFragmentDecoder \<times> (udp_error + bytes option)" where
  "addFragment sequence index payload assembly d =
     (if length (ua_parts assembly) \<le> index then (d, Inl PartsPanic)
      else if ua_parts assembly ! index \<noteq> None then (d, Inr None)
      else if ud_maxPacket d < int (ua_total assembly + length payload)
        then (d\<lparr>ud_pending := gm_delete sequence (ud_pending d)\<rparr>, Inl PacketTooLarge)
      else
        let assembly' = assembly\<lparr>ua_parts := (ua_parts assembly)[index := Some payload],
                          ua_received := ua_received assembly + 1,
                          ua_total := ua_total assembly + length payload\<rparr>;
            d' = d\<lparr>ud_pending := gm_put sequence assembly' (ud_pending d)\<rparr>
        in if ua_received assembly' \<noteq> ua_count assembly' then (d', Inr None)
           else case those (ua_parts assembly') of
               None \<Rightarrow> (d', Inl IncompleteAssembly)
             | Some parts \<Rightarrow> (d'\<lparr>ud_pending := gm_delete sequence (ud_pending d')\<rparr>, Inr (Some (concat parts))))"

definition Decode ::
  "32 word list \<Rightarrow> instant \<Rightarrow> bytes \<Rightarrow> udpFragmentDecoder
     \<Rightarrow> udpFragmentDecoder \<times> (udp_error + bytes option)" where
  "Decode it now frame d =
     (case parseFrame frame of
        Inl e \<Rightarrow> (d, Inl e)
      | Inr (sequence, index, count, payload) \<Rightarrow>
          let d1 = pruneExpiredLocked now d in
          case gm_lookup (ud_pending d1) sequence of
            None \<Rightarrow>
              let d2 = (if udpFragmentMaxAssemblies \<le> gm_len (ud_pending d1) then evictOldestLocked it d1 else d1);
                  assembly = newAssembly count now
              in addFragment sequence index payload assembly
                   (d2\<lparr>ud_pending := gm_put sequence assembly (ud_pending d2)\<rparr>)
          | Some assembly \<Rightarrow>
              if ua_count assembly \<noteq> count
              then (d1\<lparr>ud_pending := gm_delete sequence (ud_pending d1)\<rparr>, Inl ConflictingCount)
              else addFragment sequence index payload assembly d1)"

definition pendingCount :: "udpFragmentDecoder \<Rightarrow> nat" where
  "pendingCount d = gm_len (ud_pending d)"

section \<open>Frames\<close>

text \<open>The fragments of a packet, by index.\<close>

definition fragCount :: "bytes \<Rightarrow> nat" where
  "fragCount packet = (length packet + 999) div 1000"

definition chunk :: "bytes \<Rightarrow> nat \<Rightarrow> bytes" where
  "chunk packet i = take 1000 (drop (1000 * i) packet)"

lemma fragCount_div:
  "(length packet + udpFragmentPayloadSize - 1) div udpFragmentPayloadSize = fragCount packet"
  "(999 + length packet) div 1000 = fragCount packet"
  by (simp_all add: fragCount_def add.commute)

lemma fragCount_less: "i < fragCount packet \<longleftrightarrow> 1000 * i < length packet"
  by (auto simp: fragCount_def)

lemma framesFrom_eq:
  "framesFrom seq count packet i (1000 * i) = map (\<lambda>i. mkFrame seq i count (chunk packet i)) [i..<fragCount packet]"
proof (induction "fragCount packet - i" arbitrary: i)
  case 0
  then show ?case
    using fragCount_less [of i packet] by (simp add: framesFrom.simps)
next
  case (Suc n)
  then have i: "i < fragCount packet"
    by simp
  then have off: "1000 * i < length packet"
    by (simp only: fragCount_less)
  have "take (min (1000 * i + 1000) (length packet) - 1000 * i) (drop (1000 * i) packet) = chunk packet i"
    by (simp add: chunk_def min_def)
  moreover have "framesFrom seq count packet (i + 1) (1000 * i + 1000)
      = map (\<lambda>i. mkFrame seq i count (chunk packet i)) [Suc i..<fragCount packet]"
    using Suc.hyps(1) [of "Suc i"] Suc.hyps(2) by (simp add: algebra_simps)
  ultimately show ?case
    using i off by (simp add: framesFrom.simps [of seq count packet i] upt_conv_Cons Let_def)
qed

lemma concat_chunks_from:
  "concat (map (chunk packet) [i..<fragCount packet]) = drop (1000 * i) packet"
proof (induction "fragCount packet - i" arbitrary: i)
  case 0
  then show ?case
    using fragCount_less [of i packet] by simp
next
  case (Suc n)
  then have "concat (map (chunk packet) [Suc i..<fragCount packet]) = drop (1000 * Suc i) packet"
    by (intro Suc.hyps(1)) simp
  moreover have "chunk packet i @ drop (1000 * Suc i) packet = drop (1000 * i) packet"
    unfolding chunk_def by (metis append_take_drop_id drop_drop mult_Suc_right)
  ultimately show ?case
    using Suc.hyps(2) by (simp add: upt_conv_Cons)
qed

lemma concat_chunks: "concat (map (chunk packet) [0..<fragCount packet]) = packet"
  using concat_chunks_from [of packet 0] by simp

lemma chunk_length: "i < fragCount packet \<Longrightarrow> 0 < length (chunk packet i) \<and> length (chunk packet i) \<le> 1000"
  using fragCount_less [of i packet] by (simp add: chunk_def)

lemma Encode_Inr:
  "Encode packet e = (e', Inr frames) \<longleftrightarrow>
     packet \<noteq> [] \<and> int (length packet) \<le> ue_maxPacket e \<and> fragCount packet \<le> 64 \<and> \<not> ue_exhausted e
     \<and> e' = (if ue_nextSeq e = NOT 0 then e\<lparr>ue_exhausted := True\<rparr> else e\<lparr>ue_nextSeq := ue_nextSeq e + 1\<rparr>)
     \<and> frames = map (\<lambda>i. mkFrame (ue_nextSeq e) i (fragCount packet) (chunk packet i)) [0..<fragCount packet]"
proof -
  have "framesFrom seq n packet 0 0 = map (\<lambda>i. mkFrame seq i n (chunk packet i)) [0..<fragCount packet]" for seq n
    using framesFrom_eq [of seq n packet 0] by simp
  moreover have "packet \<noteq> [] \<Longrightarrow> fragCount packet \<noteq> 0"
    using fragCount_less [of 0 packet] by auto
  ultimately show ?thesis
    using fragCount_div [of packet] by (auto simp: Encode_def Let_def not_less)
qed

lemma length_mkFrame [simp]: "length (mkFrame seq i n payload) = 7 + length payload"
  by (simp add: mkFrame_def)

lemma mkFrame_nth:
  "mkFrame seq i n payload ! 5 = of_nat i" "mkFrame seq i n payload ! 6 = of_nat n"
  "drop 7 (mkFrame seq i n payload) = payload" "take 4 (drop (Suc 0) (mkFrame seq i n payload)) = PutUint32 seq"
  "take 4 (drop 1 (mkFrame seq i n payload)) = PutUint32 seq"
  "hd (mkFrame seq i n payload) = udpFragmentVersion"
  by (simp_all add: mkFrame_def nth_append)

lemma unat_byte_of_nat: "k < 256 \<Longrightarrow> unat (of_nat k :: byte) = k"
  by (simp add: unsigned_of_nat take_bit_eq_mod)

lemma parseFrame_mkFrame:
  assumes "i < n" and "n \<le> 64" and "payload \<noteq> []" and "length payload \<le> 1000"
  shows "parseFrame (mkFrame seq i n payload) = Inr (seq, i, n, payload)"
  using assms by (simp add: parseFrame_def mkFrame_nth unat_byte_of_nat Let_def)

lemma parseFrame_Inr:
  assumes "parseFrame frame = Inr (seq, i, n, payload)"
  shows "frame = mkFrame seq i n payload \<and> i < n \<and> 0 < n \<and> n \<le> 64 \<and> payload \<noteq> [] \<and> length payload \<le> 1000"
proof -
  from assms have len: "7 < length frame" and hd: "hd frame = udpFragmentVersion"
    and parts: "seq = Uint32 (take 4 (drop 1 frame))" "i = unat (frame ! 5)" "n = unat (frame ! 6)" "payload = drop 7 frame"
    and rest: "i < n" "0 < n" "n \<le> 64" "payload \<noteq> []" "length payload \<le> 1000"
    by (auto simp: parseFrame_def Let_def not_le not_less split: if_splits)
  have "frame = take 1 frame @ take 4 (drop 1 frame) @ [frame ! 5, frame ! 6] @ drop 7 frame"
  proof -
    have "frame = take 1 frame @ take 4 (drop 1 frame) @ drop 5 frame"
      by (metis add.commute append_take_drop_id drop_drop numeral_plus_one semiring_norm(5))
    moreover have "drop 5 frame = [frame ! 5, frame ! 6] @ drop 7 frame"
      using len by (simp add: Cons_nth_drop_Suc [symmetric])
    ultimately show ?thesis by simp
  qed
  moreover have "take 1 frame = [udpFragmentVersion]"
    using len hd by (cases frame) auto
  moreover have "take 4 (drop 1 frame) = PutUint32 seq"
    using len by (simp add: parts PutUint32_Uint32)
  ultimately have "frame = mkFrame seq i n payload"
    by (simp add: mkFrame_def parts)
  with rest show ?thesis by simp
qed

section \<open>The invariant of the decoder\<close>

definition parts_total :: "bytes option list \<Rightarrow> nat" where
  "parts_total ps = sum_list (map (\<lambda>p. case p of None \<Rightarrow> 0 | Some b \<Rightarrow> length b) ps)"

definition parts_received :: "bytes option list \<Rightarrow> nat" where
  "parts_received ps = sum_list (map (\<lambda>p. case p of None \<Rightarrow> 0 | Some b \<Rightarrow> 1) ps)"

lemma parts_update:
  assumes "i < length ps" and "ps ! i = None"
  shows "parts_total (ps[i := Some b]) = parts_total ps + length b"
    and "parts_received (ps[i := Some b]) = Suc (parts_received ps)"
  using assms by (simp_all add: parts_total_def parts_received_def map_update sum_list_update)

lemma parts_replicate [simp]: "parts_total (replicate n None) = 0" "parts_received (replicate n None) = 0"
  by (simp_all add: parts_total_def parts_received_def sum_list_replicate)

lemma parts_received_le: "parts_received ps \<le> length ps"
  by (induction ps) (auto simp: parts_received_def split: option.split)

lemma parts_received_all: "parts_received ps = length ps \<Longrightarrow> \<exists>bs. ps = map Some bs"
proof (induction ps)
  case Nil
  then show ?case by simp
next
  case (Cons p ps)
  have "parts_received (p # ps) = (if p = None then 0 else 1) + parts_received ps"
    by (cases p) (simp_all add: parts_received_def)
  with Cons.prems parts_received_le [of ps] have "p \<noteq> None" and "parts_received ps = length ps"
    by (auto split: if_splits)
  with Cons.IH obtain b bs where "p = Some b" "ps = map Some bs"
    by blast
  then have "p # ps = map Some (b # bs)" by simp
  then show ?case by (rule exI)
qed

lemma those_map_Some_id [simp]: "those (map Some bs) = Some bs"
  by (induction bs) auto

definition ua_wf :: "int \<Rightarrow> udpFragmentAssembly \<Rightarrow> bool" where
  "ua_wf maxPacket a \<longleftrightarrow> 0 < ua_count a \<and> ua_count a \<le> 64 \<and> length (ua_parts a) = ua_count a
     \<and> ua_received a = parts_received (ua_parts a) \<and> ua_received a < ua_count a
     \<and> ua_total a = parts_total (ua_parts a) \<and> int (ua_total a) \<le> maxPacket"

definition ud_asm :: "udpFragmentDecoder \<Rightarrow> bool" where
  "ud_asm d \<longleftrightarrow> 0 \<le> ud_maxPacket d \<and> gm_wf (ud_pending d)
     \<and> (\<forall>seq a. gm_lookup (ud_pending d) seq = Some a \<longrightarrow> ua_wf (ud_maxPacket d) a)"

definition ud_wf :: "udpFragmentDecoder \<Rightarrow> bool" where
  "ud_wf d \<longleftrightarrow> ud_asm d \<and> pendingCount d \<le> 16"

text \<open>Every buffered fragment is the payload of a frame of \<open>F\<close> for the same sequence, index and
  count.\<close>

definition from_frames :: "bytes set \<Rightarrow> udpFragmentDecoder \<Rightarrow> bool" where
  "from_frames F d \<longleftrightarrow> (\<forall>seq a i b. gm_lookup (ud_pending d) seq = Some a \<longrightarrow> i < length (ua_parts a)
     \<longrightarrow> ua_parts a ! i = Some b \<longrightarrow> mkFrame seq i (ua_count a) b \<in> F)"

text \<open>Both only shrink with the pending map.\<close>

definition sub_pending :: "udpFragmentDecoder \<Rightarrow> udpFragmentDecoder \<Rightarrow> bool" where
  "sub_pending d' d \<longleftrightarrow> ud_maxPacket d' = ud_maxPacket d \<and> gm_wf (ud_pending d')
     \<and> (\<forall>seq a. gm_lookup (ud_pending d') seq = Some a \<longrightarrow> gm_lookup (ud_pending d) seq = Some a)"

lemma sub_pending_keeps:
  "sub_pending d' d \<Longrightarrow> ud_asm d \<Longrightarrow> ud_asm d'" "sub_pending d' d \<Longrightarrow> from_frames F d \<Longrightarrow> from_frames F d'"
  by (auto simp: sub_pending_def ud_asm_def from_frames_def)

lemma sub_pending_prune: "gm_wf (ud_pending d) \<Longrightarrow> sub_pending (pruneExpiredLocked now d) d"
  by (auto simp: sub_pending_def pruneExpiredLocked_def gomap split: option.splits if_splits)

lemma sub_pending_delete: "gm_wf (ud_pending d) \<Longrightarrow> sub_pending (d\<lparr>ud_pending := gm_delete seq (ud_pending d)\<rparr>) d"
  by (auto simp: sub_pending_def gomap split: if_splits)

lemma sub_pending_evict: "gm_wf (ud_pending d) \<Longrightarrow> sub_pending (evictOldestLocked it d) d"
  by (auto simp: evictOldestLocked_def sub_pending_def gomap split: option.split if_splits)

lemma sub_pending_trans: "sub_pending d'' d' \<Longrightarrow> sub_pending d' d \<Longrightarrow> sub_pending d'' d"
  by (simp add: sub_pending_def)

text \<open>Adding a fragment to an assembly that is in the map.\<close>

text \<open>A fragment that is new and fits: the assembly goes on, or is complete.\<close>

lemma addFragment_fits:
  assumes asm: "ud_asm d" and a: "gm_lookup (ud_pending d) seq = Some a" and i: "i < ua_count a"
    and frames: "from_frames F d" and step: "addFragment seq i payload a d = (d', r)"
    and fits: "ua_parts a ! i = None" "int (ua_total a + length payload) \<le> ud_maxPacket d"
    and F': "F' = insert (mkFrame seq i (ua_count a) payload) F"
  shows "ud_asm d' \<and> gm_keys (ud_pending d') \<subseteq> gm_keys (ud_pending d) \<and> from_frames F' d' \<and> ud_maxPacket d' = ud_maxPacket d
    \<and> (r = Inr None \<or> (\<exists>ps. r = Inr (Some (concat ps)) \<and> length ps = ua_count a \<and> int (length (concat ps)) \<le> ud_maxPacket d
           \<and> (\<forall>j < ua_count a. mkFrame seq j (ua_count a) (ps ! j) \<in> F')))"
proof -
  have wf: "ua_wf (ud_maxPacket d) a" using asm a by (auto simp: ud_asm_def)
  then have len: "length (ua_parts a) = ua_count a" by (simp add: ua_wf_def)
  define parts where "parts = (ua_parts a)[i := Some payload]"
  define a' where "a' = a\<lparr>ua_parts := parts, ua_received := Suc (ua_received a), ua_total := ua_total a + length payload\<rparr>"
  define d1 where "d1 = d\<lparr>ud_pending := gm_put seq a' (ud_pending d)\<rparr>"
  have parts: "length parts = ua_count a" "parts_received parts = Suc (ua_received a)" "parts_total parts = ua_total a + length payload"
    using parts_update [of i "ua_parts a" payload] fits wf i by (simp_all add: parts_def ua_wf_def)
  have origin: "mkFrame seq j (ua_count a) b \<in> F'" if "j < ua_count a" "parts ! j = Some b" for j b
    using that frames a len i by (cases "j = i") (auto simp: parts_def from_frames_def F')
  have frames1: "from_frames F' d1"
    using frames origin parts(1) by (auto simp: from_frames_def d1_def a'_def gomap F' split: if_splits)
  have keys1: "gm_keys (ud_pending d1) = gm_keys (ud_pending d)"
    using a by (auto simp: d1_def gomap gm_keys_lookup)
  show ?thesis
  proof (cases "Suc (ua_received a) = ua_count a")
    case False
    with wf have "ua_wf (ud_maxPacket d) a'" using parts fits by (auto simp: ua_wf_def a'_def)
    with asm have "ud_asm d1" by (auto simp: ud_asm_def d1_def gomap)
    moreover have "d' = d1" "r = Inr None"
      using step fits len i False by (simp_all add: addFragment_def a'_def d1_def parts_def)
    ultimately show ?thesis using frames1 keys1 by (simp add: d1_def)
  next
    case True
    with parts obtain ps where ps: "parts = map Some ps" using parts_received_all by metis
    let ?d = "d1\<lparr>ud_pending := gm_delete seq (ud_pending d1)\<rparr>"
    have "length (concat ps) = ua_total a + length payload"
      using parts(3) by (simp add: ps parts_total_def length_concat comp_def)
    moreover have "d' = ?d" "r = Inr (Some (concat ps))"
      using step fits len i True ps by (auto simp: addFragment_def a'_def d1_def parts_def [symmetric] Let_def)
    moreover have "ud_asm ?d" using asm by (auto simp: ud_asm_def d1_def gomap split: if_splits)
    moreover have "from_frames F' ?d" using frames1 by (auto simp: from_frames_def gomap split: if_splits)
    ultimately show ?thesis using parts(1) origin keys1 fits by (auto simp: ps gomap d1_def)
  qed
qed

lemma addFragment_spec:
  assumes asm: "ud_asm d" and a: "gm_lookup (ud_pending d) seq = Some a" and i: "i < ua_count a"
    and frames: "from_frames F d" and step: "addFragment seq i payload a d = (d', r)"
  shows "ud_asm d' \<and> gm_keys (ud_pending d') \<subseteq> gm_keys (ud_pending d)
    \<and> from_frames (insert (mkFrame seq i (ua_count a) payload) F) d' \<and> ud_maxPacket d' = ud_maxPacket d
    \<and> r \<noteq> Inl PartsPanic \<and> r \<noteq> Inl IncompleteAssembly
    \<and> (\<forall>packet. r = Inr (Some packet) \<longrightarrow>
         (\<exists>ps. packet = concat ps \<and> length ps = ua_count a \<and> int (length packet) \<le> ud_maxPacket d
           \<and> (\<forall>j < ua_count a. mkFrame seq j (ua_count a) (ps ! j) \<in> insert (mkFrame seq i (ua_count a) payload) F)))"
proof -
  from asm a have wf: "ua_wf (ud_maxPacket d) a" and gm: "gm_wf (ud_pending d)"
    by (auto simp: ud_asm_def)
  then have len: "length (ua_parts a) = ua_count a" by (simp add: ua_wf_def)
  have frames': "from_frames (insert f F) d" for f
    using frames by (auto simp: from_frames_def)
  note sub = sub_pending_delete [OF gm, of seq]
  consider (dup) "ua_parts a ! i \<noteq> None"
    | (big) "ua_parts a ! i = None" "ud_maxPacket d < int (ua_total a + length payload)"
    | (fits) "ua_parts a ! i = None" "int (ua_total a + length payload) \<le> ud_maxPacket d"
    by linarith
  then show ?thesis
  proof cases
    case dup
    with step len i have "d' = d" "r = Inr None"
      by (simp_all add: addFragment_def)
    with asm frames' show ?thesis by simp
  next
    case big
    with step len i have "d' = d\<lparr>ud_pending := gm_delete seq (ud_pending d)\<rparr>" "r = Inl PacketTooLarge"
      by (simp_all add: addFragment_def)
    with sub_pending_keeps(1) [OF sub asm] sub_pending_keeps(2) [OF sub frames'] show ?thesis
      by (auto simp: gomap)
  next
    case fits
    from addFragment_fits [OF asm a i frames step this refl] show ?thesis by auto
  qed
qed

text \<open>The eviction takes an assembly that expires first.\<close>

lemma oldestOf_origin:
  "oldestOf m it found = Some (k, t) \<Longrightarrow>
     found = Some (k, t) \<or> (\<exists>a. gm_lookup m k = Some a \<and> ua_expiresAt a = t)"
  by (induction m it found rule: oldestOf.induct) (auto split: option.splits prod.splits if_splits)

lemma oldestOf_le_found: "oldestOf m it (Some (k', t')) = Some (k, t) \<Longrightarrow> t \<le> t'"
proof (induction it arbitrary: k' t')
  case (Cons s it)
  show ?case
  proof (cases "gm_lookup m s")
    case None
    with Cons show ?thesis by simp
  next
    case (Some a)
    show ?thesis
    proof (cases "ua_expiresAt a < t'")
      case True
      with Cons.prems Some have "t \<le> ua_expiresAt a"
        by (intro Cons.IH) simp
      with True show ?thesis by simp
    next
      case False
      with Cons Some show ?thesis by simp
    qed
  qed
qed simp

lemma oldestOf_minimal:
  "oldestOf m it found = Some (k, t) \<Longrightarrow> k' \<in> set it \<Longrightarrow> gm_lookup m k' = Some a \<Longrightarrow> t \<le> ua_expiresAt a"
proof (induction it arbitrary: found)
  case (Cons s it)
  show ?case
  proof (cases "k' = s")
    case True
    with Cons.prems obtain x u where "oldestOf m it (Some (x, u)) = Some (k, t)" "u \<le> ua_expiresAt a"
      by (cases found) (auto split: if_splits)
    with oldestOf_le_found show ?thesis by (meson order.trans)
  next
    case False
    then have k': "k' \<in> set it"
      using Cons.prems(2) by simp
    obtain found' where "oldestOf m it found' = Some (k, t)"
      using Cons.prems(1) by (cases "gm_lookup m s") auto
    then show ?thesis
      by (rule Cons.IH [OF _ k' Cons.prems(3)])
  qed
qed simp

lemma oldestOf_Some: "oldestOf m it (Some kt) \<noteq> None"
  by (induction it arbitrary: kt) (auto split: option.split prod.split)

lemma oldestOf_None: "oldestOf m it None = None \<Longrightarrow> k \<in> set it \<Longrightarrow> gm_lookup m k = None"
proof (induction it)
  case (Cons s it)
  then have "gm_lookup m s = None"
    using oldestOf_Some [of m it] by (cases "gm_lookup m s") auto
  with Cons show ?case by auto
qed simp

lemma evictOldestLocked_spec:
  assumes "gm_wf (ud_pending d)" and it: "gm_order it (ud_pending d)" and ne: "ud_pending d \<noteq> []"
  shows "\<exists>k a. gm_lookup (ud_pending d) k = Some a
    \<and> evictOldestLocked it d = d\<lparr>ud_pending := gm_delete k (ud_pending d)\<rparr>
    \<and> (\<forall>k' a'. gm_lookup (ud_pending d) k' = Some a' \<longrightarrow> ua_expiresAt a \<le> ua_expiresAt a')"
proof (cases "oldestOf (ud_pending d) it None")
  case None
  from ne obtain k where "k \<in> gm_keys (ud_pending d)"
    by (cases "ud_pending d") (auto simp: gm_keys_def)
  with it oldestOf_None [OF None, of k] show ?thesis
    by (simp add: gm_order_keys gm_keys_lookup)
next
  case (Some kt)
  then obtain k t where kt: "oldestOf (ud_pending d) it None = Some (k, t)"
    by (cases kt) auto
  have min: "t \<le> ua_expiresAt a'" if "gm_lookup (ud_pending d) k' = Some a'" for k' a'
    using it that oldestOf_minimal [OF kt] by (simp add: gm_order_keys gm_keys_lookup)
  from oldestOf_origin [OF kt] obtain a where a: "gm_lookup (ud_pending d) k = Some a" "ua_expiresAt a = t"
    by auto
  then show ?thesis
    using kt min by (intro exI [of _ k] exI [of _ a]) (simp add: evictOldestLocked_def)
qed

lemma evict_len:
  assumes "gm_wf (ud_pending d)" and "gm_order it (ud_pending d)" and "0 < pendingCount d"
  shows "pendingCount (evictOldestLocked it d) = pendingCount d - 1"
proof -
  from assms obtain k a where "gm_lookup (ud_pending d) k = Some a"
      "evictOldestLocked it d = d\<lparr>ud_pending := gm_delete k (ud_pending d)\<rparr>"
    using evictOldestLocked_spec [of d it] by (auto simp: pendingCount_def gm_len_def)
  with assms(1) show ?thesis
    by (simp add: pendingCount_def gm_len_delete gm_keys_lookup)
qed

interpretation assemblies: bounded_store pendingCount evictOldestLocked
  "\<lambda>it d. gm_order it (ud_pending d)" "\<lambda>k a d. d\<lparr>ud_pending := gm_put k a (ud_pending d)\<rparr>"
  "\<lambda>d. gm_wf (ud_pending d)"
proof unfold_locales
  fix d :: udpFragmentDecoder and it k and a :: udpFragmentAssembly
  show "gm_wf (ud_pending d) \<Longrightarrow> gm_order it (ud_pending d) \<Longrightarrow> 0 < pendingCount d
      \<Longrightarrow> pendingCount (evictOldestLocked it d) = pendingCount d - 1"
    by (rule evict_len)
  show "gm_wf (ud_pending d) \<Longrightarrow> gm_order it (ud_pending d) \<Longrightarrow> gm_wf (ud_pending (evictOldestLocked it d))"
    using sub_pending_evict [of d it] by (simp add: sub_pending_def)
  show "gm_wf (ud_pending d) \<Longrightarrow> pendingCount (d\<lparr>ud_pending := gm_put k a (ud_pending d)\<rparr>) \<le> Suc (pendingCount d)"
    by (simp add: pendingCount_def gm_len_put)
qed

lemma pendingCount_mono:
  "gm_wf (ud_pending d') \<Longrightarrow> gm_wf (ud_pending d) \<Longrightarrow> gm_keys (ud_pending d') \<subseteq> gm_keys (ud_pending d)
     \<Longrightarrow> pendingCount d' \<le> pendingCount d"
  by (simp add: pendingCount_def gm_len_card card_mono)

lemma newAssembly_wf: "0 < n \<Longrightarrow> n \<le> 64 \<Longrightarrow> 0 \<le> m \<Longrightarrow> ua_wf m (newAssembly n now)"
  by (simp add: ua_wf_def newAssembly_def)

text \<open>The decoder with an assembly opened, after making room.\<close>

lemma open_assembly:
  assumes "ud_asm d1" and "from_frames F d1" and it: "gm_order it (ud_pending d1)" and len: "pendingCount d1 \<le> 16"
    and max: "0 \<le> ud_maxPacket d1" and n: "0 < n" "n \<le> 64"
    and d2: "d2 = (if udpFragmentMaxAssemblies \<le> pendingCount d1 then evictOldestLocked it d1 else d1)"
    and d3: "d3 = d2\<lparr>ud_pending := gm_put seq (newAssembly n now) (ud_pending d2)\<rparr>"
  shows "pendingCount d3 \<le> 16" "ud_asm d3" "from_frames F d3" "ud_maxPacket d3 = ud_maxPacket d1"
proof -
  have gm1: "gm_wf (ud_pending d1)" using assms(1) by (simp add: ud_asm_def)
  have "sub_pending d2 d1"
    using sub_pending_evict [OF gm1] gm1 by (simp add: d2 sub_pending_def)
  then have asm2: "ud_asm d2" "from_frames F d2" "ud_maxPacket d2 = ud_maxPacket d1"
    using sub_pending_keeps assms(1,2) by (blast, blast, simp add: sub_pending_def)
  show "pendingCount d3 \<le> 16"
    using assemblies.store_after_evict_bounded [of d1 it 16 seq "newAssembly n now"] gm1 it len by (simp add: d3 d2)
  show "ud_asm d3"
    using asm2 newAssembly_wf [OF n max] by (auto simp: ud_asm_def d3 gomap)
  show "from_frames F d3"
    using asm2(2) by (auto simp: from_frames_def d3 newAssembly_def gomap split: if_splits)
  show "ud_maxPacket d3 = ud_maxPacket d1" using asm2(3) by (simp add: d3)
qed

lemma Decode_spec:
  assumes wf: "ud_wf d" and frames: "from_frames F d"
    and it: "gm_order it (ud_pending (pruneExpiredLocked now d))"
    and step: "Decode it now f d = (d', r)"
  shows "ud_wf d' \<and> from_frames (insert f F) d' \<and> ud_maxPacket d' = ud_maxPacket d
    \<and> r \<noteq> Inl PartsPanic \<and> r \<noteq> Inl IncompleteAssembly
    \<and> (\<forall>packet. r = Inr (Some packet) \<longrightarrow>
         (\<exists>seq i n b ps. parseFrame f = Inr (seq, i, n, b) \<and> packet = concat ps \<and> length ps = n
           \<and> int (length packet) \<le> ud_maxPacket d \<and> (\<forall>j < n. mkFrame seq j n (ps ! j) \<in> insert f F)))"
proof (cases "parseFrame f")
  case (Inl e)
  then have "d' = d" "r = Inl e" "e \<noteq> PartsPanic" "e \<noteq> IncompleteAssembly"
    using step by (auto simp: Decode_def parseFrame_def Let_def split: if_splits)
  with wf frames show ?thesis by (auto simp: from_frames_def)
next
  case (Inr fields')
  then obtain seq i n b where parse: "parseFrame f = Inr (seq, i, n, b)"
    by (cases fields') auto
  then have f: "f = mkFrame seq i n b" "i < n" "0 < n" "n \<le> 64"
    using parseFrame_Inr by blast+
  define d1 where "d1 = pruneExpiredLocked now d"
  have gm: "gm_wf (ud_pending d)" and max: "0 \<le> ud_maxPacket d" and asm: "ud_asm d"
    using wf by (auto simp: ud_wf_def ud_asm_def)
  have sub1: "sub_pending d1 d"
    unfolding d1_def by (rule sub_pending_prune [OF gm])
  then have gm1: "gm_wf (ud_pending d1)" and max1: "ud_maxPacket d1 = ud_maxPacket d"
    by (simp_all add: sub_pending_def)
  have len1: "pendingCount d1 \<le> 16"
    using wf gm_len_filter by (fastforce simp: ud_wf_def d1_def pruneExpiredLocked_def pendingCount_def intro: le_trans)
  have asm1: "ud_asm d1" and frames1: "from_frames F d1"
    using sub_pending_keeps sub1 asm frames by blast+
  show ?thesis
  proof (cases "gm_lookup (ud_pending d1) seq")
    case None
    define d2 where "d2 = (if udpFragmentMaxAssemblies \<le> pendingCount d1 then evictOldestLocked it d1 else d1)"
    define d3 where "d3 = d2\<lparr>ud_pending := gm_put seq (newAssembly n now) (ud_pending d2)\<rparr>"
    have "gm_order it (ud_pending d1)" "0 \<le> ud_maxPacket d1" using it max max1 by (simp_all add: d1_def)
    note open3 = open_assembly [OF asm1 frames1 this(1) len1 this(2) f(3,4) d2_def d3_def]
    have step3: "addFragment seq i b (newAssembly n now) d3 = (d', r)"
      using step parse None by (simp add: Decode_def d1_def d2_def d3_def Let_def pendingCount_def split: if_split_asm)
    have n: "ua_count (newAssembly n now) = n" by (simp add: newAssembly_def)
    have "gm_lookup (ud_pending d3) seq = Some (newAssembly n now)" "ud_maxPacket d3 = ud_maxPacket d"
      using open3(4) max1 by (simp_all add: d3_def gomap)
    note spec = addFragment_spec [OF open3(2) this(1) _ open3(3) step3, unfolded n, OF f(2), folded f(1), unfolded this(2)]
    moreover have "pendingCount d' \<le> 16"
      using spec open3(1,2) pendingCount_mono [of d' d3] by (auto simp: ud_asm_def)
    ultimately show ?thesis
      using parse by (auto simp: ud_wf_def)
  next
    case (Some a)
    show ?thesis
    proof (cases "ua_count a = n")
      case False
      then have d': "d' = d1\<lparr>ud_pending := gm_delete seq (ud_pending d1)\<rparr>" and r: "r = Inl ConflictingCount"
        using step parse Some by (simp_all add: Decode_def d1_def Let_def)
      have "sub_pending d' d1" unfolding d' by (rule sub_pending_delete [OF gm1])
      then have "ud_asm d'" "from_frames F d'"
        using sub_pending_keeps asm1 frames1 by blast+
      moreover have "pendingCount d' \<le> 16"
        using len1 gm1 by (auto simp: d' pendingCount_def gm_len_delete)
      ultimately show ?thesis
        using r max1 by (auto simp: ud_wf_def d' from_frames_def)
    next
      case True
      then have step1: "addFragment seq i b a d1 = (d', r)"
        using step parse Some by (simp add: Decode_def d1_def)
      note spec = addFragment_spec [OF asm1 Some _ frames1 step1, unfolded True, OF f(2), folded f(1), unfolded max1]
      moreover have "pendingCount d' \<le> 16"
        using spec len1 asm1 pendingCount_mono [of d' d1] by (auto simp: ud_asm_def)
      ultimately show ?thesis
        using parse by (auto simp: ud_wf_def)
    qed
  qed
qed

section \<open>Runs of the decoder\<close>

text \<open>One call of \<open>Decode\<close>: the visiting order of the map, the clock, the frame.\<close>

type_synonym decode_call = "32 word list \<times> instant \<times> bytes"

fun decode_run :: "decode_call list \<Rightarrow> udpFragmentDecoder \<Rightarrow> udpFragmentDecoder \<times> (udp_error + bytes option) list" where
  "decode_run [] d = (d, [])"
| "decode_run ((it, now, frame) # calls) d =
     (let (d1, r) = Decode it now frame d; (d2, rs) = decode_run calls d1 in (d2, r # rs))"

text \<open>The decoder states that frames \<open>F\<close> can lead to.\<close>

inductive reachable_decoder :: "int \<Rightarrow> bytes set \<Rightarrow> udpFragmentDecoder \<Rightarrow> bool" for maxPacket :: int where
  fresh: "reachable_decoder maxPacket {} (newUDPFragmentDecoder maxPacket)"
| frame: "reachable_decoder maxPacket F d \<Longrightarrow> gm_order it (ud_pending (pruneExpiredLocked now d))
     \<Longrightarrow> Decode it now f d = (d', r) \<Longrightarrow> reachable_decoder maxPacket (insert f F) d'"

lemma newUDPFragmentDecoder_wf: "ud_wf (newUDPFragmentDecoder m) \<and> from_frames F (newUDPFragmentDecoder m)"
  by (simp add: ud_wf_def ud_asm_def newUDPFragmentDecoder_def pendingCount_def gm_len_def from_frames_def)

lemma reachable_decoder_inv: "reachable_decoder m F d \<Longrightarrow> ud_wf d \<and> from_frames F d
    \<and> ud_maxPacket d = (if m \<le> 0 then defaultUDPMaxPacketSize else m)"
proof (induction rule: reachable_decoder.induct)
  case fresh
  then show ?case using newUDPFragmentDecoder_wf by (simp add: newUDPFragmentDecoder_def)
next
  case (frame F d it now f d' r)
  then show ?case using Decode_spec [of d F it now f d' r] by simp
qed

text \<open>The bytes a decoder buffers.\<close>

definition bufferedBytes :: "udpFragmentDecoder \<Rightarrow> nat" where
  "bufferedBytes d = sum_list (map (\<lambda>(seq, a). parts_total (ua_parts a)) (ud_pending d))"

lemma sum_list_le_bound: "(\<And>x. x \<in> set xs \<Longrightarrow> f x \<le> b) \<Longrightarrow> sum_list (map f xs) \<le> length xs * (b :: nat)"
  by (induction xs) (auto intro: add_mono)

lemma bufferedBytes_le:
  assumes "ud_wf d"
  shows "int (bufferedBytes d) \<le> 16 * ud_maxPacket d"
proof -
  have asm: "ud_asm d" and len: "length (ud_pending d) \<le> 16"
    using assms by (auto simp: ud_wf_def pendingCount_def gm_len_def)
  have each: "parts_total (ua_parts a) \<le> nat (ud_maxPacket d)" if "(seq, a) \<in> set (ud_pending d)" for seq a
  proof -
    have "ua_wf (ud_maxPacket d) a"
      using asm gm_in_lookup [OF _ that] by (auto simp: ud_asm_def)
    then have "parts_total (ua_parts a) = ua_total a" "int (ua_total a) \<le> ud_maxPacket d"
      by (simp_all add: ua_wf_def)
    then show ?thesis by linarith
  qed
  have "bufferedBytes d \<le> length (ud_pending d) * nat (ud_maxPacket d)"
    unfolding bufferedBytes_def by (rule sum_list_le_bound) (auto intro: each)
  also have "\<dots> \<le> 16 * nat (ud_maxPacket d)"
    using len by simp
  finally have "int (bufferedBytes d) \<le> 16 * int (nat (ud_maxPacket d))"
    by linarith
  then show ?thesis
    using asm by (simp add: ud_asm_def)
qed

section \<open>Reassembly in any order\<close>

text \<open>The assembly of \<open>packet\<close> of which the fragments with an index in \<open>S\<close> have arrived.\<close>

definition asm_of :: "bytes \<Rightarrow> nat set \<Rightarrow> instant \<Rightarrow> udpFragmentAssembly" where
  "asm_of packet S x =
     \<lparr>ua_count = fragCount packet,
      ua_parts = map (\<lambda>i. if i \<in> S then Some (chunk packet i) else None) [0..<fragCount packet],
      ua_received = card S, ua_total = (\<Sum>i\<in>S. length (chunk packet i)), ua_expiresAt = x\<rparr>"

lemma asm_of_empty: "newAssembly (fragCount packet) now = asm_of packet {} (now + udpFragmentAssemblyTTL)"
  by (simp add: newAssembly_def asm_of_def map_replicate_const)

lemma sum_chunks: "(\<Sum>i<fragCount packet. length (chunk packet i)) = length packet"
proof -
  have "length packet = length (concat (map (chunk packet) [0..<fragCount packet]))"
    by (simp add: concat_chunks)
  also have "\<dots> = (\<Sum>i<fragCount packet. length (chunk packet i))"
    by (simp add: length_concat comp_def interv_sum_list_conv_sum_set_nat atLeast0LessThan)
  finally show ?thesis by simp
qed

lemma sum_chunks_le:
  "S \<subseteq> {..<fragCount packet} \<Longrightarrow> (\<Sum>i\<in>S. length (chunk packet i)) \<le> length packet"
  using sum_mono2 [of "{..<fragCount packet}" S "\<lambda>i. length (chunk packet i)"] sum_chunks [of packet] by simp

text \<open>Adding fragment \<open>i\<close> to that assembly.\<close>

lemma addFragment_asm_of:
  assumes S: "S \<subseteq> {..<fragCount packet}" and i: "i < fragCount packet"
    and max: "int (length packet) \<le> ud_maxPacket d"
  shows "addFragment seq i (chunk packet i) (asm_of packet S x) d =
    (if i \<in> S then (d, Inr None)
     else if insert i S = {..<fragCount packet}
       then (d\<lparr>ud_pending := gm_delete seq (gm_put seq (asm_of packet (insert i S) x) (ud_pending d))\<rparr>, Inr (Some packet))
     else (d\<lparr>ud_pending := gm_put seq (asm_of packet (insert i S) x) (ud_pending d)\<rparr>, Inr None))"
proof (cases "i \<in> S")
  case True
  with i show ?thesis by (simp add: addFragment_def asm_of_def)
next
  case False
  let ?N = "fragCount packet"
  have fin: "finite S" using S finite_subset by blast
  have parts: "(map (\<lambda>i. if i \<in> S then Some (chunk packet i) else None) [0..<?N])[i := Some (chunk packet i)]
      = map (\<lambda>j. if j \<in> insert i S then Some (chunk packet j) else None) [0..<?N]"
  proof (rule nth_equalityI)
    fix j assume "j < length ((map (\<lambda>i. if i \<in> S then Some (chunk packet i) else None) [0..<?N])[i := Some (chunk packet i)])"
    then show "(map (\<lambda>i. if i \<in> S then Some (chunk packet i) else None) [0..<?N])[i := Some (chunk packet i)] ! j
        = map (\<lambda>j. if j \<in> insert i S then Some (chunk packet j) else None) [0..<?N] ! j"
      by (cases "j = i") simp_all
  qed simp
  have asm: "(asm_of packet S x)\<lparr>ua_parts := (ua_parts (asm_of packet S x))[i := Some (chunk packet i)],
      ua_received := ua_received (asm_of packet S x) + 1,
      ua_total := ua_total (asm_of packet S x) + length (chunk packet i)\<rparr> = asm_of packet (insert i S) x"
    using parts False fin by (simp add: asm_of_def)
  have total: "ua_total (asm_of packet S x) + length (chunk packet i) \<le> length packet"
    using sum_chunks_le [of "insert i S" packet] S i False fin by (simp add: asm_of_def)
  have card: "card (insert i S) = ?N \<longleftrightarrow> insert i S = {..<?N}"
    using card_subset_eq [of "{..<?N}" "insert i S"] S i by auto
  have all: "ua_parts (asm_of packet {..<?N} x) = map Some (map (chunk packet) [0..<?N])"
    by (simp add: asm_of_def)
  have none: "ua_parts (asm_of packet S x) ! i = None" "i < length (ua_parts (asm_of packet S x))"
    using i False by (simp_all add: asm_of_def)
  have fits: "\<not> ud_maxPacket d < int (ua_total (asm_of packet S x) + length (chunk packet i))"
    using total max by linarith
  have done_iff: "ua_received (asm_of packet (insert i S) x) = ua_count (asm_of packet (insert i S) x)
      \<longleftrightarrow> insert i S = {..<?N}"
    using card by (simp add: asm_of_def)
  have those: "insert i S = {..<?N} \<Longrightarrow> those (ua_parts (asm_of packet (insert i S) x)) = Some (map (chunk packet) [0..<?N])"
    using all by (metis those_map_Some_id)
  show ?thesis
    unfolding addFragment_def Let_def asm done_iff
    using none fits False those by (simp add: concat_chunks)
qed

text \<open>What one frame does to the assemblies of the other sequences while the map has room.\<close>

lemma addFragment_others:
  "addFragment s i b a d = (d', r) \<Longrightarrow> s' \<noteq> s \<Longrightarrow> gm_lookup (ud_pending d') s' = gm_lookup (ud_pending d) s'"
  "addFragment s i b a d = (d', r) \<Longrightarrow> gm_keys (ud_pending d') \<subseteq> insert s (gm_keys (ud_pending d))"
  "addFragment s i b a d = (d', r) \<Longrightarrow> gm_wf (ud_pending d) \<Longrightarrow> gm_wf (ud_pending d')"
  "addFragment s i b a d = (d', r) \<Longrightarrow> ud_maxPacket d' = ud_maxPacket d"
  by (auto simp: addFragment_def Let_def gomap split: if_splits option.splits)

text \<open>The sequences that may be pending at all, apart from \<open>seq\<close>: fewer than sixteen.\<close>

definition room_for :: "32 word \<Rightarrow> 32 word set \<Rightarrow> udpFragmentDecoder \<Rightarrow> bool" where
  "room_for seq K d \<longleftrightarrow> finite K \<and> card K < 16 \<and> seq \<notin> K
     \<and> gm_wf (ud_pending d) \<and> gm_keys (ud_pending d) \<subseteq> insert seq K"

lemma room_for_space:
  assumes "room_for seq K d" and "s \<in> insert seq K" and "s \<notin> gm_keys (ud_pending d)"
  shows "gm_len (ud_pending d) < 16"
proof -
  have fin: "finite K" "seq \<notin> K" "card K < 16"
    using assms(1) by (auto simp: room_for_def)
  have "gm_keys (ud_pending d) \<subseteq> insert seq K - {s}"
    using assms by (auto simp: room_for_def)
  then have "card (gm_keys (ud_pending d)) \<le> card (insert seq K - {s})"
    using fin by (intro card_mono) auto
  also have "\<dots> = card K"
    using fin assms(2) by simp
  finally show ?thesis
    using fin assms(1) by (simp add: gm_len_card room_for_def)
qed

lemma prune_simps:
  "gm_wf (ud_pending d) \<Longrightarrow> gm_lookup (ud_pending (pruneExpiredLocked now d)) s =
     (case gm_lookup (ud_pending d) s of None \<Rightarrow> None | Some a \<Rightarrow> if now < ua_expiresAt a then Some a else None)"
  "gm_wf (ud_pending d) \<Longrightarrow> gm_wf (ud_pending (pruneExpiredLocked now d))"
  "gm_keys (ud_pending (pruneExpiredLocked now d)) \<subseteq> gm_keys (ud_pending d)"
  "ud_maxPacket (pruneExpiredLocked now d) = ud_maxPacket d"
  by (auto simp: pruneExpiredLocked_def gomap gm_keys_def)

text \<open>With room, a frame reaches \<open>addFragment\<close> on the assembly of its sequence, or conflicts.\<close>

lemma Decode_roomy:
  assumes room: "room_for seq K d" and parse: "parseFrame f = Inr (s, i, n, b)" and s: "s \<in> insert seq K"
  shows "Decode it now f d =
    (let d1 = pruneExpiredLocked now d in
     case gm_lookup (ud_pending d1) s of
       None \<Rightarrow> addFragment s i b (newAssembly n now) (d1\<lparr>ud_pending := gm_put s (newAssembly n now) (ud_pending d1)\<rparr>)
     | Some a \<Rightarrow> if ua_count a \<noteq> n then (d1\<lparr>ud_pending := gm_delete s (ud_pending d1)\<rparr>, Inl ConflictingCount)
                 else addFragment s i b a d1)"
proof -
  have room1: "room_for seq K (pruneExpiredLocked now d)"
    using room prune_simps [where d = d and now = now] by (auto simp: room_for_def)
  have "gm_len (ud_pending (pruneExpiredLocked now d)) < 16"
    if "gm_lookup (ud_pending (pruneExpiredLocked now d)) s = None"
    using room_for_space [OF room1 s] that by (simp add: gm_keys_lookup)
  with parse show ?thesis
    by (auto simp: Decode_def Let_def not_le split: option.split)
qed

lemma Decode_roomy_keeps:
  assumes room: "room_for seq K d" and parse: "parseFrame f = Inr (s, i, n, b)" and s: "s \<in> insert seq K"
    and step: "Decode it now f d = (d', r)"
  shows "room_for seq K d' \<and> ud_maxPacket d' = ud_maxPacket d
    \<and> (\<forall>s'. s' \<noteq> s \<longrightarrow> gm_lookup (ud_pending d') s' = gm_lookup (ud_pending (pruneExpiredLocked now d)) s')"
proof -
  define d1 where "d1 = pruneExpiredLocked now d"
  have room1: "room_for seq K d1" "ud_maxPacket d1 = ud_maxPacket d"
    using room prune_simps [where d = d and now = now] by (auto simp: room_for_def d1_def)
  define d2 where "d2 = d1\<lparr>ud_pending := gm_put s (newAssembly n now) (ud_pending d1)\<rparr>"
  have room2: "room_for seq K d2" "ud_maxPacket d2 = ud_maxPacket d"
    "\<And>s'. s' \<noteq> s \<Longrightarrow> gm_lookup (ud_pending d2) s' = gm_lookup (ud_pending d1) s'"
    using room1 s by (auto simp: room_for_def d2_def gomap)
  have add: ?thesis if "addFragment s i b a dx = (d', r)" "room_for seq K dx" "ud_maxPacket dx = ud_maxPacket d"
      "\<And>s'. s' \<noteq> s \<Longrightarrow> gm_lookup (ud_pending dx) s' = gm_lookup (ud_pending d1) s'" for a dx
    using that addFragment_others [OF that(1)] s unfolding d1_def by (auto simp: room_for_def)
  show ?thesis
  proof (cases "gm_lookup (ud_pending d1) s")
    case None
    then show ?thesis
      using step Decode_roomy [OF room parse s, of it now] add [of "newAssembly n now" d2] room2
      by (simp add: d1_def d2_def Let_def)
  next
    case (Some a)
    show ?thesis
    proof (cases "ua_count a = n")
      case True
      then show ?thesis
        using step Some Decode_roomy [OF room parse s, of it now] add [of a d1] room1 by (simp add: d1_def Let_def)
    next
      case False
      then have "d' = d1\<lparr>ud_pending := gm_delete s (ud_pending d1)\<rparr>"
        using step Some Decode_roomy [OF room parse s, of it now] by (simp add: d1_def Let_def)
      then show ?thesis
        using room1 by (auto simp: room_for_def gomap d1_def)
    qed
  qed
qed

text \<open>\<open>seq\<close>'s assembly holds exactly the fragments of \<open>packet\<close> with an index in \<open>S\<close>, and does not
  expire before \<open>hi\<close>.\<close>

definition holds_fragments :: "32 word \<Rightarrow> bytes \<Rightarrow> nat set \<Rightarrow> instant \<Rightarrow> udpFragmentDecoder \<Rightarrow> bool" where
  "holds_fragments seq packet S hi d \<longleftrightarrow> S \<subset> {..<fragCount packet}
     \<and> (if S = {} then gm_lookup (ud_pending d) seq = None
        else \<exists>x \<ge> hi. gm_lookup (ud_pending d) seq = Some (asm_of packet S x))"

abbreviation fragmentOf :: "32 word \<Rightarrow> bytes \<Rightarrow> nat \<Rightarrow> bytes" where
  "fragmentOf seq packet i \<equiv> mkFrame seq i (fragCount packet) (chunk packet i)"

lemma parse_fragmentOf:
  "i < fragCount packet \<Longrightarrow> fragCount packet \<le> 64
     \<Longrightarrow> parseFrame (fragmentOf seq packet i) = Inr (seq, i, fragCount packet, chunk packet i)"
  using chunk_length [of i packet] by (intro parseFrame_mkFrame) auto

lemma own_fragment_step:
  assumes room: "room_for seq K d" and holds: "holds_fragments seq packet S hi d"
    and i: "i < fragCount packet" and n: "fragCount packet \<le> 64"
    and max: "int (length packet) \<le> ud_maxPacket d"
    and now: "now < hi" "hi \<le> now + udpFragmentAssemblyTTL"
    and step: "Decode it now (fragmentOf seq packet i) d = (d', r)"
  shows "if insert i S = {..<fragCount packet} then r = Inr (Some packet) \<and> gm_lookup (ud_pending d') seq = None
    else r = Inr None \<and> holds_fragments seq packet (insert i S) hi d'"
proof -
  define d1 where "d1 = pruneExpiredLocked now d"
  have gm: "gm_wf (ud_pending d)" using room by (simp add: room_for_def)
  have max1: "int (length packet) \<le> ud_maxPacket d1"
    using max by (simp add: d1_def prune_simps)
  have S: "S \<subseteq> {..<fragCount packet}" "S \<noteq> {..<fragCount packet}"
    using holds by (auto simp: holds_fragments_def)
  have cnt: "ua_count (asm_of packet S x) = fragCount packet" for x by (simp add: asm_of_def)
  note dec = Decode_roomy [OF room parse_fragmentOf [OF i n, of seq] insertI1, of it now, folded d1_def]
  obtain x dx where x: "hi \<le> x" and dx: "gm_lookup (ud_pending dx) seq = Some (asm_of packet S x)"
      "int (length packet) \<le> ud_maxPacket dx"
      and add: "addFragment seq i (chunk packet i) (asm_of packet S x) dx = (d', r)"
  proof (cases "S = {}")
    case True
    let ?dx = "d1\<lparr>ud_pending := gm_put seq (newAssembly (fragCount packet) now) (ud_pending d1)\<rparr>"
    have "gm_lookup (ud_pending d1) seq = None"
      using holds gm True by (simp add: d1_def prune_simps holds_fragments_def)
    then have "addFragment seq i (chunk packet i) (newAssembly (fragCount packet) now) ?dx = (d', r)"
      using dec step by (simp add: Let_def d1_def)
    then show ?thesis
      using that [of "now + udpFragmentAssemblyTTL" ?dx] now max1 True by (simp add: asm_of_empty gomap)
  next
    case False
    then obtain x where x: "hi \<le> x" "gm_lookup (ud_pending d) seq = Some (asm_of packet S x)"
      using holds by (auto simp: holds_fragments_def)
    then have "gm_lookup (ud_pending d1) seq = Some (asm_of packet S x)"
      using gm now by (simp add: d1_def prune_simps asm_of_def)
    then show ?thesis
      using that [of x d1] x dec step max1 cnt by (simp add: Let_def d1_def)
  qed
  show ?thesis
    using add addFragment_asm_of [OF S(1) i dx(2), of seq x] x dx(1) S i
    by (auto simp: holds_fragments_def gomap insert_absorb split: if_splits)
qed

text \<open>A frame of another sequence, or one that does not parse, leaves \<open>seq\<close>'s assembly alone.\<close>

lemma other_frame_step:
  assumes room: "room_for seq K d" and holds: "holds_fragments seq packet S hi d"
    and other: "\<And>s i n b. parseFrame f = Inr (s, i, n, b) \<Longrightarrow> s \<in> K"
    and now: "now < hi" and step: "Decode it now f d = (d', r)"
  shows "room_for seq K d' \<and> holds_fragments seq packet S hi d' \<and> ud_maxPacket d' = ud_maxPacket d"
proof (cases "parseFrame f")
  case (Inl e)
  with step have "d' = d" by (simp add: Decode_def)
  with room holds show ?thesis by simp
next
  case (Inr v)
  then obtain s i n b where parse: "parseFrame f = Inr (s, i, n, b)" by (cases v) auto
  with other have s: "s \<in> insert seq K" "s \<noteq> seq" using room by (auto simp: room_for_def)
  have gm: "gm_wf (ud_pending d)" using room by (simp add: room_for_def)
  from Decode_roomy_keeps [OF room parse s(1) step] s(2)
  have keeps: "room_for seq K d'" "ud_maxPacket d' = ud_maxPacket d"
    and look: "gm_lookup (ud_pending d') seq = gm_lookup (ud_pending (pruneExpiredLocked now d)) seq"
    by auto
  have "gm_lookup (ud_pending d') seq = gm_lookup (ud_pending d) seq"
    using look holds gm now by (auto simp: prune_simps holds_fragments_def asm_of_def split: if_splits)
  with keeps holds show ?thesis by (simp add: holds_fragments_def)
qed

definition arrived :: "32 word \<Rightarrow> bytes \<Rightarrow> decode_call list \<Rightarrow> nat set" where
  "arrived seq packet calls = {i. i < fragCount packet \<and> fragmentOf seq packet i \<in> (snd \<circ> snd) ` set calls}"

definition call_ok :: "32 word \<Rightarrow> bytes \<Rightarrow> 32 word set \<Rightarrow> instant \<Rightarrow> decode_call \<Rightarrow> bool" where
  "call_ok seq packet K t c \<longleftrightarrow> (case c of (it, now, f) \<Rightarrow>
     t \<le> now \<and> now < t + udpFragmentAssemblyTTL
     \<and> ((\<exists>i < fragCount packet. f = fragmentOf seq packet i) \<or> (\<forall>s i n b. parseFrame f = Inr (s, i, n, b) \<longrightarrow> s \<in> K)))"

lemma fragmentOf_inj:
  assumes "i < fragCount packet" and "j < fragCount packet" and "fragCount packet \<le> 64"
  shows "fragmentOf seq packet i = fragmentOf seq packet j \<longleftrightarrow> i = j"
  using parse_fragmentOf [OF assms(1,3), of seq] parse_fragmentOf [OF assms(2,3), of seq]
  by (metis Inr_inject prod.inject)

lemma arrived_Cons:
  assumes n: "fragCount packet \<le> 64"
  shows "i < fragCount packet \<Longrightarrow> arrived seq packet ((it, now, fragmentOf seq packet i) # calls) = insert i (arrived seq packet calls)"
    and "(\<forall>i < fragCount packet. f \<noteq> fragmentOf seq packet i) \<Longrightarrow> arrived seq packet ((it, now, f) # calls) = arrived seq packet calls"
proof -
  assume "i < fragCount packet"
  then show "arrived seq packet ((it, now, fragmentOf seq packet i) # calls) = insert i (arrived seq packet calls)"
    using fragmentOf_inj [OF _ _ n] by (auto simp: arrived_def)
next
  assume "\<forall>i < fragCount packet. f \<noteq> fragmentOf seq packet i"
  then show "arrived seq packet ((it, now, f) # calls) = arrived seq packet calls"
    by (fastforce simp: arrived_def)
qed

lemma incomplete_run:
  assumes "room_for seq K d" and "holds_fragments seq packet S (t + udpFragmentAssemblyTTL) d"
    and "fragCount packet \<le> 64" and "int (length packet) \<le> ud_maxPacket d"
    and "\<forall>c \<in> set calls. call_ok seq packet K t c"
    and "S \<union> arrived seq packet calls \<noteq> {..<fragCount packet}"
    and "decode_run calls d = (d', rs)"
  shows "room_for seq K d' \<and> holds_fragments seq packet (S \<union> arrived seq packet calls) (t + udpFragmentAssemblyTTL) d'
    \<and> ud_maxPacket d' = ud_maxPacket d \<and> length rs = length calls
    \<and> (\<forall>k < length calls. (\<exists>i < fragCount packet. snd (snd (calls ! k)) = fragmentOf seq packet i) \<longrightarrow> rs ! k = Inr None)"
  using assms
proof (induction calls arbitrary: d S rs)
  case Nil
  then show ?case by (auto simp: arrived_def)
next
  case (Cons c calls)
  obtain it now f where c: "c = (it, now, f)" by (cases c)
  obtain d1 r where step: "Decode it now f d = (d1, r)" by fastforce
  obtain rs' where run: "decode_run calls d1 = (d', rs')" "rs = r # rs'"
    using Cons.prems(7) step by (auto simp: c split: prod.splits)
  have win: "now < t + udpFragmentAssemblyTTL" "t + udpFragmentAssemblyTTL \<le> now + udpFragmentAssemblyTTL"
    using Cons.prems(5) by (auto simp: c call_ok_def)
  show ?case
  proof (cases "\<exists>i < fragCount packet. f = fragmentOf seq packet i")
    case True
    then obtain i where i: "i < fragCount packet" and f: "f = fragmentOf seq packet i" by blast
    have eq: "S \<union> arrived seq packet (c # calls) = insert i S \<union> arrived seq packet calls"
      using arrived_Cons(1) [OF Cons.prems(3) i] by (simp add: c f)
    have sub: "arrived seq packet calls \<subseteq> {..<fragCount packet}" "S \<subseteq> {..<fragCount packet}"
      using Cons.prems(2) by (auto simp: arrived_def holds_fragments_def)
    then have "insert i S \<noteq> {..<fragCount packet}"
      using Cons.prems(6) eq by auto
    then have r: "r = Inr None" and h: "holds_fragments seq packet (insert i S) (t + udpFragmentAssemblyTTL) d1"
      using own_fragment_step [OF Cons.prems(1,2) i Cons.prems(3,4) win step [unfolded f]] by auto
    have keep: "room_for seq K d1" "ud_maxPacket d1 = ud_maxPacket d"
      using Decode_roomy_keeps [OF Cons.prems(1) parse_fragmentOf [OF i Cons.prems(3)] insertI1 step [unfolded f]] by auto
    have "S \<union> arrived seq packet (c # calls) \<noteq> {..<fragCount packet}" by (rule Cons.prems(6))
    then show ?thesis
      using Cons.IH [OF keep(1) h Cons.prems(3) _ _ _ run(1)] Cons.prems(4,5) keep(2) r run(2) eq
      by (simp add: nth_Cons' )
  next
    case False
    have other: "s \<in> K" if "parseFrame f = Inr (s, i, n, b)" for s i n b
      using Cons.prems(5) False that by (auto simp: c call_ok_def)
    have eq: "arrived seq packet (c # calls) = arrived seq packet calls"
      using arrived_Cons(2) [OF Cons.prems(3), of f seq] False by (simp add: c)
    have keep: "room_for seq K d1" "holds_fragments seq packet S (t + udpFragmentAssemblyTTL) d1" "ud_maxPacket d1 = ud_maxPacket d"
      using other_frame_step [OF Cons.prems(1,2) other win(1) step] by auto
    show ?thesis
      using Cons.IH [OF keep(1,2) Cons.prems(3) _ _ _ run(1)] Cons.prems(4,5,6) keep(3) run(2) eq False
      by (auto simp: nth_Cons' c)
  qed
qed

lemma decode_run_snoc:
  "decode_run (calls @ [(it, now, f)]) d =
     (let (d1, rs) = decode_run calls d; (d2, r) = Decode it now f d1 in (d2, rs @ [r]))"
  by (induction calls arbitrary: d) (auto simp: Let_def split: prod.split)

section \<open>Runs of the encoder\<close>

fun encode_run :: "bytes list \<Rightarrow> udpFragmentEncoder \<Rightarrow> udpFragmentEncoder \<times> (udp_error + bytes list) list" where
  "encode_run [] e = (e, [])"
| "encode_run (packet # packets) e =
     (let (e1, r) = Encode packet e; (e2, rs) = encode_run packets e1 in (e2, r # rs))"

definition frameSeq :: "bytes \<Rightarrow> 32 word" where
  "frameSeq frame = Uint32 (take 4 (drop 1 frame))"

text \<open>How many sequence numbers an encoder has used up; it only grows.\<close>

definition used_seqs :: "udpFragmentEncoder \<Rightarrow> nat" where
  "used_seqs e = (if ue_exhausted e then 2 ^ 32 else unat (ue_nextSeq e))"

lemma Encode_used:
  assumes "Encode packet e = (e', r)"
  shows "(case r of Inl err \<Rightarrow> e' = e
    | Inr frames \<Rightarrow> used_seqs e' = Suc (used_seqs e) \<and> (\<forall>f \<in> set frames. unat (frameSeq f) = used_seqs e))"
proof (cases r)
  case (Inl err)
  with assms show ?thesis by (auto simp: Encode_def Let_def split: if_splits)
next
  case (Inr frames)
  have "unat (ue_nextSeq e + 1) = Suc (unat (ue_nextSeq e))" if "ue_nextSeq e \<noteq> NOT 0"
  proof -
    have "1 + ue_nextSeq e \<noteq> 0"
      using that eq_neg_iff_add_eq_0 [of "ue_nextSeq e" 1] by (simp add: add.commute)
    then show ?thesis
      using unatSuc [of "ue_nextSeq e"] by (simp add: add.commute)
  qed
  moreover have "unat (NOT 0 :: 32 word) = 2 ^ 32 - 1"
    by (simp add: unsigned_minus_1_eq_mask mask_eq_exp_minus_1)
  ultimately show ?thesis
    using assms unfolding Inr Encode_Inr
    by (auto simp: used_seqs_def frameSeq_def mkFrame_nth split: if_splits)
qed

lemma encode_run_used:
  assumes "encode_run packets e = (e', rs)"
  shows "length rs = length packets \<and> used_seqs e \<le> used_seqs e'
    \<and> (\<forall>i frames f. i < length rs \<longrightarrow> rs ! i = Inr frames \<longrightarrow> f \<in> set frames \<longrightarrow> used_seqs e \<le> unat (frameSeq f))"
  using assms
proof (induction packets arbitrary: e rs)
  case (Cons packet packets)
  obtain e1 r where enc: "Encode packet e = (e1, r)" by fastforce
  obtain rs' where run: "encode_run packets e1 = (e', rs')" "rs = r # rs'"
    using Cons.prems enc by (auto split: prod.splits)
  have le: "used_seqs e \<le> used_seqs e1"
    using Encode_used [OF enc] by (cases r) auto
  have first: "used_seqs e \<le> unat (frameSeq f)" if "r = Inr frames" "f \<in> set frames" for frames f
    using Encode_used [OF enc] that by simp
  have "used_seqs e \<le> unat (frameSeq f)" if "i < length rs" "rs ! i = Inr frames" "f \<in> set frames" for i frames f
  proof (cases i)
    case 0
    with that run(2) show ?thesis by (intro first) simp_all
  next
    case (Suc j)
    with that run(2) Cons.IH [OF run(1)] have "used_seqs e1 \<le> unat (frameSeq f)" by auto
    with le show ?thesis by simp
  qed
  then show ?case
    using Cons.IH [OF run(1)] le run(2) by auto
qed simp

section \<open>Properties\<close>

lemma reassembly:
  assumes "Encode packet e = (e', Inr frames)" and "int (length packet) \<le> ud_maxPacket d"
    and "room_for (ue_nextSeq e) K d" and "gm_lookup (ud_pending d) (ue_nextSeq e) = None"
    and "\<forall>(it, now, f) \<in> set (calls @ [final]). t \<le> now \<and> now < t + udpFragmentAssemblyTTL
      \<and> (f \<in> set frames \<or> (\<forall>s i n b. parseFrame f = Inr (s, i, n, b) \<longrightarrow> s \<in> K))"
    and "set frames \<subseteq> (snd \<circ> snd) ` set (calls @ [final])" and "\<not> set frames \<subseteq> (snd \<circ> snd) ` set calls"
    and "decode_run (calls @ [final]) d = (d', rs)"
  shows "last rs = Inr (Some packet) \<and> gm_lookup (ud_pending d') (ue_nextSeq e) = None
    \<and> (\<forall>k < length calls. snd (snd (calls ! k)) \<in> set frames \<longrightarrow> rs ! k = Inr None)"
proof -
  let ?seq = "ue_nextSeq e" and ?hi = "t + udpFragmentAssemblyTTL"
  from assms(1) have ne: "packet \<noteq> []" and n: "fragCount packet \<le> 64"
    and frames: "frames = map (fragmentOf ?seq packet) [0..<fragCount packet]"
    by (simp_all add: Encode_Inr)
  have inframes: "f \<in> set frames \<longleftrightarrow> (\<exists>i < fragCount packet. f = fragmentOf ?seq packet i)" for f
    by (auto simp: frames)
  have ok: "\<forall>c \<in> set (calls @ [final]). call_ok ?seq packet K t c"
    using assms(5) unfolding call_ok_def inframes by fast
  have full: "arrived ?seq packet cs = {..<fragCount packet} \<longleftrightarrow> set frames \<subseteq> (snd \<circ> snd) ` set cs" for cs
    by (auto simp: arrived_def frames)
  have "holds_fragments ?seq packet {} ?hi d"
    using assms(4) ne fragCount_less [of 0 packet] by (auto simp: holds_fragments_def)
  moreover obtain d1 rs1 where run: "decode_run calls d = (d1, rs1)" by fastforce
  ultimately have inc: "room_for ?seq K d1" "holds_fragments ?seq packet (arrived ?seq packet calls) ?hi d1"
      "ud_maxPacket d1 = ud_maxPacket d" "length rs1 = length calls"
      "\<forall>k < length calls. (\<exists>i < fragCount packet. snd (snd (calls ! k)) = fragmentOf ?seq packet i) \<longrightarrow> rs1 ! k = Inr None"
    using incomplete_run [OF assms(3) _ n assms(2), of "{}" t calls d1 rs1] ok assms(7) full [of calls] by auto
  obtain it now f where final: "final = (it, now, f)" by (cases final)
  obtain r where step: "Decode it now f d1 = (d', r)" and rs: "rs = rs1 @ [r]"
    using assms(8) run by (auto simp: final decode_run_snoc split: prod.splits)
  from assms(6,7) have "f \<in> set frames"
    by (auto simp: final)
  then obtain i where i: "i < fragCount packet" and f: "f = fragmentOf ?seq packet i"
    by (auto simp: frames)
  have all: "insert i (arrived ?seq packet calls) = {..<fragCount packet}"
    using full [of "final # calls"] assms(6) arrived_Cons(1) [OF n i, of ?seq it now calls] by (simp add: final f)
  have "now < ?hi" "?hi \<le> now + udpFragmentAssemblyTTL"
    using ok by (auto simp: final call_ok_def)
  then show ?thesis
    using own_fragment_step [OF inc(1,2) i n _ _ _ step [unfolded f]] assms(2) all inc(3,4,5) rs
    by (auto simp: inframes nth_append)
qed

text \<open>
  C6 (roundtrip). The fragments of an encoded packet may reach the decoder in any order, with
  duplicates, and interleaved with invalid frames and with frames of other sequences, as long as
  they all arrive within two seconds and fewer than sixteen other sequences are pending: the
  frame that completes the set returns exactly the packet, and every earlier frame of it returned
  nothing.
\<close>

theorem reassembly_any_order:
  assumes "Encode packet e = (e', Inr frames)" and "int (length packet) \<le> ud_maxPacket d"
    and "room_for (ue_nextSeq e) K d" and "gm_lookup (ud_pending d) (ue_nextSeq e) = None"
    and "\<forall>(it, now, f) \<in> set (calls @ [final]). t \<le> now \<and> now < t + udpFragmentAssemblyTTL
      \<and> (f \<in> set frames \<or> (\<forall>s i n b. parseFrame f = Inr (s, i, n, b) \<longrightarrow> s \<in> K))"
    and "set frames \<subseteq> (snd \<circ> snd) ` set (calls @ [final])" and "\<not> set frames \<subseteq> (snd \<circ> snd) ` set calls"
    and "decode_run (calls @ [final]) d = (d', rs)"
  shows "last rs = Inr (Some packet) \<and> gm_lookup (ud_pending d') (ue_nextSeq e) = None
    \<and> (\<forall>k < length calls. snd (snd (calls ! k)) \<in> set frames \<longrightarrow> rs ! k = Inr None)"
  by (rule reassembly [OF assms])

text \<open>A packet of two fragments, which arrive in reverse order, the second of them twice, with a
  frame of another sequence in between.\<close>

definition ex_packet :: bytes where "ex_packet = replicate 1001 7"
definition ex_foreign :: bytes where "ex_foreign = mkFrame 9 0 2 [1]"

lemma ex_packet_simps:
  "length ex_packet = 1001" "fragCount ex_packet = 2" "chunk ex_packet 0 = replicate 1000 7"
  "chunk ex_packet 1 = [7]" "chunk ex_packet (Suc 0) = [7]" "ex_packet \<noteq> []"
  by (simp_all add: ex_packet_def fragCount_def chunk_def)

lemma ex_packet_Encode:
  "Encode ex_packet (newUDPFragmentEncoder 0) =
     ((newUDPFragmentEncoder 0)\<lparr>ue_nextSeq := 1\<rparr>, Inr [fragmentOf 0 ex_packet 0, fragmentOf 0 ex_packet 1])"
  by (simp add: Encode_Inr ex_packet_simps newUDPFragmentEncoder_def upt_rec)

theorem reassembly_any_order_witness:
  "last (snd (decode_run [([], 5, fragmentOf 0 ex_packet 1), ([], 6, ex_foreign), ([], 7, fragmentOf 0 ex_packet 1),
     ([], 8, fragmentOf 0 ex_packet 0)] (newUDPFragmentDecoder 0))) = Inr (Some ex_packet)"
proof -
  let ?calls = "[([], 5, fragmentOf 0 ex_packet 1), ([], 6, ex_foreign), ([], 7, fragmentOf 0 ex_packet 1)]"
  let ?final = "([], 8, fragmentOf 0 ex_packet 0)"
  have "parseFrame ex_foreign = Inr (9, 0, 2, [1])"
    unfolding ex_foreign_def by (rule parseFrame_mkFrame) simp_all
  moreover have "fragmentOf 0 ex_packet 0 \<noteq> ex_foreign" "fragmentOf 0 ex_packet 0 \<noteq> fragmentOf 0 ex_packet 1"
    by (simp_all add: mkFrame_def ex_foreign_def ex_packet_simps)
  moreover have "room_for 0 {9} (newUDPFragmentDecoder 0)"
    by (simp add: room_for_def newUDPFragmentDecoder_def)
  ultimately show ?thesis
    using reassembly_any_order [OF ex_packet_Encode, of "newUDPFragmentDecoder 0" "{9}" ?calls ?final 5]
    by (cases "decode_run (?calls @ [?final]) (newUDPFragmentDecoder 0)")
       (auto simp: newUDPFragmentEncoder_def newUDPFragmentDecoder_def ex_packet_simps)
qed

text \<open>
  C7 (safety). Packets are never invented or mixed: whatever frames (hostile ones included) a
  decoder has seen, a packet it returns is the concatenation of the payloads of frames it
  received, one for every index, all with the sequence and the count of the frame that completed
  it, and it is no longer than the configured size.
\<close>

theorem Decode_provenance:
  assumes "reachable_decoder maxPacket F d" and "gm_order it (ud_pending (pruneExpiredLocked now d))"
    and "snd (Decode it now f d) = Inr (Some packet)"
  shows "\<exists>seq i n b ps. parseFrame f = Inr (seq, i, n, b) \<and> packet = concat ps \<and> length ps = n
    \<and> (\<forall>j < n. mkFrame seq j n (ps ! j) \<in> insert f F) \<and> int (length packet) \<le> ud_maxPacket d"
proof -
  obtain d' where "Decode it now f d = (d', Inr (Some packet))"
    using assms(3) by (cases "Decode it now f d") auto
  then show ?thesis
    using Decode_spec [OF _ _ assms(2)] reachable_decoder_inv [OF assms(1)] by blast
qed

lemma ex_one_frame:
  "Decode [] 5 (mkFrame 3 0 1 [42]) (newUDPFragmentDecoder 100) = (newUDPFragmentDecoder 100, Inr (Some [42]))"
proof -
  have "parseFrame (mkFrame 3 0 1 [42]) = Inr (3, 0, 1, [42])"
    by (rule parseFrame_mkFrame) simp_all
  then show ?thesis
    by (simp add: Decode_def newUDPFragmentDecoder_def pruneExpiredLocked_def newAssembly_def addFragment_def
        gm_lookup_def gm_put_def gm_delete_def gm_len_def Let_def AList.delete_eq)
qed

theorem Decode_provenance_witness:
  "\<exists>seq i n b ps. parseFrame (mkFrame 3 0 1 [42]) = Inr (seq, i, n, b) \<and> [42] = concat ps \<and> length ps = n
    \<and> (\<forall>j < n. mkFrame seq j n (ps ! j) \<in> {mkFrame 3 0 1 [42]}) \<and> int (length [42 :: byte]) \<le> 100"
  using Decode_provenance [OF reachable_decoder.fresh [of 100], of "[]" 5 "mkFrame 3 0 1 [42]" "[42]"]
  by (simp add: ex_one_frame [unfolded newUDPFragmentDecoder_def, simplified] gm_order_def
      newUDPFragmentDecoder_def pruneExpiredLocked_def)

text \<open>
  C8 (bounds). Whatever frames a peer sends, a decoder holds at most sixteen assemblies and at
  most sixteen times the packet size of fragment bytes, and every assembly's counters agree with
  the fragments it holds.
\<close>

theorem decoder_memory_bounded:
  assumes "reachable_decoder maxPacket F d"
  shows "pendingCount d \<le> udpFragmentMaxAssemblies \<and> int (bufferedBytes d) \<le> 16 * ud_maxPacket d
    \<and> (\<forall>seq a. gm_lookup (ud_pending d) seq = Some a \<longrightarrow> ua_wf (ud_maxPacket d) a)"
proof -
  have wf: "ud_wf d" using reachable_decoder_inv [OF assms] by blast
  show ?thesis
    using wf bufferedBytes_le [OF wf] by (simp add: ud_wf_def ud_asm_def)
qed

text \<open>A decoder that has the first of two fragments.\<close>

theorem decoder_memory_bounded_witness:
  "let d = fst (Decode [] 5 (mkFrame 3 0 2 [42]) (newUDPFragmentDecoder 100)) in
     pendingCount d = 1 \<and> bufferedBytes d = 1 \<and> pendingCount d \<le> udpFragmentMaxAssemblies \<and> int (bufferedBytes d) \<le> 16 * ud_maxPacket d
     \<and> (\<exists>a. gm_lookup (ud_pending d) 3 = Some a \<and> ua_wf (ud_maxPacket d) a)"
proof -
  let ?start = "newUDPFragmentDecoder 100" and ?f = "mkFrame 3 0 2 [42]"
  let ?d = "fst (Decode [] 5 ?f ?start)"
  have "gm_order [] (ud_pending (pruneExpiredLocked 5 ?start))"
    by (simp add: newUDPFragmentDecoder_def pruneExpiredLocked_def gm_order_def)
  then have "reachable_decoder 100 {?f} ?d"
    by (rule reachable_decoder.frame [OF reachable_decoder.fresh _ prod.collapse [symmetric]])
  note bounds = decoder_memory_bounded [OF this]
  have "parseFrame ?f = Inr (3, 0, 2, [42])" by (rule parseFrame_mkFrame) simp_all
  then have "pendingCount ?d = 1" "bufferedBytes ?d = 1" "\<exists>a. gm_lookup (ud_pending ?d) 3 = Some a"
    by (simp_all add: Decode_def newUDPFragmentDecoder_def pruneExpiredLocked_def newAssembly_def addFragment_def pendingCount_def
        bufferedBytes_def parts_total_def numeral_2_eq_2 gm_lookup_def gm_put_def gm_len_def Let_def)
  with bounds show ?thesis unfolding Let_def by blast
qed

text \<open>
  C9 (safety). An encoder never uses a sequence number twice, not even after \<open>2 ^ 32\<close> packets:
  of two packets it accepts, the later one's frames carry the larger number.
\<close>

theorem encode_run_sequences:
  assumes "encode_run packets e = (e', rs)" and "i < j" and "j < length rs"
    and "rs ! i = Inr frames" and "f \<in> set frames" and "rs ! j = Inr frames'" and "f' \<in> set frames'"
  shows "unat (frameSeq f) < unat (frameSeq f')"
  using assms
proof (induction packets arbitrary: e rs i j)
  case (Cons packet packets)
  obtain e1 r where enc: "Encode packet e = (e1, r)" by fastforce
  obtain rs' where run: "encode_run packets e1 = (e', rs')" and rs: "rs = r # rs'"
    using Cons.prems(1) enc by (auto split: prod.splits)
  obtain j' where j: "j = Suc j'" using Cons.prems(2) by (cases j) auto
  show ?case
  proof (cases i)
    case 0
    then have "unat (frameSeq f) < used_seqs e1"
      using Encode_used [OF enc] Cons.prems(4,5) rs by auto
    also have "\<dots> \<le> unat (frameSeq f')"
      using encode_run_used [OF run] Cons.prems(3,6,7) rs j by auto
    finally show ?thesis .
  next
    case (Suc i')
    with Cons.IH [OF run, of i' j'] Cons.prems rs j show ?thesis by simp
  qed
qed simp

lemma ex_encode_run:
  "encode_run [[1], [2]] (newUDPFragmentEncoder 0) =
     ((newUDPFragmentEncoder 0)\<lparr>ue_nextSeq := 2\<rparr>, [Inr [mkFrame 0 0 1 [1]], Inr [mkFrame 1 0 1 [2]]])"
  by (simp add: Encode_def newUDPFragmentEncoder_def Let_def framesFrom.simps)

theorem encode_run_sequences_witness:
  "unat (frameSeq (mkFrame 0 0 1 [1])) < unat (frameSeq (mkFrame 1 0 1 [2]))"
  using encode_run_sequences [OF ex_encode_run, of 0 1] by simp

text \<open>
  \<open>Encode\<close> accepts exactly the packets that are not empty, not larger than the
  configured size and not larger than 64 fragments of 1000 bytes, as long as sequence numbers are
  left; then it cuts the packet into frames of at most 1007 bytes that each carry the packet's
  sequence number, index and count, and whose payloads are the packet in order. A refused packet
  leaves the encoder unchanged.
\<close>

theorem Encode_spec:
  "case Encode packet e of
     (e', Inl err) \<Rightarrow> e' = e
       \<and> (packet = [] \<or> ue_maxPacket e < int (length packet) \<or> 64000 < length packet \<or> ue_exhausted e)
   | (e', Inr frames) \<Rightarrow> packet \<noteq> [] \<and> int (length packet) \<le> ue_maxPacket e \<and> length packet \<le> 64000
       \<and> \<not> ue_exhausted e \<and> length frames = (length packet + 999) div 1000
       \<and> concat (map (drop 7) frames) = packet
       \<and> list_all (\<lambda>i. parseFrame (frames ! i) = Inr (ue_nextSeq e, i, length frames, drop 7 (frames ! i))
             \<and> length (frames ! i) \<le> 1007) [0..<length frames]"
proof -
  obtain e' r where enc: "Encode packet e = (e', r)" by fastforce
  have size: "fragCount packet \<le> 64 \<longleftrightarrow> length packet \<le> 64000"
    using fragCount_less [of 64 packet] by (auto simp: not_less)
  show ?thesis
  proof (cases r)
    case (Inl err)
    have "\<not> (packet \<noteq> [] \<and> int (length packet) \<le> ue_maxPacket e \<and> fragCount packet \<le> 64 \<and> \<not> ue_exhausted e)"
    proof
      assume "packet \<noteq> [] \<and> int (length packet) \<le> ue_maxPacket e \<and> fragCount packet \<le> 64 \<and> \<not> ue_exhausted e"
      then have "\<exists>e'' fs. Encode packet e = (e'', Inr fs)"
        by (simp only: Encode_Inr) blast
      with enc Inl show False by simp
    qed
    with enc Inl size Encode_used [OF enc] show ?thesis by auto
  next
    case (Inr frames)
    with enc have frames: "frames = map (fragmentOf (ue_nextSeq e) packet) [0..<fragCount packet]" and n: "fragCount packet \<le> 64"
      and rest: "packet \<noteq> []" "int (length packet) \<le> ue_maxPacket e" "\<not> ue_exhausted e"
      by (simp_all add: Encode_Inr)
    have "concat (map (drop 7) frames) = packet"
      by (simp add: frames comp_def mkFrame_nth concat_chunks)
    moreover have "parseFrame (frames ! i) = Inr (ue_nextSeq e, i, length frames, drop 7 (frames ! i)) \<and> length (frames ! i) \<le> 1007"
      if "i < length frames" for i
      using that parse_fragmentOf [OF _ n, of i "ue_nextSeq e"] chunk_length [of i packet]
      by (simp add: frames mkFrame_nth)
    ultimately show ?thesis
      using enc Inr rest n size by (auto simp: list_all_iff frames fragCount_def)
  qed
qed

text \<open>
  The internal error of \<open>Decode\<close> (an assembly whose count says complete while a part
  is missing) and the out-of-range panic on \<open>parts[index]\<close> cannot happen, whatever frames arrive.
\<close>

theorem Decode_no_internal_error:
  assumes "reachable_decoder maxPacket F d" and "gm_order it (ud_pending (pruneExpiredLocked now d))"
  shows "snd (Decode it now f d) \<notin> {Inl PartsPanic, Inl IncompleteAssembly}"
  using Decode_spec [OF _ _ assms(2), of F f] reachable_decoder_inv [OF assms(1)]
  by (cases "Decode it now f d") auto

theorem Decode_no_internal_error_witness:
  "snd (Decode [] 5 (mkFrame 3 0 1 [42]) (newUDPFragmentDecoder 100)) \<notin> {Inl PartsPanic, Inl IncompleteAssembly}"
  using Decode_no_internal_error [OF reachable_decoder.fresh [of 100], of "[]" 5 "mkFrame 3 0 1 [42]"]
  by (simp add: gm_order_def newUDPFragmentDecoder_def pruneExpiredLocked_def)

end
