(* ===== verification/Replay_Cache.thy ===== *)
theory Replay_Cache
  imports Prelude
begin

text \<open>
  The cache of accepted nonces (\<open>replayCache\<close> in \<open>internal/quicx/auth.go\<close>).

  The Go value holds a map from nonces to elements of a doubly linked list, and the list in
  insertion order. A list element is an identity, here a number that no earlier element has,
  together with the entry it carries. Every method runs under the cache's mutex, so each is one
  atomic step here.
  \<open>makeRoom\<close> is the loop of \<open>Add\<close>; it does not return when the list is empty and the
  capacity is not positive, so it is a partial function.

  Lemmas: the invariant \<open>rc_wf\<close> (the map and the list hold the same nonces, once each) is kept
  by every operation; under it \<open>Add\<close> returns, never exceeds the capacity, and refuses a nonce
  exactly when an unexpired entry holds it. \<open>Add_keeps\<close> says which entries survive an
  insertion; the authenticator's replay theorem rests on it.
\<close>

section \<open>State and operations\<close>

record replayEntry =
  re_key :: string
  re_expiresAt :: instant

type_synonym element = "nat \<times> replayEntry"

record replayCache =
  rc_capacity :: int
  rc_window :: duration
  rc_items :: "(string, nat) gomap"
  rc_order :: "element list"
  rc_next :: nat

definition newReplayCache :: "int \<Rightarrow> duration \<Rightarrow> replayCache" where
  "newReplayCache capacity window =
     \<lparr>rc_capacity = capacity, rc_window = window, rc_items = [], rc_order = [], rc_next = 0\<rparr>"

definition removeElement :: "element option \<Rightarrow> replayCache \<Rightarrow> replayCache" where
  "removeElement elem c =
     (case elem of
        None \<Rightarrow> c
      | Some (i, entry) \<Rightarrow>
          c\<lparr>rc_items := gm_delete (re_key entry) (rc_items c),
            rc_order := filter (\<lambda>e. fst e \<noteq> i) (rc_order c)\<rparr>)"

definition Front :: "replayCache \<Rightarrow> element option" where
  "Front c = (case rc_order c of [] \<Rightarrow> None | e # _ \<Rightarrow> Some e)"

lemma removeElement_shorter:
  "Front c = Some e \<Longrightarrow> length (rc_order (removeElement (Some e) c)) < length (rc_order c)"
  by (cases e) (auto simp: Front_def removeElement_def le_imp_less_Suc split: list.splits)

function pruneExpired :: "instant \<Rightarrow> replayCache \<Rightarrow> replayCache" where
  "pruneExpired now c =
     (case Front c of
        None \<Rightarrow> c
      | Some e \<Rightarrow>
          if now < re_expiresAt (snd e) then c
          else pruneExpired now (removeElement (Some e) c))"
  by pat_completeness auto
termination
  by (relation "measure (\<lambda>(now, c). length (rc_order c))") (auto intro: removeElement_shorter)

declare pruneExpired.simps [simp del]

partial_function (option) makeRoom :: "replayCache \<Rightarrow> replayCache option" where
  "makeRoom c =
     (if rc_capacity c \<le> int (gm_len (rc_items c)) then makeRoom (removeElement (Front c) c) else Some c)"

definition pushEntry :: "string \<Rightarrow> instant \<Rightarrow> replayCache \<Rightarrow> replayCache" where
  "pushEntry key now c =
     c\<lparr>rc_order := rc_order c @ [(rc_next c, \<lparr>re_key = key, re_expiresAt = now + rc_window c\<rparr>)],
       rc_items := gm_put key (rc_next c) (rc_items c),
       rc_next := Suc (rc_next c)\<rparr>"

definition Add :: "bytes \<Rightarrow> instant \<Rightarrow> replayCache \<Rightarrow> (replayCache \<times> bool) option" where
  "Add nonce now c =
     (let c1 = pruneExpired now c; key = string_of_bytes nonce in
      case gm_lookup (rc_items c1) key of
        Some _ \<Rightarrow> Some (c1, False)
      | None \<Rightarrow> map_option (\<lambda>c2. (pushEntry key now c2, True)) (makeRoom c1))"

definition Len :: "replayCache \<Rightarrow> nat" where
  "Len c = gm_len (rc_items c)"

section \<open>The invariant\<close>

definition rc_keys :: "replayCache \<Rightarrow> string list" where
  "rc_keys c = map (re_key \<circ> snd) (rc_order c)"

definition rc_wf :: "replayCache \<Rightarrow> bool" where
  "rc_wf c \<longleftrightarrow> gm_wf (rc_items c) \<and> distinct (rc_keys c) \<and> gm_keys (rc_items c) = set (rc_keys c)
     \<and> distinct (map fst (rc_order c)) \<and> list_all (\<lambda>e. fst e < rc_next c) (rc_order c)"

lemma rc_wf_new [simp]: "rc_wf (newReplayCache capacity window)"
  by (simp add: rc_wf_def rc_keys_def newReplayCache_def)

lemma Len_order: "rc_wf c \<Longrightarrow> Len c = length (rc_order c)"
  using distinct_card [of "rc_keys c"] by (simp add: rc_wf_def Len_def gm_len_card rc_keys_def)

lemma rc_lookup_iff: "rc_wf c \<Longrightarrow> gm_lookup (rc_items c) k \<noteq> None \<longleftrightarrow> k \<in> set (rc_keys c)"
  using gm_keys_lookup [of k "rc_items c"] by (simp add: rc_wf_def)

text \<open>Removing the front element drops the head of the list and its nonce.\<close>

lemma removeElement_front:
  assumes "rc_wf c" and "rc_order c = e # es"
  shows "removeElement (Front c) c
    = c\<lparr>rc_items := gm_delete (re_key (snd e)) (rc_items c), rc_order := es\<rparr>"
proof -
  have "fst e \<notin> fst ` set es"
    using assms by (simp add: rc_wf_def)
  then have "filter (\<lambda>x. fst x \<noteq> fst e) es = es"
    by (metis (mono_tags, lifting) filter_True image_eqI)
  with assms show ?thesis
    by (cases e) (simp add: Front_def removeElement_def)
qed

lemma rc_wf_removeElement_front:
  assumes wf: "rc_wf c"
  shows "rc_wf (removeElement (Front c) c)"
proof (cases "rc_order c")
  case Nil
  with wf show ?thesis by (simp add: Front_def removeElement_def)
next
  case (Cons e es)
  show ?thesis
    unfolding removeElement_front [OF wf Cons]
    using wf Cons by (auto simp: rc_wf_def rc_keys_def gomap)
qed

lemma rc_config_removeElement [simp]:
  "rc_capacity (removeElement e c) = rc_capacity c"
  "rc_window (removeElement e c) = rc_window c"
  "rc_next (removeElement e c) = rc_next c"
  by (auto simp: removeElement_def split: option.splits)

lemma rc_wf_pushEntry: "rc_wf c \<Longrightarrow> key \<notin> set (rc_keys c) \<Longrightarrow> rc_wf (pushEntry key now c)"
  by (fastforce simp: rc_wf_def rc_keys_def pushEntry_def gomap list_all_iff)

section \<open>Pruning\<close>

text \<open>Pruning drops the longest prefix of expired entries.\<close>

definition expired :: "instant \<Rightarrow> element \<Rightarrow> bool" where
  "expired now e \<longleftrightarrow> re_expiresAt (snd e) \<le> now"

lemma pruneExpired_spec:
  "rc_wf c \<Longrightarrow> rc_wf (pruneExpired now c)
     \<and> rc_order (pruneExpired now c) = dropWhile (expired now) (rc_order c)
     \<and> rc_capacity (pruneExpired now c) = rc_capacity c
     \<and> rc_window (pruneExpired now c) = rc_window c"
proof (induction now c rule: pruneExpired.induct)
  case (1 now c)
  show ?case
  proof (cases "rc_order c")
    case Nil
    with "1.prems" show ?thesis
      by (simp add: pruneExpired.simps [of now c] Front_def)
  next
    case (Cons e es)
    then have f: "Front c = Some e"
      by (simp add: Front_def)
    show ?thesis
    proof (cases "now < re_expiresAt (snd e)")
      case True
      with f Cons "1.prems" show ?thesis
        by (simp add: pruneExpired.simps [of now c] expired_def)
    next
      case False
      have wf': "rc_wf (removeElement (Some e) c)"
        using rc_wf_removeElement_front [OF "1.prems"] f by simp
      have "rc_order (removeElement (Some e) c) = es"
        using removeElement_front [OF "1.prems" Cons] f by simp
      with "1.IH" [OF f False wf'] False f Cons show ?thesis
        by (simp add: pruneExpired.simps [of now c] expired_def)
    qed
  qed
qed

lemmas rc_wf_pruneExpired = pruneExpired_spec [THEN conjunct1]
lemmas rc_order_pruneExpired = pruneExpired_spec [THEN conjunct2, THEN conjunct1]
lemmas rc_config_pruneExpired =
  pruneExpired_spec [THEN conjunct2, THEN conjunct2, THEN conjunct1]
  pruneExpired_spec [THEN conjunct2, THEN conjunct2, THEN conjunct2]

section \<open>Making room\<close>

text \<open>With a positive capacity the loop returns, having dropped just enough of the oldest
  entries to leave room for one.\<close>

lemma makeRoom_spec:
  assumes "rc_wf c" and "0 < rc_capacity c"
  shows "\<exists>c'. makeRoom c = Some c' \<and> rc_wf c' \<and> rc_capacity c' = rc_capacity c \<and> rc_window c' = rc_window c
    \<and> rc_order c' = drop (length (rc_order c) + 1 - nat (rc_capacity c)) (rc_order c)"
  using assms
proof (induction "length (rc_order c)" arbitrary: c)
  case 0
  then have "\<not> rc_capacity c \<le> int (gm_len (rc_items c))"
    using Len_order [of c] by (simp add: Len_def)
  with 0 show ?case
    by (simp add: makeRoom.simps [of c])
next
  case (Suc n)
  then obtain e es where es: "rc_order c = e # es"
    by (cases "rc_order c") auto
  define c' where "c' = removeElement (Front c) c"
  have order': "rc_order c' = es"
    using removeElement_front [OF Suc.prems(1) es] by (simp add: c'_def)
  have len: "gm_len (rc_items c) = Suc n"
    using Len_order [OF Suc.prems(1)] Suc.hyps(2) by (simp add: Len_def)
  show ?case
  proof (cases "rc_capacity c \<le> int (Suc n)")
    case True
    have "makeRoom c = makeRoom c'"
      using True len by (simp add: makeRoom.simps [of c] c'_def)
    moreover have "n = length (rc_order c')"
      using order' es Suc.hyps(2) by simp
    moreover have "rc_wf c'" "0 < rc_capacity c'"
      using Suc.prems rc_wf_removeElement_front [of c] by (simp_all add: c'_def)
    moreover have "length (rc_order c) + 1 - nat (rc_capacity c)
        = Suc (length (rc_order c') + 1 - nat (rc_capacity c'))"
      using True es order' Suc.hyps(2) by (simp add: c'_def)
    ultimately show ?thesis
      using Suc.hyps(1) [of c'] es order' by (simp add: c'_def)
  next
    case False
    with Suc len show ?thesis
      by (simp add: makeRoom.simps [of c] es)
  qed
qed

section \<open>Insertion\<close>

text \<open>What \<open>Add\<close> does, on both branches.\<close>

lemma Add_spec:
  fixes now :: instant
  assumes wf: "rc_wf c" and cap: "0 < rc_capacity c"
  defines "live \<equiv> dropWhile (expired now) (rc_order c)"
  shows "\<exists>c' ok. Add nonce now c = Some (c', ok) \<and> rc_wf c'
    \<and> rc_capacity c' = rc_capacity c \<and> rc_window c' = rc_window c
    \<and> (ok \<longleftrightarrow> string_of_bytes nonce \<notin> (re_key \<circ> snd) ` set live)
    \<and> (if ok then \<exists>i. rc_order c' = drop (length live + 1 - nat (rc_capacity c)) live
           @ [(i, \<lparr>re_key = string_of_bytes nonce, re_expiresAt = now + rc_window c\<rparr>)]
       else rc_order c' = live)"
proof -
  define c1 where "c1 = pruneExpired now c"
  define key where "key = string_of_bytes nonce"
  have c1: "rc_wf c1" "rc_order c1 = live" "rc_capacity c1 = rc_capacity c" "rc_window c1 = rc_window c"
    using pruneExpired_spec [OF wf, of now] by (simp_all add: c1_def live_def)
  have keys: "set (rc_keys c1) = (re_key \<circ> snd) ` set live"
    by (simp add: rc_keys_def c1)
  show ?thesis
  proof (cases "key \<in> set (rc_keys c1)")
    case True
    then obtain v where "gm_lookup (rc_items c1) key = Some v"
      using rc_lookup_iff [OF c1(1)] by blast
    then have "Add nonce now c = Some (c1, False)"
      by (simp add: Add_def c1_def key_def Let_def)
    with True c1 keys show ?thesis
      by (intro exI [of _ c1] exI [of _ False]) (simp add: key_def)
  next
    case False
    then have none: "gm_lookup (rc_items c1) key = None"
      using rc_lookup_iff [OF c1(1)] by blast
    from makeRoom_spec [OF c1(1)] cap c1 obtain c2 where c2:
      "makeRoom c1 = Some c2" "rc_wf c2" "rc_capacity c2 = rc_capacity c" "rc_window c2 = rc_window c"
      "rc_order c2 = drop (length live + 1 - nat (rc_capacity c)) live"
      by auto
    have "set (rc_keys c2) \<subseteq> set (rc_keys c1)"
      by (auto simp: rc_keys_def c2 c1 dest: in_set_dropD)
    with False have "rc_wf (pushEntry key now c2)"
      by (intro rc_wf_pushEntry c2) blast
    moreover have "Add nonce now c = Some (pushEntry key now c2, True)"
      using none c2(1) by (simp add: Add_def c1_def [symmetric] key_def [symmetric] Let_def)
    ultimately show ?thesis
      using False keys c2
      by (intro exI [of _ "pushEntry key now c2"] exI [of _ True]) (simp add: pushEntry_def key_def)
  qed
qed

text \<open>The cache is one of the program's bounded stores.\<close>

interpretation nonces: bounded_store Len "\<lambda>(_ :: unit) c. removeElement (Front c) c" "\<lambda>_ _. True"
  pushEntry rc_wf
proof unfold_locales
  fix c :: replayCache
  assume "rc_wf c" and "0 < Len c"
  then obtain e es where "rc_order c = e # es"
    by (cases "rc_order c") (auto simp: Len_order)
  with \<open>rc_wf c\<close> show "Len (removeElement (Front c) c) = Len c - 1"
    by (simp add: Len_order rc_wf_removeElement_front) (simp add: removeElement_front)
next
  fix c :: replayCache
  assume "rc_wf c"
  then show "rc_wf (removeElement (Front c) c)"
    by (rule rc_wf_removeElement_front)
next
  fix c :: replayCache and key now
  assume "rc_wf c"
  then show "Len (pushEntry key now c) \<le> Suc (Len c)"
    by (simp add: Len_def pushEntry_def gm_len_put rc_wf_def)
qed

lemma makeRoom_one:
  assumes "rc_wf c" and "0 < rc_capacity c" and "int (Len c) \<le> rc_capacity c"
  shows "makeRoom c = Some (if nat (rc_capacity c) \<le> Len c then removeElement (Front c) c else c)"
proof (cases "rc_capacity c \<le> int (Len c)")
  case True
  let ?c' = "removeElement (Front c) c"
  have "int (Len ?c') < rc_capacity ?c'"
    using nonces.evict_size [of c] assms True by simp
  then have "makeRoom ?c' = Some ?c'"
    by (simp add: makeRoom.simps [of ?c'] Len_def)
  with True show ?thesis
    by (simp add: makeRoom.simps [of c] Len_def)
next
  case False
  then show ?thesis
    by (simp add: makeRoom.simps [of c] Len_def)
qed

lemma Len_pruneExpired: "rc_wf c \<Longrightarrow> Len (pruneExpired now c) \<le> Len c"
  by (simp add: Len_order rc_wf_pruneExpired rc_order_pruneExpired length_dropWhile_le)

lemma Add_bounded:
  assumes wf: "rc_wf c" and cap: "0 < rc_capacity c" and len: "int (Len c) \<le> rc_capacity c"
    and add: "Add nonce now c = Some (c', ok)"
  shows "int (Len c') \<le> rc_capacity c'"
proof -
  define c1 where "c1 = pruneExpired now c"
  have c1: "rc_wf c1" "rc_capacity c1 = rc_capacity c" "int (Len c1) \<le> rc_capacity c1"
    using pruneExpired_spec [OF wf, of now] Len_pruneExpired [OF wf, of now] len
    by (auto simp: c1_def)
  show ?thesis
  proof (cases "gm_lookup (rc_items c1) (string_of_bytes nonce)")
    case None
    let ?c2 = "if nat (rc_capacity c1) \<le> Len c1 then removeElement (Front c1) c1 else c1"
    have "c' = pushEntry (string_of_bytes nonce) now ?c2"
      using add None makeRoom_one [OF c1(1) _ c1(3)] c1 cap
      by (simp add: Add_def c1_def [symmetric] Let_def split: if_splits)
    moreover have "Len (pushEntry (string_of_bytes nonce) now ?c2) \<le> nat (rc_capacity c1)"
      by (rule nonces.store_after_evict_bounded) (use c1 cap in auto)
    moreover have "rc_capacity (pushEntry (string_of_bytes nonce) now ?c2) = rc_capacity c1"
      by (simp add: pushEntry_def)
    ultimately show ?thesis
      using cap c1(2) by simp
  next
    case (Some v)
    with add c1 show ?thesis
      by (simp add: Add_def c1_def [symmetric] Let_def)
  qed
qed

section \<open>How long an entry stays\<close>

text \<open>\<open>holds_entry c key exp n\<close>: the nonce \<open>key\<close> is in the cache until \<open>exp\<close>, and exactly
  \<open>n\<close> entries were inserted after it.\<close>

definition holds_entry :: "replayCache \<Rightarrow> string \<Rightarrow> instant \<Rightarrow> nat \<Rightarrow> bool" where
  "holds_entry c key exp n \<longleftrightarrow>
     (\<exists>pre i post. rc_order c = pre @ (i, \<lparr>re_key = key, re_expiresAt = exp\<rparr>) # post \<and> length post = n)"

lemma Add_inserts:
  assumes "rc_wf c" and "0 < rc_capacity c" and "Add nonce now c = Some (c', True)"
  shows "holds_entry c' (string_of_bytes nonce) (now + rc_window c) 0"
  using Add_spec [OF assms(1,2), where now = now and nonce = nonce] assms(3)
  by (fastforce simp: holds_entry_def)

text \<open>Until it expires, an entry is only displaced by as many later insertions as the cache
  holds, and meanwhile its nonce is refused.\<close>

lemma Add_keeps:
  assumes wf: "rc_wf c" and cap: "0 < rc_capacity c" and fresh: "now < exp"
    and holds: "holds_entry c key exp n" and add: "Add nonce now c = Some (c', ok)"
  shows "ok \<Longrightarrow> string_of_bytes nonce \<noteq> key"
    and "\<not> ok \<Longrightarrow> holds_entry c' key exp n"
    and "ok \<Longrightarrow> int (Suc n) < rc_capacity c \<Longrightarrow> holds_entry c' key exp (Suc n)"
proof -
  define e where "e = \<lparr>re_key = key, re_expiresAt = exp\<rparr>"
  define live where "live = dropWhile (expired now) (rc_order c)"
  from holds obtain pre i post where order: "rc_order c = pre @ (i, e) # post" and n: "length post = n"
    by (auto simp: holds_entry_def e_def)
  define pre' where "pre' = dropWhile (expired now) pre"
  have live: "live = pre' @ (i, e) # post"
    using fresh unfolding live_def order pre'_def by (subst dropWhile_append3) (auto simp: expired_def e_def)
  note spec = Add_spec [OF wf cap, where now = now and nonce = nonce, folded live_def]
  show "string_of_bytes nonce \<noteq> key" if ok
    using spec add that by (auto simp: live e_def)
  show "holds_entry c' key exp n" if "\<not> ok"
    using spec add that live n by (fastforce simp: holds_entry_def e_def)
  assume ok and room: "int (Suc n) < rc_capacity c"
  then obtain j where order': "rc_order c' = drop (length live + 1 - nat (rc_capacity c)) live
      @ [(j, \<lparr>re_key = string_of_bytes nonce, re_expiresAt = now + rc_window c\<rparr>)]"
    using spec add by auto
  have "length live + 1 - nat (rc_capacity c) \<le> length pre'"
    using room n by (simp add: live)
  then have "rc_order c' = drop (length live + 1 - nat (rc_capacity c)) pre' @ (i, e) # post
      @ [(j, \<lparr>re_key = string_of_bytes nonce, re_expiresAt = now + rc_window c\<rparr>)]"
    using order' by (simp add: live)
  then show "holds_entry c' key exp (Suc n)"
    unfolding holds_entry_def e_def using n by (intro exI conjI) auto
qed

end
