(* ===== verification/Auth.thy ===== *)
theory Auth
  imports Replay_Cache Go_Strings Sha256
begin

text \<open>
  Request authentication (\<open>internal/quicx/auth.go\<close>): key derivation, the signing and the
  checking of the bearer token of a CONNECT request.

  \<^item> The \<open>io.Reader\<close> of an authenticator is an argument of \<open>Sign\<close>: the outcome of reading
    the nonce from it.
  \<^item> \<open>golang.org/x/crypto/hkdf\<close> is third-party code: \<open>DeriveAuthKey\<close> takes it as the
    function \<open>hkdf secret salt info n\<close>, the first \<open>n\<close> bytes of its output or its error.
  \<^item> Instants are nanoseconds since the Unix epoch. \<open>time_Unix\<close> is \<open>time.Unix(ts, 0)\<close> with
    the wrap-around of its 64-bit count of seconds since year 1.
  \<^item> The one clock of \<open>Validate\<close> serves the skew check and the expiry of the nonces. In Go the first reads the
    wall clock and the second the monotonic clock of the same \<open>time.Time\<close>; they differ when the wall
    clock is set while the server runs.
  \<^item> \<open>Validate\<close> is \<open>None\<close> when the nonce cache's loop does not return; \<open>Validate_returns\<close>
    shows it always returns on the states the program can reach.

  Lemmas: the authenticated input determines every field (\<open>canonicalAuthInput_inj\<close>), what an
  accepted token consists of (\<open>Validate_accepts\<close>), what it changes (\<open>Validate_cache\<close>). The
  properties are at the end.
\<close>

section \<open>Constants, types, errors\<close>

definition authVersion :: byte where "authVersion = 5"
abbreviation authKeyLen :: nat where "authKeyLen \<equiv> 32"
abbreviation authNonceLen :: nat where "authNonceLen \<equiv> 16"
abbreviation authMACLen :: nat where "authMACLen \<equiv> 32"
abbreviation authTokenLen :: nat where "authTokenLen \<equiv> 1 + 8 + authNonceLen + authMACLen"
definition authScheme :: string where "authScheme = ''Bearer''"
definition authKeyInfo :: bytes where "authKeyInfo = bytes_of_string ''chimera-h3-auth-v1''"

datatype auth_error =
    PskLength | PublicKeyLength | ShortIDLength | KdfFailed
  | NoKeys | SkewNotPositive | CapacityNotPositive | KeyLength
  | FieldsRequired | FieldTooLong | NonceLength | RandFailed | KeyIndexPanic

record Authenticator =
  au_keys :: "bytes list"
  au_maxSkew :: duration
  au_replay :: replayCache

section \<open>Key derivation and construction\<close>

definition DeriveAuthKey ::
  "(bytes \<Rightarrow> bytes \<Rightarrow> bytes \<Rightarrow> nat \<Rightarrow> bytes option) \<Rightarrow> bytes \<Rightarrow> bytes \<Rightarrow> bytes \<Rightarrow> auth_error + bytes" where
  "DeriveAuthKey hkdf psk publicKey shortID =
     (if length psk \<noteq> authKeyLen then Inl PskLength
      else if length publicKey \<noteq> 32 then Inl PublicKeyLength
      else if length shortID = 0 \<or> 8 < length shortID then Inl ShortIDLength
      else let salt = publicKey @ shortID in
        case hkdf psk salt authKeyInfo authKeyLen of
          None \<Rightarrow> Inl KdfFailed
        | Some key \<Rightarrow> Inr key)"

definition NewAuthenticator :: "bytes list \<Rightarrow> duration \<Rightarrow> int \<Rightarrow> auth_error + Authenticator" where
  "NewAuthenticator keys maxSkew replayCapacity =
     (if keys = [] then Inl NoKeys
      else if maxSkew \<le> 0 then Inl SkewNotPositive
      else if replayCapacity \<le> 0 then Inl CapacityNotPositive
      else if \<not> list_all (\<lambda>key. length key = authKeyLen) keys then Inl KeyLength
      else Inr \<lparr>au_keys = keys, au_maxSkew = maxSkew,
                au_replay = newReplayCache replayCapacity (to_int64 (2 * maxSkew + second))\<rparr>)"

section \<open>The authenticated input\<close>

definition normalizeAuthFields ::
  "unicode_tables \<Rightarrow> string \<Rightarrow> string \<Rightarrow> string \<Rightarrow> auth_error + (string \<times> string \<times> string)" where
  "normalizeAuthFields U method authority serverName =
     (let m = ToUpper U (TrimSpace method);
          a = ToLower U (TrimSpace authority);
          s = ToLower U (TrimSpace serverName)
      in if m = [] \<or> a = [] \<or> s = [] then Inl FieldsRequired
         else if 65535 < length m \<or> 65535 < length a \<or> 65535 < length s then Inl FieldTooLong
         else Inr (m, a, s))"

definition encodeField :: "string \<Rightarrow> bytes" where
  "encodeField field = PutUint16 (of_nat (length field)) @ bytes_of_string field"

fun writeFields :: "bytes \<Rightarrow> string list \<Rightarrow> auth_error + bytes" where
  "writeFields buf [] = Inr buf"
| "writeFields buf (field # fs) =
     (if 65535 < length field then Inl FieldTooLong
      else writeFields (buf @ encodeField field) fs)"

definition canonicalAuthInput ::
  "64 word \<Rightarrow> bytes \<Rightarrow> string \<Rightarrow> string \<Rightarrow> string \<Rightarrow> auth_error + bytes" where
  "canonicalAuthInput timestamp nonce method authority serverName =
     (if length nonce \<noteq> authNonceLen then Inl NonceLength
      else writeFields ([authVersion] @ PutUint64 timestamp @ nonce) [method, authority, serverName])"

section \<open>Signing and checking\<close>

definition Unix_of :: "instant \<Rightarrow> 64 word" where
  "Unix_of now = word_of_int (now div second)"

definition time_Unix :: "64 word \<Rightarrow> instant" where
  "time_Unix ts = (sint (ts + 62135596800) - 62135596800) * second"

definition makeToken :: "64 word \<Rightarrow> bytes \<Rightarrow> bytes \<Rightarrow> bytes" where
  "makeToken timestamp nonce mac = [authVersion] @ PutUint64 timestamp @ nonce @ mac"

definition Sign ::
  "unicode_tables \<Rightarrow> Authenticator \<Rightarrow> bytes option \<Rightarrow> string \<Rightarrow> string \<Rightarrow> string \<Rightarrow> instant
     \<Rightarrow> auth_error + string" where
  "Sign U a rand method authority serverName now =
     (case normalizeAuthFields U method authority serverName of
        Inl e \<Rightarrow> Inl e
      | Inr (m, au, s) \<Rightarrow>
          (case rand of
             None \<Rightarrow> Inl RandFailed
           | Some nonce \<Rightarrow>
               let timestamp = Unix_of now in
               (case canonicalAuthInput timestamp nonce m au s of
                  Inl e \<Rightarrow> Inl e
                | Inr input \<Rightarrow>
                    (case au_keys a of
                       [] \<Rightarrow> Inl KeyIndexPanic
                     | key # _ \<Rightarrow>
                         Inr (authScheme @ '' ''
                           @ b64_EncodeToString (makeToken timestamp nonce (hmac_sha256 key input)))))))"

text \<open>The first part of \<open>Validate\<close>: the header's timestamp, nonce and MAC.\<close>

definition parseToken :: "string \<Rightarrow> (64 word \<times> bytes \<times> bytes) option" where
  "parseToken header =
     (case Fields header of
        [scheme, text] \<Rightarrow>
          (if \<not> EqualFold scheme authScheme then None
           else case b64_DecodeString text of
             None \<Rightarrow> None
           | Some token \<Rightarrow>
               (if length token \<noteq> authTokenLen \<or> hd token \<noteq> authVersion then None
                else Some (Uint64 (take 8 (drop 1 token)),
                           take authNonceLen (drop 9 token),
                           drop (9 + authNonceLen) token)))
      | _ \<Rightarrow> None)"

fun macMatches :: "bytes list \<Rightarrow> bytes \<Rightarrow> bytes \<Rightarrow> bool \<Rightarrow> bool" where
  "macMatches [] input providedMAC matched = matched"
| "macMatches (key # keys) input providedMAC matched =
     macMatches keys input providedMAC (if hmac_sha256 key input = providedMAC then True else matched)"

definition Validate ::
  "unicode_tables \<Rightarrow> Authenticator \<Rightarrow> string \<Rightarrow> string \<Rightarrow> string \<Rightarrow> string \<Rightarrow> instant
     \<Rightarrow> (Authenticator \<times> bool) option" where
  "Validate U a header method authority serverName now =
     (case parseToken header of
        None \<Rightarrow> Some (a, False)
      | Some (timestamp, nonce, providedMAC) \<Rightarrow>
          let issuedAt = time_Unix timestamp in
          if issuedAt < now - au_maxSkew a \<or> now + au_maxSkew a < issuedAt then Some (a, False)
          else (case normalizeAuthFields U method authority serverName of
             Inl _ \<Rightarrow> Some (a, False)
           | Inr (m, au, s) \<Rightarrow>
               (case canonicalAuthInput timestamp nonce m au s of
                  Inl _ \<Rightarrow> Some (a, False)
                | Inr input \<Rightarrow>
                    if \<not> macMatches (au_keys a) input providedMAC False then Some (a, False)
                    else map_option (\<lambda>(c, ok). (a\<lparr>au_replay := c\<rparr>, ok)) (Add nonce now (au_replay a)))))"

section \<open>Encoding lemmas\<close>

lemma writeFields_Inr:
  "writeFields buf fs = Inr out \<longleftrightarrow>
     list_all (\<lambda>f. length f \<le> 65535) fs \<and> out = buf @ concat (map encodeField fs)"
  by (induction buf fs rule: writeFields.induct) (auto simp: not_less)

lemma encodeField_inj:
  assumes "encodeField f @ r = encodeField g @ r'" and "length f \<le> 65535" and "length g \<le> 65535"
  shows "f = g \<and> r = r'"
proof -
  from assms(1) have len: "PutUint16 (of_nat (length f)) = PutUint16 (of_nat (length g))"
    and rest: "bytes_of_string f @ r = bytes_of_string g @ r'"
    by (auto simp: encodeField_def append_eq_append_conv)
  from len have "(of_nat (length f) :: 16 word) = of_nat (length g)"
    by simp
  then have "unat (of_nat (length f) :: 16 word) = unat (of_nat (length g) :: 16 word)"
    by simp
  with assms have "length f = length g"
    by (simp add: unsigned_of_nat take_bit_eq_mod)
  with rest show ?thesis
    by simp
qed

lemma canonicalAuthInput_Inr:
  "canonicalAuthInput ts nonce m a s = Inr out \<longleftrightarrow>
     length nonce = authNonceLen \<and> length m \<le> 65535 \<and> length a \<le> 65535 \<and> length s \<le> 65535
     \<and> out = [authVersion] @ PutUint64 ts @ nonce @ encodeField m @ encodeField a @ encodeField s"
  by (auto simp: canonicalAuthInput_def writeFields_Inr split: if_splits)

lemma canonicalAuthInput_inj:
  assumes "canonicalAuthInput ts nonce m a s = Inr out"
    and "canonicalAuthInput ts' nonce' m' a' s' = Inr out"
  shows "ts = ts' \<and> nonce = nonce' \<and> m = m' \<and> a = a' \<and> s = s'"
proof -
  note ok = assms [unfolded canonicalAuthInput_Inr]
  from ok have "PutUint64 ts @ nonce @ encodeField m @ encodeField a @ encodeField s
      = PutUint64 ts' @ nonce' @ encodeField m' @ encodeField a' @ encodeField s'"
    by auto
  then have "PutUint64 ts = PutUint64 ts'"
    and "nonce @ encodeField m @ encodeField a @ encodeField s
      = nonce' @ encodeField m' @ encodeField a' @ encodeField s'"
    by (auto simp: append_eq_append_conv)
  with ok have hd: "ts = ts'" "nonce = nonce'"
    and fs: "encodeField m @ encodeField a @ encodeField s = encodeField m' @ encodeField a' @ encodeField s'"
    by auto
  from encodeField_inj [OF fs] ok have "m = m'"
    and fs2: "encodeField a @ encodeField s = encodeField a' @ encodeField s'"
    by auto
  from encodeField_inj [OF fs2] ok have "a = a'" and "encodeField s = encodeField s'"
    by auto
  with encodeField_inj [of s "[]" s' "[]"] ok hd \<open>m = m'\<close> show ?thesis
    by auto
qed

lemma macMatches_iff:
  "macMatches keys input mac matched \<longleftrightarrow> matched \<or> (\<exists>key \<in> set keys. hmac_sha256 key input = mac)"
  by (induction keys input mac matched rule: macMatches.induct) auto

lemma normalizeAuthFields_bounds:
  "normalizeAuthFields U method authority serverName = Inr (m, a, s) \<Longrightarrow>
     m \<noteq> [] \<and> a \<noteq> [] \<and> s \<noteq> [] \<and> length m \<le> 65535 \<and> length a \<le> 65535 \<and> length s \<le> 65535"
  by (auto simp: normalizeAuthFields_def Let_def split: if_splits)

lemma parseToken_makeToken:
  assumes "length nonce = authNonceLen" and "length mac = authMACLen"
  shows "parseToken (authScheme @ '' '' @ b64_EncodeToString (makeToken ts nonce mac)) = Some (ts, nonce, mac)"
proof -
  let ?token = "makeToken ts nonce mac"
  have "plain authScheme" "authScheme \<noteq> []"
    by (simp_all add: authScheme_def plain_char_def)
  moreover have "b64_EncodeToString ?token \<noteq> []"
  proof
    assume "b64_EncodeToString ?token = []"
    then have "b64_DecodeString (b64_EncodeToString ?token) = Some []"
      by (simp only:) (simp add: b64_DecodeString_def)
    then show False
      by (simp add: makeToken_def)
  qed
  ultimately have "Fields (authScheme @ '' '' @ b64_EncodeToString ?token) = [authScheme, b64_EncodeToString ?token]"
    by (intro Fields_pair b64_chars_plain)
  with assms show ?thesis
    by (simp add: parseToken_def EqualFold_def makeToken_def)
qed

lemma parseToken_lengths:
  "parseToken header = Some (ts, nonce, mac) \<Longrightarrow> length nonce = authNonceLen \<and> length mac = authMACLen"
  by (auto simp: parseToken_def split: list.splits if_splits option.splits)

section \<open>Checking, branch by branch\<close>

text \<open>What an authenticator built by \<open>NewAuthenticator\<close> satisfies, as long as the skew is
  below 73 years and the replay window does not wrap around.\<close>

definition auth_wf :: "Authenticator \<Rightarrow> bool" where
  "auth_wf a \<longleftrightarrow> rc_wf (au_replay a) \<and> 0 < rc_capacity (au_replay a)
     \<and> int (Len (au_replay a)) \<le> rc_capacity (au_replay a)
     \<and> 0 < au_maxSkew a \<and> rc_window (au_replay a) = 2 * au_maxSkew a + second"

lemma auth_wf_new:
  assumes "NewAuthenticator keys skew cap = Inr a" and "skew \<le> 2 ^ 61"
  shows "auth_wf a \<and> rc_capacity (au_replay a) = cap \<and> au_maxSkew a = skew"
proof -
  from assms(2) have "0 < skew \<Longrightarrow> to_int64 (2 * skew + second) = 2 * skew + second"
    by (intro to_int64_id) auto
  with assms show ?thesis
    by (auto simp: NewAuthenticator_def auth_wf_def newReplayCache_def Len_def gm_len_def rc_wf_def rc_keys_def
        split: if_splits)
qed

text \<open>The guard of the nonce cache: everything \<open>Validate\<close> checks before it.\<close>

definition token_ok ::
  "unicode_tables \<Rightarrow> Authenticator \<Rightarrow> 64 word \<times> bytes \<times> bytes \<Rightarrow> string \<Rightarrow> string \<Rightarrow> string \<Rightarrow> instant \<Rightarrow> bool" where
  "token_ok U a tok method authority serverName now \<longleftrightarrow>
     (case tok of (ts, nonce, mac) \<Rightarrow>
        now - au_maxSkew a \<le> time_Unix ts \<and> time_Unix ts \<le> now + au_maxSkew a
        \<and> (\<exists>m au s input. normalizeAuthFields U method authority serverName = Inr (m, au, s)
             \<and> canonicalAuthInput ts nonce m au s = Inr input
             \<and> (\<exists>key \<in> set (au_keys a). hmac_sha256 key input = mac)))"

lemma Validate_cases:
  "Validate U a header method authority serverName now =
     (case parseToken header of
        None \<Rightarrow> Some (a, False)
      | Some tok \<Rightarrow>
          if token_ok U a tok method authority serverName now
          then map_option (\<lambda>(c, ok). (a\<lparr>au_replay := c\<rparr>, ok)) (Add (fst (snd tok)) now (au_replay a))
          else Some (a, False))"
  by (auto simp: Validate_def token_ok_def macMatches_iff not_less Let_def split: option.splits sum.splits prod.splits)

lemma Validate_returns:
  assumes wf: "auth_wf a"
  shows "\<exists>a' ok. Validate U a header method authority serverName now = Some (a', ok)
    \<and> auth_wf a' \<and> au_keys a' = au_keys a \<and> au_maxSkew a' = au_maxSkew a
    \<and> rc_capacity (au_replay a') = rc_capacity (au_replay a)"
proof -
  show ?thesis
  proof (cases "\<exists>tok. parseToken header = Some tok \<and> token_ok U a tok method authority serverName now")
    case True
    then obtain tok where tok: "parseToken header = Some tok" "token_ok U a tok method authority serverName now"
      by blast
    obtain c' ok where add: "Add (fst (snd tok)) now (au_replay a) = Some (c', ok)" "rc_wf c'"
      "rc_capacity c' = rc_capacity (au_replay a)" "rc_window c' = rc_window (au_replay a)"
      using Add_spec [of "au_replay a"] wf by (fastforce simp: auth_wf_def)
    moreover have "int (Len c') \<le> rc_capacity c'"
      using Add_bounded [OF _ _ _ add(1)] wf by (auto simp: auth_wf_def)
    ultimately show ?thesis
      using tok wf by (simp add: Validate_cases auth_wf_def)
  next
    case False
    with wf show ?thesis
      by (auto simp: Validate_cases split: option.splits)
  qed
qed

section \<open>Runs of requests\<close>

text \<open>The requests an authenticator is asked about, in the order the cache's mutex serialises
  them, with the instant each was checked at.\<close>

record auth_call =
  ac_header :: string
  ac_method :: string
  ac_authority :: string
  ac_now :: instant

fun validate_run ::
  "unicode_tables \<Rightarrow> string \<Rightarrow> Authenticator \<Rightarrow> auth_call list \<Rightarrow> (Authenticator \<times> bool list) option" where
  "validate_run U serverName a [] = Some (a, [])"
| "validate_run U serverName a (r # rs) =
     (case Validate U a (ac_header r) (ac_method r) (ac_authority r) serverName (ac_now r) of
        None \<Rightarrow> None
      | Some (a', ok) \<Rightarrow> map_option (\<lambda>(a'', oks). (a'', ok # oks)) (validate_run U serverName a' rs))"

lemma validate_run_returns:
  "auth_wf a \<Longrightarrow> \<exists>a' oks. validate_run U serverName a rs = Some (a', oks) \<and> auth_wf a'
     \<and> length oks = length rs \<and> au_maxSkew a' = au_maxSkew a
     \<and> rc_capacity (au_replay a') = rc_capacity (au_replay a)"
proof (induction rs arbitrary: a)
  case Nil
  then show ?case by simp
next
  case (Cons r rs)
  obtain a1 ok where step:
    "Validate U a (ac_header r) (ac_method r) (ac_authority r) serverName (ac_now r) = Some (a1, ok)"
    and wf1: "auth_wf a1" "au_maxSkew a1 = au_maxSkew a"
      "rc_capacity (au_replay a1) = rc_capacity (au_replay a)"
    using Validate_returns [OF Cons.prems] by metis
  from Cons.IH [OF wf1(1)] step wf1(2,3) show ?case
    by auto
qed

lemma validate_run_append:
  "validate_run U serverName a (xs @ ys) =
     (case validate_run U serverName a xs of
        None \<Rightarrow> None
      | Some (a', oks) \<Rightarrow> map_option (\<lambda>(a'', oks'). (a'', oks @ oks')) (validate_run U serverName a' ys))"
  by (induction xs arbitrary: a)
    (auto simp: map_option_case split: option.splits prod.splits)

lemma Validate_step:
  assumes "Validate U a header method authority serverName now = Some (a', ok)"
  obtains
      (cached) tok c where "parseToken header = Some tok" "Add (fst (snd tok)) now (au_replay a) = Some (c, ok)"
        "a' = a\<lparr>au_replay := c\<rparr>"
    | (rejected) "a' = a" "\<not> ok"
proof (cases "parseToken header")
  case None
  with assms rejected show thesis
    by (simp add: Validate_cases)
next
  case (Some tok)
  show thesis
  proof (cases "token_ok U a tok method authority serverName now")
    case True
    with assms Some obtain c where "Add (fst (snd tok)) now (au_replay a) = Some (c, ok)"
      "a' = a\<lparr>au_replay := c\<rparr>"
      by (auto simp: Validate_cases)
    with Some show thesis by (rule cached)
  next
    case False
    with assms Some rejected show thesis
      by (simp add: Validate_cases)
  qed
qed

lemma Validate_cache_step:
  assumes wf: "auth_wf a" and fresh: "now < exp"
    and holds: "holds_entry (au_replay a) key exp n"
    and step: "Validate U a header method authority serverName now = Some (a', ok)"
  shows "\<not> ok \<Longrightarrow> holds_entry (au_replay a') key exp n"
    and "ok \<Longrightarrow> int (Suc n) < rc_capacity (au_replay a) \<Longrightarrow> holds_entry (au_replay a') key exp (Suc n)"
    and "ok \<Longrightarrow> parseToken header = Some (ts, nonce, mac) \<Longrightarrow> string_of_bytes nonce \<noteq> key"
proof -
  from step consider
      (cached) tok c where "parseToken header = Some tok" "Add (fst (snd tok)) now (au_replay a) = Some (c, ok)"
        "a' = a\<lparr>au_replay := c\<rparr>"
    | (rejected) "a' = a" "\<not> ok"
    by (rule Validate_step)
  note cases = this
  have c: "rc_wf (au_replay a)" "0 < rc_capacity (au_replay a)"
    using wf by (simp_all add: auth_wf_def)
  note keeps = Add_keeps [OF c fresh holds]
  show "holds_entry (au_replay a') key exp n" if "\<not> ok"
    using cases by cases (use keeps(2) that holds in auto)
  show "holds_entry (au_replay a') key exp (Suc n)" if ok "int (Suc n) < rc_capacity (au_replay a)"
    using cases by cases (use keeps(3) that in auto)
  show "string_of_bytes nonce \<noteq> key" if ok "parseToken header = Some (ts, nonce, mac)"
    using cases by cases (use keeps(1) that in fastforce)+
qed

lemma validate_run_cache:
  assumes "auth_wf a" and "\<forall>r \<in> set rs. ac_now r < exp"
    and "holds_entry (au_replay a) key exp n"
    and "validate_run U serverName a rs = Some (a', oks)"
    and "int (n + count_list oks True) < rc_capacity (au_replay a)"
  shows "holds_entry (au_replay a') key exp (n + count_list oks True)"
  using assms
proof (induction rs arbitrary: a n oks)
  case Nil
  then show ?case by simp
next
  case (Cons r rs)
  then obtain a1 ok oks' where
    step: "Validate U a (ac_header r) (ac_method r) (ac_authority r) serverName (ac_now r) = Some (a1, ok)"
    and rest: "validate_run U serverName a1 rs = Some (a', oks')" and oks: "oks = ok # oks'"
    by (auto split: option.splits prod.splits)
  from Validate_returns [OF Cons.prems(1), of U "ac_header r" "ac_method r" "ac_authority r" serverName "ac_now r"] step
  have wf1: "auth_wf a1" and cap1: "rc_capacity (au_replay a1) = rc_capacity (au_replay a)"
    by auto
  define n1 where "n1 = (if ok then Suc n else n)"
  have "holds_entry (au_replay a1) key exp n1"
    using Validate_cache_step(1,2) [OF Cons.prems(1) _ Cons.prems(3) step] Cons.prems(2,5)
    by (auto simp: n1_def oks)
  moreover have sum: "n + count_list oks True = n1 + count_list oks' True"
    by (simp add: n1_def oks)
  ultimately show ?case
    using Cons.prems(2,5) cap1 unfolding sum by (intro Cons.IH [OF wf1 _ _ rest]) simp_all
qed

section \<open>Properties\<close>

lemma time_Unix_of:
  assumes "0 \<le> now" and "now div second < 2 ^ 62"
  shows "time_Unix (Unix_of now) = now div second * second"
proof -
  have "Unix_of now + 62135596800 = word_of_int (now div second + 62135596800)"
    by (simp add: Unix_of_def)
  moreover have "0 \<le> now div second"
    using assms(1) by simp
  ultimately have "sint (Unix_of now + 62135596800) = now div second + 62135596800"
    using assms(2) by (simp add: signed_of_int signed_take_bit_int_eq_self del: of_int_add)
  then show ?thesis
    by (simp add: time_Unix_def)
qed

text \<open>What a signed header parses to, and that its token is in order.\<close>

lemma Sign_Inr:
  assumes "Sign U signer rand method authority serverName now = Inr header"
  obtains nonce m au s key ks input where "rand = Some nonce" "length nonce = authNonceLen" "au_keys signer = key # ks"
    "normalizeAuthFields U method authority serverName = Inr (m, au, s)" "canonicalAuthInput (Unix_of now) nonce m au s = Inr input"
    "parseToken header = Some (Unix_of now, nonce, hmac_sha256 key input)"
proof -
  from assms obtain nonce m au s key ks input where
    parts: "rand = Some nonce" "au_keys signer = key # ks" "normalizeAuthFields U method authority serverName = Inr (m, au, s)"
      "canonicalAuthInput (Unix_of now) nonce m au s = Inr input"
    and header: "header = authScheme @ '' '' @ b64_EncodeToString (makeToken (Unix_of now) nonce (hmac_sha256 key input))"
    by (auto simp: Sign_def Let_def split: sum.splits option.splits list.splits)
  have len: "length nonce = authNonceLen" using parts(4) by (auto simp: canonicalAuthInput_def split: if_splits)
  have "parseToken header = Some (Unix_of now, nonce, hmac_sha256 key input)"
    unfolding header by (rule parseToken_makeToken) (simp_all add: len)
  with parts len that show thesis by blast
qed

lemma Add_fresh:
  assumes "auth_wf v" and "string_of_bytes nonce \<notin> set (rc_keys (au_replay v))"
  shows "\<exists>c'. Add nonce now (au_replay v) = Some (c', True)"
proof -
  have "string_of_bytes nonce \<notin> (re_key \<circ> snd) ` set (dropWhile (expired now) (rc_order (au_replay v)))"
    using assms(2) by (auto simp: rc_keys_def dest!: set_dropWhileD)
  then show ?thesis
    using Add_spec [of "au_replay v" nonce now] assms(1) by (auto simp: auth_wf_def)
qed

lemma Sign_accepted:
  assumes sign: "Sign U signer (Some nonce) method authority serverName now = Inr header"
    and "hd (au_keys signer) \<in> set (au_keys v)" and "auth_wf v" and "string_of_bytes nonce \<notin> set (rc_keys (au_replay v))"
    and "0 \<le> now" and "now div second < 2 ^ 62" and "\<bar>now' - now div second * second\<bar> \<le> au_maxSkew v"
  shows "\<exists>v'. Validate U v header method authority serverName now' = Some (v', True)"
proof -
  obtain m au s key ks input where keys: "au_keys signer = key # ks"
    and norm: "normalizeAuthFields U method authority serverName = Inr (m, au, s)" "canonicalAuthInput (Unix_of now) nonce m au s = Inr input"
    and parse: "parseToken header = Some (Unix_of now, nonce, hmac_sha256 key input)"
    using sign by (rule Sign_Inr) blast
  have "token_ok U v (Unix_of now, nonce, hmac_sha256 key input) method authority serverName now'"
    using assms(2,7) keys norm time_Unix_of [OF assms(5,6)] by (auto simp: token_ok_def)
  with parse Add_fresh [OF assms(3,4)] show ?thesis
    by (fastforce simp: Validate_cases)
qed

text \<open>C1 (roundtrip). A token that \<open>Sign\<close> makes is accepted by every authenticator that holds the
  signing key among its keys, for the same method, authority and server name, at every instant
  within the allowed skew of the second it was issued in, provided the nonce cache does not hold
  its nonce.\<close>

theorem Sign_Validate_roundtrip:
  assumes "au_keys signer = key # ks" and "auth_wf v" and "key \<in> set (au_keys v)"
    and "length nonce = authNonceLen" and "string_of_bytes nonce \<notin> set (rc_keys (au_replay v))"
    and "normalizeAuthFields U method authority serverName = Inr n"
    and "0 \<le> now" and "now div second < 2 ^ 62" and "\<bar>now' - now div second * second\<bar> \<le> au_maxSkew v"
  shows "\<exists>header v'. Sign U signer (Some nonce) method authority serverName now = Inr header
    \<and> Validate U v header method authority serverName now' = Some (v', True)"
proof -
  obtain m au s where n: "n = (m, au, s)" by (cases n)
  have "\<exists>input. canonicalAuthInput (Unix_of now) nonce m au s = Inr input"
    using normalizeAuthFields_bounds [of U "method" authority serverName m au s] assms(4,6)
    by (simp add: canonicalAuthInput_Inr n)
  then obtain header where sign: "Sign U signer (Some nonce) method authority serverName now = Inr header"
    using assms(1,6) by (auto simp: Sign_def n Let_def)
  with Sign_accepted [OF sign _ assms(2,5,7-9)] assms(1,3) show ?thesis by auto
qed

text \<open>What an accepted nonce means for the cache: no entry that has not expired was of this nonce, and
  the new cache has it as its youngest entry, for a whole window.\<close>

lemma Validate_nonce:
  assumes wf: "auth_wf a" and acc: "Validate U a header method authority serverName now = Some (a', True)"
    and tok: "parseToken header = Some (ts, nonce, mac)"
  shows "\<forall>e \<in> set (rc_order (au_replay a)). now < re_expiresAt (snd e) \<longrightarrow> re_key (snd e) \<noteq> string_of_bytes nonce"
    and "holds_entry (au_replay a') (string_of_bytes nonce) (now + 2 * au_maxSkew a + second) 0"
proof -
  have rc: "rc_wf (au_replay a)" "0 < rc_capacity (au_replay a)" "rc_window (au_replay a) = 2 * au_maxSkew a + second"
    using wf by (simp_all add: auth_wf_def)
  have add: "Add nonce now (au_replay a) = Some (au_replay a', True)"
    using acc tok by (auto simp: Validate_cases split: if_splits)
  then have "string_of_bytes nonce \<notin> (re_key \<circ> snd) ` set (dropWhile (expired now) (rc_order (au_replay a)))"
    using Add_spec [OF rc(1,2), where now = now and nonce = nonce] by auto
  moreover have "e \<in> set (dropWhile (expired now) xs)" if "e \<in> set xs" "now < re_expiresAt (snd e)" for e and xs :: "element list"
    using that by (induction xs) (auto simp: expired_def)
  ultimately show "\<forall>e \<in> set (rc_order (au_replay a)). now < re_expiresAt (snd e) \<longrightarrow> re_key (snd e) \<noteq> string_of_bytes nonce"
    by (metis comp_apply image_eqI)
  show "holds_entry (au_replay a') (string_of_bytes nonce) (now + 2 * au_maxSkew a + second) 0"
    using Add_inserts [OF rc(1,2) add] rc(3) by (simp add: add.assoc)
qed

text \<open>A token whose nonce the cache holds is refused, for whatever request it comes.\<close>

lemma Validate_held:
  assumes wf: "auth_wf a" and tok: "parseToken header = Some (ts, nonce, mac)"
    and held: "holds_entry (au_replay a) (string_of_bytes nonce) exp n" and "now < exp"
  shows "\<exists>a'. Validate U a header method authority serverName now = Some (a', False)"
proof -
  obtain c ok where add: "Add nonce now (au_replay a) = Some (c, ok)"
    using Add_spec [of "au_replay a", where now = now and nonce = nonce] wf by (auto simp: auth_wf_def)
  moreover have "\<not> ok"
    using Add_keeps(1) [OF _ _ assms(4) held add] wf by (auto simp: auth_wf_def)
  ultimately show ?thesis using tok by (simp add: Validate_cases)
qed

text \<open>C2 (safety). A request is accepted only with a bearer token of version 5 whose timestamp is
  within the skew of the clock, whose MAC is the HMAC, under one of the configured keys, of an
  input that spells out that timestamp, the nonce, and the request's own normalised method,
  authority and server name, and whose nonce is fresh: no unexpired entry of the replay cache has
  it. Afterwards the cache has it, and for twice the skew and a second the token is refused when it comes
  next, for whatever request. (\<open>auth_wf\<close> is the invariant of every authenticator that \<open>NewAuthenticator\<close>
  makes: \<open>auth_wf_new\<close>, \<open>Validate_returns\<close>.)\<close>

theorem Validate_sound:
  assumes wf: "auth_wf a"
    and acc: "Validate U a header method authority serverName now = Some (a', True)"
  shows "\<exists>ts nonce mac m au s key. parseToken header = Some (ts, nonce, mac)
    \<and> \<bar>time_Unix ts - now\<bar> \<le> au_maxSkew a
    \<and> normalizeAuthFields U method authority serverName = Inr (m, au, s)
    \<and> key \<in> set (au_keys a)
    \<and> mac = hmac_sha256 key ([authVersion] @ PutUint64 ts @ nonce @ encodeField m @ encodeField au @ encodeField s)
    \<and> (\<forall>e \<in> set (rc_order (au_replay a)). now < re_expiresAt (snd e) \<longrightarrow> re_key (snd e) \<noteq> string_of_bytes nonce)
    \<and> string_of_bytes nonce \<in> set (rc_keys (au_replay a'))
    \<and> (\<forall>rmethod host name. \<forall>now' < now + 2 * au_maxSkew a + second.
         \<exists>a''. Validate U a' header rmethod host name now' = Some (a'', False))"
proof -
  from acc obtain ts nonce mac where tok: "parseToken header = Some (ts, nonce, mac)"
    and ok: "token_ok U a (ts, nonce, mac) method authority serverName now"
    by (auto simp: Validate_cases split: option.splits if_splits)
  from ok obtain m au s input key where n: "normalizeAuthFields U method authority serverName = Inr (m, au, s)"
    and input: "canonicalAuthInput ts nonce m au s = Inr input"
    and key: "key \<in> set (au_keys a)" "hmac_sha256 key input = mac"
    and time: "now - au_maxSkew a \<le> time_Unix ts" "time_Unix ts \<le> now + au_maxSkew a"
    by (auto simp: token_ok_def)
  from input have mac: "mac = hmac_sha256 key ([authVersion] @ PutUint64 ts @ nonce @ encodeField m @ encodeField au @ encodeField s)"
    using key(2) by (simp add: canonicalAuthInput_Inr)
  have wf': "auth_wf a'"
    using Validate_returns [OF wf] acc by (metis option.inject prod.inject)
  note held = Validate_nonce(2) [OF wf acc tok]
  have kept: "string_of_bytes nonce \<in> set (rc_keys (au_replay a'))"
    using held by (auto simp: holds_entry_def rc_keys_def)
  from tok n key(1) mac time kept Validate_nonce(1) [OF wf acc tok] Validate_held [OF wf' tok held] show ?thesis
    by (intro exI [of _ ts] exI [of _ nonce] exI [of _ mac] exI [of _ m] exI [of _ au] exI [of _ s] exI [of _ key])
      auto
qed

text \<open>C3 (safety). A signed token is bound to its request: if the header signed for one method,
  authority and server name is accepted for another, the HMACs of the two requests' authenticated
  inputs (over the token's own timestamp and nonce) coincide, and those inputs differ as soon as
  the normalised requests do. Accepting it for a different request is a collision of HMAC on two
  explicit inputs.\<close>

theorem Sign_binds_request:
  assumes "Sign U signer (Some nonce) method authority serverName now = Inr header"
    and "Validate U v header method' authority' serverName' now' = Some (v', True)"
  shows "\<exists>m au s input key m' au' s' input' key'.
    normalizeAuthFields U method authority serverName = Inr (m, au, s)
    \<and> normalizeAuthFields U method' authority' serverName' = Inr (m', au', s')
    \<and> canonicalAuthInput (Unix_of now) nonce m au s = Inr input
    \<and> canonicalAuthInput (Unix_of now) nonce m' au' s' = Inr input'
    \<and> key \<in> set (au_keys signer) \<and> key' \<in> set (au_keys v)
    \<and> hmac_sha256 key input = hmac_sha256 key' input'
    \<and> ((m, au, s) \<noteq> (m', au', s') \<longrightarrow> input \<noteq> input')"
proof -
  from assms(1) obtain m au s input key ks where
    n: "normalizeAuthFields U method authority serverName = Inr (m, au, s)"
    and input: "canonicalAuthInput (Unix_of now) nonce m au s = Inr input"
    and key: "au_keys signer = key # ks"
    and header: "header = authScheme @ '' '' @ b64_EncodeToString (makeToken (Unix_of now) nonce (hmac_sha256 key input))"
    by (auto simp: Sign_def Let_def split: sum.splits list.splits)
  have "parseToken header = Some (Unix_of now, nonce, hmac_sha256 key input)"
    unfolding header using input by (intro parseToken_makeToken) (simp_all add: canonicalAuthInput_Inr)
  with assms(2) have "token_ok U v (Unix_of now, nonce, hmac_sha256 key input) method' authority' serverName' now'"
    by (auto simp: Validate_cases split: if_splits)
  then obtain m' au' s' input' key' where
    n': "normalizeAuthFields U method' authority' serverName' = Inr (m', au', s')"
    and input': "canonicalAuthInput (Unix_of now) nonce m' au' s' = Inr input'"
    and key': "key' \<in> set (au_keys v)" "hmac_sha256 key' input' = hmac_sha256 key input"
    by (auto simp: token_ok_def)
  have "(m, au, s) \<noteq> (m', au', s') \<longrightarrow> input \<noteq> input'"
    using canonicalAuthInput_inj [OF input] input' by blast
  moreover have "key \<in> set (au_keys signer)"
    by (simp add: key)
  ultimately show ?thesis
    using n n' input input' key' by metis
qed

text \<open>C4 (safety). Replay protection: from a new authenticator, in any run of requests checked at
  non-decreasing instants, if the same token (timestamp and nonce) is accepted twice then at least
  as many other requests as the cache holds were accepted in between. With fewer, the second use
  is always refused.\<close>

theorem no_replay_below_capacity:
  assumes new: "NewAuthenticator keys skew cap = Inr a0" and skew: "skew \<le> 2 ^ 61"
    and times: "sorted (map ac_now (xs @ r1 # ys @ [r2]))"
    and run: "validate_run U serverName a0 (xs @ r1 # ys @ [r2]) = Some (a', oks1 @ True # oks @ [True])"
    and len: "length oks1 = length xs" "length oks = length ys"
    and tok: "parseToken (ac_header r1) = Some (ts, nonce, mac1)" "parseToken (ac_header r2) = Some (ts, nonce, mac2)"
  shows "cap \<le> int (count_list oks True)"
proof (rule ccontr)
  assume few: "\<not> cap \<le> int (count_list oks True)"
  have wf0: "auth_wf a0" "rc_capacity (au_replay a0) = cap"
    using auth_wf_new [OF new skew] by auto
  obtain a os where pre: "validate_run U serverName a0 xs = Some (a, os)"
    and wf: "auth_wf a" "rc_capacity (au_replay a) = cap" and os: "length os = length xs"
    using validate_run_returns [OF wf0(1)] wf0(2) by metis
  have "validate_run U serverName a (r1 # ys @ [r2]) = Some (a', True # oks @ [True])"
    using run len os by (auto simp: validate_run_append pre)
  then obtain a1 a2 where
    step1: "Validate U a (ac_header r1) (ac_method r1) (ac_authority r1) serverName (ac_now r1) = Some (a1, True)"
    and mid: "validate_run U serverName a1 ys = Some (a2, oks)"
    and step2: "Validate U a2 (ac_header r2) (ac_method r2) (ac_authority r2) serverName (ac_now r2) = Some (a', True)"
    using len by (auto simp: validate_run_append split: option.splits prod.splits)
  define exp where "exp = ac_now r1 + rc_window (au_replay a)"
  have wf1: "auth_wf a1" "rc_capacity (au_replay a1) = cap" "au_maxSkew a1 = au_maxSkew a"
    using Validate_returns [OF wf(1)] step1 wf(2) by (metis (no_types, lifting) option.inject prod.inject)+
  have wf2: "auth_wf a2" "au_maxSkew a2 = au_maxSkew a"
    using validate_run_returns [OF wf1(1)] mid wf1(3) by (metis (no_types, lifting) option.inject prod.inject)+
  have inserted: "holds_entry (au_replay a1) (string_of_bytes nonce) exp 0"
    using step1 tok(1) wf(1)
    by (cases rule: Validate_step) (force simp: exp_def auth_wf_def dest: Add_inserts)+
  have "time_Unix ts \<le> ac_now r1 + au_maxSkew a"
    using step1 tok(1) by (auto simp: Validate_cases token_ok_def split: if_splits)
  moreover have "ac_now r2 - au_maxSkew a2 \<le> time_Unix ts"
    using step2 tok(2) by (auto simp: Validate_cases token_ok_def split: if_splits)
  ultimately have fresh: "ac_now r2 < exp"
    using wf(1) wf2(2) by (simp add: exp_def auth_wf_def)
  moreover have "\<forall>r \<in> set ys. ac_now r \<le> ac_now r2"
    using times by (auto simp: sorted_append)
  ultimately have "\<forall>r \<in> set ys. ac_now r < exp"
    by fastforce
  then have held: "holds_entry (au_replay a2) (string_of_bytes nonce) exp (0 + count_list oks True)"
    using few wf1(2) by (intro validate_run_cache [OF wf1(1) _ inserted mid]) simp_all
  have "string_of_bytes nonce \<noteq> string_of_bytes nonce"
    by (rule Validate_cache_step(3) [OF wf2(1) fresh held step2 TrueI tok(2)])
  then show False by simp
qed
text \<open>Checking requests always returns, and the nonce cache never holds more
  nonces than its capacity, whatever requests arrive and at whatever instants.\<close>

theorem validate_run_bounded:
  assumes "NewAuthenticator keys skew cap = Inr a" and "skew \<le> 2 ^ 61"
  shows "\<exists>a' oks. validate_run U serverName a rs = Some (a', oks) \<and> length oks = length rs
    \<and> rc_wf (au_replay a') \<and> int (Len (au_replay a')) \<le> cap"
  using validate_run_returns [of a U serverName rs] auth_wf_new [OF assms] by (fastforce simp: auth_wf_def)

text \<open>Key derivation fails closed: with an HKDF that delivers as many bytes as it is
  asked for (RFC 5869 guarantees that up to 8160), a key is derived exactly for a 32-byte PSK, a
  32-byte public key and a short ID of 1 to 8 bytes, and that key is one \<open>NewAuthenticator\<close>
  accepts. Different public keys or short IDs give different salts.\<close>

theorem DeriveAuthKey_spec:
  assumes "\<forall>secret salt info n. n \<le> 8160 \<longrightarrow> (\<exists>out. hkdf secret salt info n = Some out \<and> length out = n)"
  shows "((\<exists>key. DeriveAuthKey hkdf psk publicKey shortID = Inr key) \<longleftrightarrow>
      length psk = 32 \<and> length publicKey = 32 \<and> 1 \<le> length shortID \<and> length shortID \<le> 8)
    \<and> (\<forall>key. DeriveAuthKey hkdf psk publicKey shortID = Inr key \<longrightarrow>
      hkdf psk (publicKey @ shortID) authKeyInfo 32 = Some key
      \<and> (\<forall>skew cap. 0 < skew \<and> 0 < cap \<longrightarrow> (\<exists>a. NewAuthenticator [key] skew cap = Inr a))
      \<and> (\<forall>publicKey' shortID' key'. DeriveAuthKey hkdf psk publicKey' shortID' = Inr key'
           \<and> publicKey @ shortID = publicKey' @ shortID' \<longrightarrow> publicKey = publicKey' \<and> shortID = shortID'))"
proof -
  from assms [rule_format, of 32] obtain out where
    out: "hkdf psk (publicKey @ shortID) authKeyInfo 32 = Some out" "length out = 32"
    by fastforce
  then show ?thesis
    by (auto simp: DeriveAuthKey_def NewAuthenticator_def Suc_le_eq split: if_splits option.splits)
qed

section \<open>Witnesses\<close>

definition ex_unicode :: unicode_tables where
  "ex_unicode = \<lparr>uni_lower = id, uni_upper = id\<rparr>"

definition ex_key :: bytes where "ex_key = replicate 32 1"

definition ex_auth :: Authenticator where
  "ex_auth = \<lparr>au_keys = [ex_key], au_maxSkew = minute, au_replay = newReplayCache 1 (2 * minute + second)\<rparr>"

definition ex_header :: "byte \<Rightarrow> string" where
  "ex_header b = authScheme @ '' '' @ b64_EncodeToString (makeToken (Unix_of 0) (replicate 16 b)
     (hmac_sha256 ex_key ([authVersion] @ PutUint64 (Unix_of 0) @ replicate 16 b
        @ encodeField ''CONNECT'' @ encodeField ''a:1'' @ encodeField ''s'')))"

lemma ex_new: "NewAuthenticator [ex_key] minute 1 = Inr ex_auth"
  by (simp add: NewAuthenticator_def ex_key_def ex_auth_def to_int64_id)

lemma ex_wf: "auth_wf ex_auth"
  using auth_wf_new [OF ex_new] by simp

lemma ex_fields: "normalizeAuthFields ex_unicode ''CONNECT'' ''a:1'' ''s'' = Inr (''CONNECT'', ''a:1'', ''s'')"
  by (simp add: normalizeAuthFields_def TrimSpace_plain plain_char_def ToUpper_def ToLower_def isASCII_def
      ascii_upper_def ascii_lower_def Let_def)

lemma ex_sign: "Sign ex_unicode ex_auth (Some (replicate 16 b)) ''CONNECT'' ''a:1'' ''s'' 0 = Inr (ex_header b)"
proof -
  have "canonicalAuthInput (Unix_of 0) (replicate 16 b) ''CONNECT'' ''a:1'' ''s''
      = Inr ([authVersion] @ PutUint64 (Unix_of 0) @ replicate 16 b @ encodeField ''CONNECT'' @ encodeField ''a:1'' @ encodeField ''s'')"
    by (simp add: canonicalAuthInput_Inr)
  then show ?thesis
    by (simp add: Sign_def ex_fields ex_auth_def ex_header_def Let_def)
qed

lemma ex_parse: "\<exists>mac. parseToken (ex_header b) = Some (Unix_of 0, replicate 16 b, mac)"
  using parseToken_makeToken [of "replicate 16 b"] by (simp add: ex_header_def)

theorem Sign_Validate_roundtrip_witness:
  "\<exists>header v'. Sign ex_unicode ex_auth (Some (replicate 16 7)) ''CONNECT'' ''a:1'' ''s'' 0 = Inr header
    \<and> Validate ex_unicode ex_auth header ''CONNECT'' ''a:1'' ''s'' 0 = Some (v', True)"
  by (rule Sign_Validate_roundtrip [OF _ ex_wf _ _ _ ex_fields])
    (simp_all add: ex_auth_def newReplayCache_def rc_keys_def)

lemma ex_validate:
  assumes "ex_key \<in> set (au_keys a)" and "\<bar>now\<bar> \<le> au_maxSkew a"
  shows "Validate ex_unicode a (ex_header b) ''CONNECT'' ''a:1'' ''s'' now
    = map_option (\<lambda>(c, ok). (a\<lparr>au_replay := c\<rparr>, ok)) (Add (replicate 16 b) now (au_replay a))"
proof -
  define mac where "mac = hmac_sha256 ex_key ([authVersion] @ PutUint64 (Unix_of 0) @ replicate 16 b
    @ encodeField ''CONNECT'' @ encodeField ''a:1'' @ encodeField ''s'')"
  have "parseToken (ex_header b) = Some (Unix_of 0, replicate 16 b, mac)"
    unfolding ex_header_def mac_def by (rule parseToken_makeToken) simp_all
  moreover have "token_ok ex_unicode a (Unix_of 0, replicate 16 b, mac) ''CONNECT'' ''a:1'' ''s'' now"
    using assms time_Unix_of [of 0] ex_fields
    by (auto simp: token_ok_def canonicalAuthInput_Inr mac_def)
  ultimately show ?thesis
    by (simp add: Validate_cases)
qed

lemmas ex_Add = Add_def pruneExpired.simps makeRoom.simps Front_def removeElement_def pushEntry_def
  newReplayCache_def gm_lookup_def gm_put_def gm_delete_def gm_len_def AList.delete_eq string_of_bytes_def Let_def

theorem Validate_sound_witness:
  "\<exists>v' v''. Validate ex_unicode ex_auth (ex_header 7) ''CONNECT'' ''a:1'' ''s'' 0 = Some (v', True)
    \<and> Validate ex_unicode v' (ex_header 7) ''CONNECT'' ''b:2'' ''s'' 1 = Some (v'', False)
    \<and> (\<exists>ts nonce mac m au s key. parseToken (ex_header 7) = Some (ts, nonce, mac)
      \<and> \<bar>time_Unix ts - 0\<bar> \<le> au_maxSkew ex_auth
      \<and> normalizeAuthFields ex_unicode ''CONNECT'' ''a:1'' ''s'' = Inr (m, au, s)
      \<and> key \<in> set (au_keys ex_auth)
      \<and> mac = hmac_sha256 key ([authVersion] @ PutUint64 ts @ nonce @ encodeField m @ encodeField au @ encodeField s)
      \<and> string_of_bytes nonce \<in> set (rc_keys (au_replay v')))"
proof -
  obtain v' where v': "Validate ex_unicode ex_auth (ex_header 7) ''CONNECT'' ''a:1'' ''s'' 0 = Some (v', True)"
    by (simp add: ex_validate ex_auth_def ex_Add)
  have now: "(1 :: int) < 0 + 2 * au_maxSkew ex_auth + second"
    using ex_wf by (simp add: auth_wf_def)
  note sound = Validate_sound [OF ex_wf v']
  then obtain v'' where "Validate ex_unicode v' (ex_header 7) ''CONNECT'' ''b:2'' ''s'' 1 = Some (v'', False)"
    using now by blast
  with v' sound show ?thesis by blast
qed

theorem Sign_binds_request_witness:
  "\<exists>m au s input key m' au' s' input' key'.
    normalizeAuthFields ex_unicode ''CONNECT'' ''a:1'' ''s'' = Inr (m, au, s)
    \<and> normalizeAuthFields ex_unicode ''CONNECT'' ''a:1'' ''s'' = Inr (m', au', s')
    \<and> canonicalAuthInput (Unix_of 0) (replicate 16 7) m au s = Inr input
    \<and> canonicalAuthInput (Unix_of 0) (replicate 16 7) m' au' s' = Inr input'
    \<and> key \<in> set (au_keys ex_auth) \<and> key' \<in> set (au_keys ex_auth)
    \<and> hmac_sha256 key input = hmac_sha256 key' input'
    \<and> ((m, au, s) \<noteq> (m', au', s') \<longrightarrow> input \<noteq> input')"
proof -
  obtain v' where "Validate ex_unicode ex_auth (ex_header 7) ''CONNECT'' ''a:1'' ''s'' 0 = Some (v', True)"
    by (simp add: ex_validate ex_auth_def ex_Add)
  from Sign_binds_request [OF ex_sign this] show ?thesis .
qed

text \<open>A cache of one nonce: the token is accepted, displaced by another one, and accepted again.\<close>

definition ex_call :: "byte \<Rightarrow> auth_call" where
  "ex_call b = \<lparr>ac_header = ex_header b, ac_method = ''CONNECT'', ac_authority = ''a:1'', ac_now = 0\<rparr>"

theorem no_replay_below_capacity_witness:
  "\<exists>a'. validate_run ex_unicode ''s'' ex_auth [ex_call 1, ex_call 2, ex_call 1] = Some (a', [True, True, True])
     \<and> (1 :: int) \<le> int (count_list [True] True)"
proof -
  have "\<exists>a'. validate_run ex_unicode ''s'' ex_auth [ex_call 1, ex_call 2, ex_call 1] = Some (a', [True, True, True])"
    by (simp add: ex_call_def ex_validate ex_auth_def ex_Add)
  then obtain a' where run: "validate_run ex_unicode ''s'' ex_auth ([] @ ex_call 1 # [ex_call 2] @ [ex_call 1])
      = Some (a', [] @ True # [True] @ [True])"
    by auto
  obtain mac where tok: "parseToken (ac_header (ex_call 1)) = Some (Unix_of 0, replicate 16 1, mac)"
    using ex_parse [of 1] by (auto simp: ex_call_def)
  have "(1 :: int) \<le> int (count_list [True] True)"
    by (rule no_replay_below_capacity [OF ex_new _ _ run _ _ tok tok]) (simp_all add: ex_call_def)
  with run show ?thesis by auto
qed

theorem validate_run_bounded_witness:
  "\<exists>a' oks. validate_run ex_unicode ''s'' ex_auth [ex_call 1, ex_call 2] = Some (a', oks)
    \<and> length oks = length [ex_call 1, ex_call 2] \<and> rc_wf (au_replay a') \<and> int (Len (au_replay a')) \<le> 1"
  by (rule validate_run_bounded [OF ex_new]) simp

theorem DeriveAuthKey_spec_witness:
  "\<exists>key. DeriveAuthKey (\<lambda>secret salt info n. Some (replicate n 0)) (replicate 32 1) (replicate 32 2) [3] = Inr key"
  using DeriveAuthKey_spec [of "\<lambda>secret salt info n. Some (replicate n 0)" "replicate 32 1" "replicate 32 2" "[3]"]
  by simp

end
