(* ===== verification/Config.thy ===== *)
theory Config
  imports Decoy Guard Limiter Udp_Codec Auth
begin

text \<open>
  Configuration (\<open>internal/quicx/config.go\<close>): the defaults and the checks of the server's and the
  client's settings.

  The environment variable, the system's resolver, dialer and packet listener are arguments. A
  \<open>quic.Config\<close> (third-party) is modelled by the fields this code sets.
\<close>

section \<open>Types\<close>

text \<open>The network functions: the outcome of a dial or of opening a packet socket is whether it worked.\<close>

record NetworkHooks =
  nh_LookupIP :: "lookup option"
  nh_DialContext :: "(string \<Rightarrow> string \<Rightarrow> bool) option"
  nh_ListenPacket :: "(string \<Rightarrow> string \<Rightarrow> bool) option"

record system_net =
  sys_LookupIP :: lookup
  sys_DialContext :: "duration \<Rightarrow> string \<Rightarrow> string \<Rightarrow> bool"
  sys_ListenPacket :: "string \<Rightarrow> string \<Rightarrow> bool"

record quic_Config =
  qc_HandshakeIdleTimeout :: duration
  qc_MaxIdleTimeout :: duration
  qc_KeepAlivePeriod :: duration
  qc_MaxIncomingStreams :: int
  qc_MaxIncomingUniStreams :: int
  qc_EnableDatagrams :: bool

record ServerConfig =
  sc_ListenAddr :: string
  sc_ServerName :: string
  sc_AuthKeys :: "bytes list"
  sc_CertificatePath :: string
  sc_CertificateFile :: string
  sc_PrivateKeyFile :: string
  sc_DecoyTarget :: string
  sc_DecoyOptions :: DecoyOptions
  sc_DecoyRefreshInterval :: duration
  sc_Limits :: LimitConfig
  sc_Network :: NetworkHooks
  sc_TargetDialTimeout :: duration
  sc_AuthenticationSkew :: duration
  sc_ReplayCapacity :: int
  sc_QUICConfig :: "quic_Config option"
  sc_EnableUDPRelay :: bool
  sc_UDPMaxPacketSize :: int
  sc_UDPMaxSessions :: int
  sc_UDPIdleTimeout :: duration

record ServerInfo =
  si_Addr :: string
  si_Fingerprint :: string

record ClientConfig =
  cc_ServerAddr :: string
  cc_ServerName :: string
  cc_AuthKey :: bytes
  cc_CertFingerprint :: string
  cc_EnableDatagrams :: bool
  cc_UDPMaxPacketSize :: int
  cc_QUICConfig :: "quic_Config option"

datatype config_error =
    ListenAddrRequired | ServerNameRequired | AuthKeysRequired | CertPairRequired | DecoyTargetRequired
  | ServerAddrRequired | AuthKeyLength | FingerprintRequired

section \<open>Normalization\<close>

definition normalizeNetworkHooks :: "system_net \<Rightarrow> NetworkHooks \<Rightarrow> duration \<Rightarrow> NetworkHooks" where
  "normalizeNetworkHooks sys hooks timeout =
     \<lparr>nh_LookupIP = (case nh_LookupIP hooks of None \<Rightarrow> Some (sys_LookupIP sys) | Some f \<Rightarrow> Some f),
      nh_DialContext = (case nh_DialContext hooks of None \<Rightarrow> Some (sys_DialContext sys timeout) | Some f \<Rightarrow> Some f),
      nh_ListenPacket = (case nh_ListenPacket hooks of None \<Rightarrow> Some (sys_ListenPacket sys) | Some f \<Rightarrow> Some f)\<rparr>"

definition defaultServerQUIC :: quic_Config where
  "defaultServerQUIC =
     \<lparr>qc_HandshakeIdleTimeout = 5 * second, qc_MaxIdleTimeout = 60 * second, qc_KeepAlivePeriod = 20 * second,
      qc_MaxIncomingStreams = 128, qc_MaxIncomingUniStreams = 16, qc_EnableDatagrams = False\<rparr>"

definition defaultClientQUIC :: quic_Config where
  "defaultClientQUIC =
     \<lparr>qc_HandshakeIdleTimeout = 5 * second, qc_MaxIdleTimeout = 60 * second, qc_KeepAlivePeriod = 20 * second,
      qc_MaxIncomingStreams = -1, qc_MaxIncomingUniStreams = 0, qc_EnableDatagrams = False\<rparr>"

text \<open>The caller's configuration (cloned) or the default, with datagrams switched on if asked for.\<close>

definition normalizeQUIC :: "quic_Config \<Rightarrow> bool \<Rightarrow> quic_Config option \<Rightarrow> quic_Config" where
  "normalizeQUIC dflt datagrams q =
     (let c = (case q of None \<Rightarrow> dflt | Some c \<Rightarrow> c) in
      if datagrams then c\<lparr>qc_EnableDatagrams := True\<rparr> else c)"

text \<open>The groups of defaults of \<open>normalizeServerConfig\<close>, in the order of the code.\<close>

definition withCertificatePath :: "string \<Rightarrow> ServerConfig \<Rightarrow> ServerConfig" where
  "withCertificatePath env_CHIMERA_QUIC_CERT cfg =
     (if sc_CertificatePath cfg = [] \<and> sc_CertificateFile cfg = []
      then let path = TrimSpace env_CHIMERA_QUIC_CERT in
           cfg\<lparr>sc_CertificatePath := (if path = [] then ''quic-cert.pem'' else path)\<rparr>
      else cfg)"

definition withDurations :: "ServerConfig \<Rightarrow> ServerConfig" where
  "withDurations cfg =
     cfg\<lparr>sc_DecoyRefreshInterval := (if sc_DecoyRefreshInterval cfg \<le> 0 then 10 * minute else sc_DecoyRefreshInterval cfg),
         sc_TargetDialTimeout := (if sc_TargetDialTimeout cfg \<le> 0 then 10 * second else sc_TargetDialTimeout cfg),
         sc_AuthenticationSkew := (if sc_AuthenticationSkew cfg \<le> 0 then minute else sc_AuthenticationSkew cfg),
         sc_ReplayCapacity := (if sc_ReplayCapacity cfg \<le> 0 then 4096 else sc_ReplayCapacity cfg)\<rparr>"

definition withUDP :: "ServerConfig \<Rightarrow> ServerConfig" where
  "withUDP cfg =
     (if sc_EnableUDPRelay cfg
      then cfg\<lparr>sc_UDPMaxPacketSize := (if sc_UDPMaxPacketSize cfg \<le> 0 then defaultUDPMaxPacketSize else sc_UDPMaxPacketSize cfg),
               sc_UDPMaxSessions := (if sc_UDPMaxSessions cfg \<le> 0 then 64 else sc_UDPMaxSessions cfg),
               sc_UDPIdleTimeout := (if sc_UDPIdleTimeout cfg \<le> 0 then 60 * second else sc_UDPIdleTimeout cfg)\<rparr>
      else cfg)"

definition withNetwork :: "system_net \<Rightarrow> ServerConfig \<Rightarrow> ServerConfig" where
  "withNetwork sys cfg =
     cfg\<lparr>sc_Network := normalizeNetworkHooks sys (sc_Network cfg) (sc_TargetDialTimeout cfg),
         sc_QUICConfig := Some (normalizeQUIC defaultServerQUIC (sc_EnableUDPRelay cfg) (sc_QUICConfig cfg))\<rparr>"

definition normalizeServerConfig ::
  "unicode_tables \<Rightarrow> system_net \<Rightarrow> string \<Rightarrow> ServerConfig \<Rightarrow> config_error + ServerConfig" where
  "normalizeServerConfig U sys env_CHIMERA_QUIC_CERT cfg0 =
     (let cfg1 = cfg0\<lparr>sc_ListenAddr := TrimSpace (sc_ListenAddr cfg0)\<rparr> in
      if sc_ListenAddr cfg1 = [] then Inl ListenAddrRequired
      else
        let cfg2 = cfg1\<lparr>sc_ServerName := ToLower U (TrimSpace (sc_ServerName cfg1))\<rparr> in
        if sc_ServerName cfg2 = [] then Inl ServerNameRequired
        else if length (sc_AuthKeys cfg2) = 0 then Inl AuthKeysRequired
        else if (sc_CertificateFile cfg2 = []) \<noteq> (sc_PrivateKeyFile cfg2 = []) then Inl CertPairRequired
        else
          let cfg3 = withCertificatePath env_CHIMERA_QUIC_CERT cfg2 in
          if TrimSpace (sc_DecoyTarget cfg3) = [] then Inl DecoyTargetRequired
          else Inr (withNetwork sys (withUDP (withDurations cfg3))))"

definition normalizeClientConfig :: "unicode_tables \<Rightarrow> ClientConfig \<Rightarrow> config_error + ClientConfig" where
  "normalizeClientConfig U cfg0 =
     (let cfg1 = cfg0\<lparr>cc_ServerAddr := TrimSpace (cc_ServerAddr cfg0)\<rparr> in
      if cc_ServerAddr cfg1 = [] then Inl ServerAddrRequired
      else
        let cfg2 = cfg1\<lparr>cc_ServerName := ToLower U (TrimSpace (cc_ServerName cfg1))\<rparr> in
        if cc_ServerName cfg2 = [] then Inl ServerNameRequired
        else if length (cc_AuthKey cfg2) \<noteq> authKeyLen then Inl AuthKeyLength
        else if TrimSpace (cc_CertFingerprint cfg2) = [] then Inl FingerprintRequired
        else
          let cfg3 = (if cc_EnableDatagrams cfg2
                then cfg2\<lparr>cc_UDPMaxPacketSize :=
                       (if cc_UDPMaxPacketSize cfg2 \<le> 0 then defaultUDPMaxPacketSize else cc_UDPMaxPacketSize cfg2)\<rparr>
                else cfg2)
          in Inr (cfg3\<lparr>cc_QUICConfig := Some (normalizeQUIC defaultClientQUIC (cc_EnableDatagrams cfg3) (cc_QUICConfig cfg3))\<rparr>))"

section \<open>Properties\<close>

text \<open>What the rest of the server relies on.\<close>

definition server_config_ok :: "ServerConfig \<Rightarrow> bool" where
  "server_config_ok c \<longleftrightarrow> sc_ListenAddr c \<noteq> [] \<and> sc_ServerName c \<noteq> [] \<and> sc_AuthKeys c \<noteq> []
     \<and> (sc_CertificateFile c = []) = (sc_PrivateKeyFile c = [])
     \<and> (sc_CertificatePath c \<noteq> [] \<or> sc_CertificateFile c \<noteq> []) \<and> TrimSpace (sc_DecoyTarget c) \<noteq> []
     \<and> 0 < sc_DecoyRefreshInterval c \<and> 0 < sc_TargetDialTimeout c \<and> 0 < sc_AuthenticationSkew c \<and> 0 < sc_ReplayCapacity c
     \<and> nh_LookupIP (sc_Network c) \<noteq> None \<and> nh_DialContext (sc_Network c) \<noteq> None \<and> nh_ListenPacket (sc_Network c) \<noteq> None
     \<and> sc_QUICConfig c \<noteq> None
     \<and> (sc_EnableUDPRelay c \<longrightarrow> 0 < sc_UDPMaxPacketSize c \<and> 0 < sc_UDPMaxSessions c \<and> 0 < sc_UDPIdleTimeout c
          \<and> qc_EnableDatagrams (the (sc_QUICConfig c)))"

text \<open>What each group sets, and that it leaves the rest alone.\<close>

lemma with_same:
  "sc_ListenAddr (withCertificatePath env c) = sc_ListenAddr c" "sc_ServerName (withCertificatePath env c) = sc_ServerName c"
  "sc_AuthKeys (withCertificatePath env c) = sc_AuthKeys c" "sc_CertificateFile (withCertificatePath env c) = sc_CertificateFile c"
  "sc_PrivateKeyFile (withCertificatePath env c) = sc_PrivateKeyFile c" "sc_DecoyTarget (withCertificatePath env c) = sc_DecoyTarget c"
  "sc_Limits (withCertificatePath env c) = sc_Limits c" "sc_AuthenticationSkew (withCertificatePath env c) = sc_AuthenticationSkew c"
  "sc_ReplayCapacity (withCertificatePath env c) = sc_ReplayCapacity c"
  "sc_ListenAddr (withDurations c) = sc_ListenAddr c" "sc_ServerName (withDurations c) = sc_ServerName c"
  "sc_AuthKeys (withDurations c) = sc_AuthKeys c" "sc_CertificateFile (withDurations c) = sc_CertificateFile c"
  "sc_PrivateKeyFile (withDurations c) = sc_PrivateKeyFile c" "sc_DecoyTarget (withDurations c) = sc_DecoyTarget c"
  "sc_Limits (withDurations c) = sc_Limits c" "sc_CertificatePath (withDurations c) = sc_CertificatePath c"
  "sc_ListenAddr (withUDP c) = sc_ListenAddr c" "sc_ServerName (withUDP c) = sc_ServerName c"
  "sc_AuthKeys (withUDP c) = sc_AuthKeys c" "sc_CertificateFile (withUDP c) = sc_CertificateFile c"
  "sc_PrivateKeyFile (withUDP c) = sc_PrivateKeyFile c" "sc_DecoyTarget (withUDP c) = sc_DecoyTarget c"
  "sc_Limits (withUDP c) = sc_Limits c" "sc_CertificatePath (withUDP c) = sc_CertificatePath c"
  "sc_DecoyRefreshInterval (withUDP c) = sc_DecoyRefreshInterval c" "sc_TargetDialTimeout (withUDP c) = sc_TargetDialTimeout c"
  "sc_AuthenticationSkew (withUDP c) = sc_AuthenticationSkew c" "sc_ReplayCapacity (withUDP c) = sc_ReplayCapacity c"
  "sc_ListenAddr (withNetwork sys c) = sc_ListenAddr c" "sc_ServerName (withNetwork sys c) = sc_ServerName c"
  "sc_AuthKeys (withNetwork sys c) = sc_AuthKeys c" "sc_CertificateFile (withNetwork sys c) = sc_CertificateFile c"
  "sc_PrivateKeyFile (withNetwork sys c) = sc_PrivateKeyFile c" "sc_DecoyTarget (withNetwork sys c) = sc_DecoyTarget c"
  "sc_Limits (withNetwork sys c) = sc_Limits c" "sc_CertificatePath (withNetwork sys c) = sc_CertificatePath c"
  "sc_DecoyRefreshInterval (withNetwork sys c) = sc_DecoyRefreshInterval c" "sc_TargetDialTimeout (withNetwork sys c) = sc_TargetDialTimeout c"
  "sc_AuthenticationSkew (withNetwork sys c) = sc_AuthenticationSkew c" "sc_ReplayCapacity (withNetwork sys c) = sc_ReplayCapacity c"
  "sc_EnableUDPRelay (withCertificatePath env c) = sc_EnableUDPRelay c" "sc_EnableUDPRelay (withDurations c) = sc_EnableUDPRelay c"
  "sc_EnableUDPRelay (withUDP c) = sc_EnableUDPRelay c" "sc_UDPMaxSessions (withCertificatePath env c) = sc_UDPMaxSessions c"
  "sc_UDPMaxSessions (withDurations c) = sc_UDPMaxSessions c"
  "sc_EnableUDPRelay (withNetwork sys c) = sc_EnableUDPRelay c" "sc_UDPMaxPacketSize (withNetwork sys c) = sc_UDPMaxPacketSize c"
  "sc_UDPMaxSessions (withNetwork sys c) = sc_UDPMaxSessions c" "sc_UDPIdleTimeout (withNetwork sys c) = sc_UDPIdleTimeout c"
  by (simp_all add: withCertificatePath_def withDurations_def withUDP_def withNetwork_def Let_def)

lemma with_certificate:
  "sc_CertificatePath (withCertificatePath env c) \<noteq> [] \<or> sc_CertificateFile c \<noteq> []"
  by (auto simp: withCertificatePath_def Let_def)

lemma with_durations:
  "0 < sc_DecoyRefreshInterval (withDurations c)" "0 < sc_TargetDialTimeout (withDurations c)"
  "sc_AuthenticationSkew (withDurations c) = (if sc_AuthenticationSkew c \<le> 0 then minute else sc_AuthenticationSkew c)"
  "sc_ReplayCapacity (withDurations c) = (if sc_ReplayCapacity c \<le> 0 then 4096 else sc_ReplayCapacity c)"
  by (simp_all add: withDurations_def)

lemma with_sessions:
  "sc_UDPMaxSessions (withUDP c) =
     (if sc_EnableUDPRelay c then (if 0 < sc_UDPMaxSessions c then sc_UDPMaxSessions c else 64) else sc_UDPMaxSessions c)"
  by (simp add: withUDP_def)

lemma with_udp:
  "sc_EnableUDPRelay c \<Longrightarrow> 0 < sc_UDPMaxPacketSize (withUDP c)"
  "sc_EnableUDPRelay c \<Longrightarrow> 0 < sc_UDPMaxSessions (withUDP c)"
  "sc_EnableUDPRelay c \<Longrightarrow> 0 < sc_UDPIdleTimeout (withUDP c)"
  by (auto simp: withUDP_def split: if_splits)

lemma with_network:
  "nh_LookupIP (sc_Network (withNetwork sys c)) \<noteq> None" "nh_DialContext (sc_Network (withNetwork sys c)) \<noteq> None"
  "nh_ListenPacket (sc_Network (withNetwork sys c)) \<noteq> None" "sc_QUICConfig (withNetwork sys c) \<noteq> None"
  "sc_EnableUDPRelay c \<Longrightarrow> qc_EnableDatagrams (the (sc_QUICConfig (withNetwork sys c)))"
  by (auto simp: withNetwork_def normalizeNetworkHooks_def normalizeQUIC_def Let_def split: option.split)

text \<open>The first check that fails, if any.\<close>

definition server_config_fault :: "unicode_tables \<Rightarrow> ServerConfig \<Rightarrow> config_error option" where
  "server_config_fault U cfg =
     (if TrimSpace (sc_ListenAddr cfg) = [] then Some ListenAddrRequired
      else if ToLower U (TrimSpace (sc_ServerName cfg)) = [] then Some ServerNameRequired
      else if sc_AuthKeys cfg = [] then Some AuthKeysRequired
      else if (sc_CertificateFile cfg = []) \<noteq> (sc_PrivateKeyFile cfg = []) then Some CertPairRequired
      else if TrimSpace (sc_DecoyTarget cfg) = [] then Some DecoyTargetRequired
      else None)"

lemma normalizeServerConfig_eq:
  "normalizeServerConfig U sys env cfg =
     (case server_config_fault U cfg of
        Some e \<Rightarrow> Inl e
      | None \<Rightarrow> Inr (withNetwork sys (withUDP (withDurations (withCertificatePath env
          (cfg\<lparr>sc_ListenAddr := TrimSpace (sc_ListenAddr cfg), sc_ServerName := ToLower U (TrimSpace (sc_ServerName cfg))\<rparr>))))))"
  by (simp add: normalizeServerConfig_def server_config_fault_def with_same Let_def)

lemma normalizeServerConfig_Inr:
  assumes "normalizeServerConfig U sys env cfg = Inr c"
  shows "server_config_ok c" and "sc_AuthKeys c = sc_AuthKeys cfg" and "sc_Limits c = sc_Limits cfg"
    and "sc_ListenAddr c = TrimSpace (sc_ListenAddr cfg)" and "sc_ServerName c = ToLower U (TrimSpace (sc_ServerName cfg))"
    and "sc_AuthenticationSkew c = (if 0 < sc_AuthenticationSkew cfg then sc_AuthenticationSkew cfg else minute)"
    and "sc_ReplayCapacity c = (if 0 < sc_ReplayCapacity cfg then sc_ReplayCapacity cfg else 4096)"
    and "sc_EnableUDPRelay c = sc_EnableUDPRelay cfg"
    and "sc_EnableUDPRelay cfg \<Longrightarrow> sc_UDPMaxSessions c = (if 0 < sc_UDPMaxSessions cfg then sc_UDPMaxSessions cfg else 64)"
proof -
  let ?c2 = "cfg\<lparr>sc_ListenAddr := TrimSpace (sc_ListenAddr cfg), sc_ServerName := ToLower U (TrimSpace (sc_ServerName cfg))\<rparr>"
  have c: "c = withNetwork sys (withUDP (withDurations (withCertificatePath env ?c2)))" and "server_config_fault U cfg = None"
    using assms by (auto simp: normalizeServerConfig_eq split: option.splits)
  then show "server_config_ok c"
    unfolding server_config_ok_def using with_certificate [of env ?c2]
    by (auto simp: with_same with_durations with_udp with_network server_config_fault_def split: if_splits)
qed (use assms in \<open>auto simp: normalizeServerConfig_eq with_same with_durations with_sessions split: option.splits\<close>)

text \<open>Normalization accepts exactly the server configurations that name a listen
  address, a server name, authentication keys, a decoy target, and the certificate files together
  or not at all, and reports the first of these that is missing; the result has every field the
  server relies on (a certificate source, positive durations and capacities, network functions,
  datagrams when UDP is on), keeps the keys, and keeps every positive value that was set.\<close>

theorem normalizeServerConfig_spec:
  "case normalizeServerConfig U sys env cfg of
     Inl e \<Rightarrow> server_config_fault U cfg = Some e
   | Inr c \<Rightarrow> server_config_fault U cfg = None \<and> server_config_ok c \<and> sc_AuthKeys c = sc_AuthKeys cfg
       \<and> sc_ListenAddr c = TrimSpace (sc_ListenAddr cfg) \<and> sc_ServerName c = ToLower U (TrimSpace (sc_ServerName cfg))
       \<and> sc_Limits c = sc_Limits cfg
       \<and> (if 0 < sc_AuthenticationSkew cfg then sc_AuthenticationSkew c = sc_AuthenticationSkew cfg else sc_AuthenticationSkew c = minute)
       \<and> (if 0 < sc_ReplayCapacity cfg then sc_ReplayCapacity c = sc_ReplayCapacity cfg else sc_ReplayCapacity c = 4096)"
proof (cases "normalizeServerConfig U sys env cfg")
  case (Inl e)
  then show ?thesis by (simp add: normalizeServerConfig_eq split: option.splits)
next
  case (Inr c)
  moreover have "server_config_fault U cfg = None"
    using Inr by (auto simp: normalizeServerConfig_eq split: option.splits)
  ultimately show ?thesis
    using normalizeServerConfig_Inr [OF Inr] by simp
qed

text \<open>No packet size is refused: with UDP on, every positive one is taken over as it is.\<close>

lemma with_packet_limit:
  "withCertificatePath env (cfg\<lparr>sc_UDPMaxPacketSize := n\<rparr>) = (withCertificatePath env cfg)\<lparr>sc_UDPMaxPacketSize := n\<rparr>"
  "withDurations (cfg\<lparr>sc_UDPMaxPacketSize := n\<rparr>) = (withDurations cfg)\<lparr>sc_UDPMaxPacketSize := n\<rparr>"
  "sc_EnableUDPRelay cfg \<Longrightarrow> 0 < n \<Longrightarrow> withUDP (cfg\<lparr>sc_UDPMaxPacketSize := n\<rparr>) = (withUDP cfg)\<lparr>sc_UDPMaxPacketSize := n\<rparr>"
  "withNetwork sys (cfg\<lparr>sc_UDPMaxPacketSize := n\<rparr>) = (withNetwork sys cfg)\<lparr>sc_UDPMaxPacketSize := n\<rparr>"
proof -
  show "withCertificatePath env (cfg\<lparr>sc_UDPMaxPacketSize := n\<rparr>) = (withCertificatePath env cfg)\<lparr>sc_UDPMaxPacketSize := n\<rparr>"
    by (cases "sc_CertificatePath cfg = [] \<and> sc_CertificateFile cfg = []") (simp_all add: withCertificatePath_def Let_def)
  show "withDurations (cfg\<lparr>sc_UDPMaxPacketSize := n\<rparr>) = (withDurations cfg)\<lparr>sc_UDPMaxPacketSize := n\<rparr>"
    by (cases cfg) (simp add: withDurations_def cong: if_cong split del: if_split)
  show "withUDP (cfg\<lparr>sc_UDPMaxPacketSize := n\<rparr>) = (withUDP cfg)\<lparr>sc_UDPMaxPacketSize := n\<rparr>" if "sc_EnableUDPRelay cfg" "0 < n"
    using that by (cases cfg) (simp add: withUDP_def cong: if_cong split del: if_split)
  show "withNetwork sys (cfg\<lparr>sc_UDPMaxPacketSize := n\<rparr>) = (withNetwork sys cfg)\<lparr>sc_UDPMaxPacketSize := n\<rparr>"
    by (cases cfg) (simp add: withNetwork_def)
qed

lemma normalize_packet_limit:
  assumes "normalizeServerConfig U sys env cfg = Inr c" and "sc_EnableUDPRelay cfg" and "0 < limit"
  shows "normalizeServerConfig U sys env (cfg\<lparr>sc_UDPMaxPacketSize := limit\<rparr>) = Inr (c\<lparr>sc_UDPMaxPacketSize := limit\<rparr>)"
proof -
  let ?c2 = "cfg\<lparr>sc_ListenAddr := TrimSpace (sc_ListenAddr cfg), sc_ServerName := ToLower U (TrimSpace (sc_ServerName cfg))\<rparr>"
  have fault: "server_config_fault U (cfg\<lparr>sc_UDPMaxPacketSize := limit\<rparr>) = server_config_fault U cfg"
    by (simp add: server_config_fault_def)
  have ok: "server_config_fault U cfg = None" and c: "c = withNetwork sys (withUDP (withDurations (withCertificatePath env ?c2)))"
    using assms(1) by (simp_all add: normalizeServerConfig_eq split: option.splits)
  have udp: "sc_EnableUDPRelay (withDurations (withCertificatePath env ?c2))" using assms(2) by (simp add: with_same)
  let ?F = "\<lambda>c. withNetwork sys (withUDP (withDurations (withCertificatePath env c)))"
  let ?c3 = "cfg\<lparr>sc_UDPMaxPacketSize := limit, sc_ListenAddr := TrimSpace (sc_ListenAddr cfg), sc_ServerName := ToLower U (TrimSpace (sc_ServerName cfg))\<rparr>"
  have "normalizeServerConfig U sys env (cfg\<lparr>sc_UDPMaxPacketSize := limit\<rparr>) = Inr (?F ?c3)"
    by (simp add: normalizeServerConfig_eq fault ok)
  also have "?c3 = ?c2\<lparr>sc_UDPMaxPacketSize := limit\<rparr>" by simp
  also have "?F (?c2\<lparr>sc_UDPMaxPacketSize := limit\<rparr>) = c\<lparr>sc_UDPMaxPacketSize := limit\<rparr>"
    unfolding with_packet_limit(1,2) with_packet_limit(3) [OF udp assms(3)] with_packet_limit(4) c ..
  finally show ?thesis .
qed

text \<open>What the client relies on.\<close>

definition client_config_ok :: "ClientConfig \<Rightarrow> bool" where
  "client_config_ok c \<longleftrightarrow> cc_ServerAddr c \<noteq> [] \<and> cc_ServerName c \<noteq> [] \<and> length (cc_AuthKey c) = 32
     \<and> TrimSpace (cc_CertFingerprint c) \<noteq> [] \<and> cc_QUICConfig c \<noteq> None
     \<and> (cc_EnableDatagrams c \<longrightarrow> 0 < cc_UDPMaxPacketSize c \<and> qc_EnableDatagrams (the (cc_QUICConfig c)))"

lemma normalizeClientConfig_ok: "normalizeClientConfig U cfg = Inr c \<Longrightarrow> client_config_ok c"
  by (auto simp: normalizeClientConfig_def client_config_ok_def normalizeQUIC_def Let_def split: if_splits)

end
