(* ===== verification/Cert.thy ===== *)
theory Cert
  imports Config Sha256
begin

text \<open>
  The server's certificate (\<open>internal/quicx/cert.go\<close>): loading a pair of files, or loading, and
  at the first start creating, one file with a self-signed certificate and its key.

  The file system is a map from paths to contents and permission bits. Every call of the operating
  system may fail: \<open>cert_env\<close> says which do. \<open>writeFileAtomic\<close> returns the states the file
  system goes through, so that the death of the process between any two calls is covered. That
  \<open>Sync\<close> makes the data survive a power failure is not expressed: a write is in the file when the call
  returns, and only the failure of \<open>Sync\<close> is seen. \<open>crypto/x509\<close>,
  \<open>crypto/ecdsa\<close>, \<open>encoding/pem\<close> and \<open>path/filepath\<close> are functions of \<open>cert_env\<close>; what the code
  relies on of them is \<open>x509_laws\<close>.

  Lemmas: what \<open>writeFileAtomic\<close> leaves (\<open>atomic_states\<close>), and that a certificate that was
  created loads again.
\<close>

section \<open>Types\<close>

record os_file =
  f_data :: bytes
  f_mode :: nat

type_synonym files = "(string, os_file) gomap"

abbreviation mode0600 :: nat where "mode0600 \<equiv> 384"

text \<open>\<open>tls.Certificate\<close>, as far as it is used: the chain in DER form and the key.\<close>

record tls_Certificate =
  tc_Certificate :: "bytes list"
  tc_PrivateKey :: bytes

record x509_template =
  xt_SerialNumber :: nat
  xt_CommonName :: string
  xt_NotBefore :: instant
  xt_NotAfter :: instant
  xt_IPAddresses :: "IP list"
  xt_DNSNames :: "string list"

text \<open>\<open>ce_CreateTemp\<close> is the name \<open>os.CreateTemp\<close> picks in a directory, \<open>ce_write\<close> how many bytes a
  failing \<open>Write\<close> has written; the other operating-system fields say whether the call succeeds (for \<open>ce_readable\<close>: with anything but the answer that the
  file does not exist).\<close>

record cert_env =
  ce_Dir :: "string \<Rightarrow> string"
  ce_readable :: "string \<Rightarrow> bool"
  ce_chmod :: "string \<Rightarrow> bool"
  ce_CreateTemp :: "string \<Rightarrow> string \<Rightarrow> string option"
  ce_fchmod :: bool
  ce_write :: "nat option"
  ce_sync :: bool
  ce_close :: bool
  ce_rename :: bool
  ce_remove :: bool
  ce_GenerateKey :: "bytes option"
  ce_randInt :: "nat \<Rightarrow> nat option"
  ce_CreateCertificate :: "x509_template \<Rightarrow> bytes \<Rightarrow> bytes option"
  ce_MarshalECPrivateKey :: "bytes \<Rightarrow> bytes option"
  ce_pemEncode :: "string \<Rightarrow> bytes \<Rightarrow> bytes option"
  ce_X509KeyPair :: "bytes \<Rightarrow> bytes \<Rightarrow> tls_Certificate option"
  ce_ParseCertificate :: "bytes \<Rightarrow> bool"
  ce_VerifyHostname :: "bytes \<Rightarrow> string \<Rightarrow> bool"

datatype file_error = CreateTempFailed | ChmodFailed | WriteFailed | SyncFailed | CloseFailed | RenameFailed

datatype cert_error =
    LoadPairFailed | PathAndNameRequired | ParsePersistedFailed | SecureModeFailed | ReadFailed
  | KeyGenerationFailed | CreationFailed | PersistFailed file_error
  | ChainEmpty | ParseLeafFailed | NameMismatch

section \<open>Files\<close>

definition fs_chmod :: "string \<Rightarrow> nat \<Rightarrow> files \<Rightarrow> files" where
  "fs_chmod path mode fs =
     (case gm_lookup fs path of None \<Rightarrow> fs | Some f \<Rightarrow> gm_put path (f\<lparr>f_mode := mode\<rparr>) fs)"

definition fs_append :: "string \<Rightarrow> bytes \<Rightarrow> files \<Rightarrow> files" where
  "fs_append path data fs =
     (case gm_lookup fs path of None \<Rightarrow> fs | Some f \<Rightarrow> gm_put path (f\<lparr>f_data := f_data f @ data\<rparr>) fs)"

definition fs_rename :: "string \<Rightarrow> string \<Rightarrow> files \<Rightarrow> files" where
  "fs_rename old new fs =
     (case gm_lookup fs old of None \<Rightarrow> fs | Some f \<Rightarrow> gm_put new f (gm_delete old fs))"

text \<open>The deferred cleanup.\<close>

definition dropTemp :: "cert_env \<Rightarrow> string \<Rightarrow> files \<Rightarrow> files" where
  "dropTemp ce tempPath fs = (if ce_remove ce then gm_delete tempPath fs else fs)"

text \<open>The states of the file system, the last one is the one at the return.\<close>

definition writeFileAtomic :: "cert_env \<Rightarrow> string \<Rightarrow> bytes \<Rightarrow> nat \<Rightarrow> files \<Rightarrow> files list \<times> file_error option" where
  "writeFileAtomic ce path data mode fs0 =
     (case ce_CreateTemp ce (ce_Dir ce path) ''.chimera-cert-*'' of
        None \<Rightarrow> ([fs0], Some CreateTempFailed)
      | Some tempPath \<Rightarrow>
          let fs1 = gm_put tempPath \<lparr>f_data = [], f_mode = mode0600\<rparr> fs0 in
          if \<not> ce_fchmod ce then ([fs0, fs1, dropTemp ce tempPath fs1], Some ChmodFailed)
          else
            let fs2 = fs_chmod tempPath mode fs1 in
            case ce_write ce of
              Some n \<Rightarrow>
                let fs3 = fs_append tempPath (take n data) fs2 in
                ([fs0, fs1, fs2, fs3, dropTemp ce tempPath fs3], Some WriteFailed)
            | None \<Rightarrow>
                let fs3 = fs_append tempPath data fs2 in
                if \<not> ce_sync ce then ([fs0, fs1, fs2, fs3, dropTemp ce tempPath fs3], Some SyncFailed)
                else if \<not> ce_close ce then ([fs0, fs1, fs2, fs3, dropTemp ce tempPath fs3], Some CloseFailed)
                else if \<not> ce_rename ce then ([fs0, fs1, fs2, fs3, dropTemp ce tempPath fs3], Some RenameFailed)
                else ([fs0, fs1, fs2, fs3, fs_rename tempPath path fs3], None))"

section \<open>Certificates\<close>

definition verifyCertificateName :: "cert_env \<Rightarrow> tls_Certificate \<Rightarrow> string \<Rightarrow> cert_error option" where
  "verifyCertificateName ce cert serverName =
     (case tc_Certificate cert of
        [] \<Rightarrow> Some ChainEmpty
      | leaf # _ \<Rightarrow>
          if \<not> ce_ParseCertificate ce leaf then Some ParseLeafFailed
          else if \<not> ce_VerifyHostname ce leaf serverName then Some NameMismatch
          else None)"

text \<open>It is only called on a certificate whose chain is not empty.\<close>

definition certificateFingerprint :: "tls_Certificate \<Rightarrow> string" where
  "certificateFingerprint cert = hex_EncodeToString (sha256 (hd (tc_Certificate cert)))"

definition mkTemplate :: "nat \<Rightarrow> string \<Rightarrow> instant \<Rightarrow> x509_template" where
  "mkTemplate serial serverName now =
     (let ip = ParseIP serverName in
      \<lparr>xt_SerialNumber = serial, xt_CommonName = serverName,
       xt_NotBefore = now - 60 * minute, xt_NotAfter = now + 365 * (24 * (60 * minute)),
       xt_IPAddresses = (if ip \<noteq> [] then [ip] else []), xt_DNSNames = (if ip \<noteq> [] then [] else [serverName])\<rparr>)"

text \<open>The part that makes a new certificate: key, serial number, template, both PEM blocks, the file.\<close>

definition createCertificate ::
  "cert_env \<Rightarrow> string \<Rightarrow> string \<Rightarrow> instant \<Rightarrow> files \<Rightarrow> files list \<times> (cert_error + tls_Certificate \<times> string)" where
  "createCertificate ce path serverName now fs =
     (case ce_GenerateKey ce of
        None \<Rightarrow> ([fs], Inl KeyGenerationFailed)
      | Some key \<Rightarrow>
          (case ce_randInt ce (2 ^ 128) of
             None \<Rightarrow> ([fs], Inl KeyGenerationFailed)
           | Some serial \<Rightarrow>
               (case ce_CreateCertificate ce (mkTemplate serial serverName now) key of
                  None \<Rightarrow> ([fs], Inl CreationFailed)
                | Some der \<Rightarrow>
                    (case ce_MarshalECPrivateKey ce key of
                       None \<Rightarrow> ([fs], Inl CreationFailed)
                     | Some keyDER \<Rightarrow>
                         (case (ce_pemEncode ce ''CERTIFICATE'' der, ce_pemEncode ce ''EC PRIVATE KEY'' keyDER) of
                            (Some certBlock, Some keyBlock) \<Rightarrow>
                              (case writeFileAtomic ce path (certBlock @ keyBlock) mode0600 fs of
                                 (states, Some e) \<Rightarrow> (states, Inl (PersistFailed e))
                               | (states, None) \<Rightarrow>
                                   let cert = \<lparr>tc_Certificate = [der], tc_PrivateKey = key\<rparr> in
                                   (states, Inr (cert, certificateFingerprint cert)))
                          | _ \<Rightarrow> ([fs], Inl CreationFailed))))))"

definition loadOrCreateCertificate ::
  "cert_env \<Rightarrow> string \<Rightarrow> string \<Rightarrow> instant \<Rightarrow> files \<Rightarrow> files list \<times> (cert_error + tls_Certificate \<times> string)" where
  "loadOrCreateCertificate ce path0 serverName0 now fs =
     (let path = TrimSpace path0; serverName = TrimSpace serverName0 in
      if path = [] \<or> serverName = [] then ([fs], Inl PathAndNameRequired)
      else if \<not> ce_readable ce path then ([fs], Inl ReadFailed)
      else case gm_lookup fs path of
          Some f \<Rightarrow>
            (case ce_X509KeyPair ce (f_data f) (f_data f) of
                None \<Rightarrow> ([fs], Inl ParsePersistedFailed)
              | Some cert \<Rightarrow>
                  (case verifyCertificateName ce cert serverName of
                     Some e \<Rightarrow> ([fs], Inl e)
                   | None \<Rightarrow>
                       if \<not> ce_chmod ce path then ([fs], Inl SecureModeFailed)
                       else ([fs, fs_chmod path mode0600 fs], Inr (cert, certificateFingerprint cert))))
        | None \<Rightarrow> createCertificate ce path serverName now fs)"

definition readPair :: "cert_env \<Rightarrow> files \<Rightarrow> string \<Rightarrow> string \<Rightarrow> tls_Certificate option" where
  "readPair ce fs certFile keyFile =
     (case (gm_lookup fs certFile, gm_lookup fs keyFile) of
        (Some c, Some k) \<Rightarrow>
          if ce_readable ce certFile \<and> ce_readable ce keyFile then ce_X509KeyPair ce (f_data c) (f_data k) else None
      | _ \<Rightarrow> None)"

definition loadServerCertificate ::
  "cert_env \<Rightarrow> ServerConfig \<Rightarrow> instant \<Rightarrow> files \<Rightarrow> files list \<times> (cert_error + tls_Certificate \<times> string)" where
  "loadServerCertificate ce cfg now fs =
     (if sc_CertificateFile cfg \<noteq> []
      then case readPair ce fs (sc_CertificateFile cfg) (sc_PrivateKeyFile cfg) of
          None \<Rightarrow> ([fs], Inl LoadPairFailed)
        | Some cert \<Rightarrow>
            (case verifyCertificateName ce cert (sc_ServerName cfg) of
               Some e \<Rightarrow> ([fs], Inl e)
             | None \<Rightarrow> ([fs], Inr (cert, certificateFingerprint cert)))
      else loadOrCreateCertificate ce (sc_CertificatePath cfg) (sc_ServerName cfg) now fs)"

definition EnsureCertificate :: "cert_env \<Rightarrow> string \<Rightarrow> string \<Rightarrow> instant \<Rightarrow> files \<Rightarrow> files list \<times> (cert_error + string)" where
  "EnsureCertificate ce path serverName now fs =
     (case loadOrCreateCertificate ce path serverName now fs of
        (states, Inl e) \<Rightarrow> (states, Inl e)
      | (states, Inr (_, fingerprint)) \<Rightarrow> (states, Inr fingerprint))"

section \<open>What is written\<close>

text \<open>\<open>os.CreateTemp\<close> opens with \<open>O_EXCL\<close>: the name is not in use, so it is not the path either
  once the path is.\<close>

definition fresh_temp :: "cert_env \<Rightarrow> string \<Rightarrow> files \<Rightarrow> bool" where
  "fresh_temp ce path fs \<longleftrightarrow> (case ce_CreateTemp ce (ce_Dir ce path) ''.chimera-cert-*'' of
     None \<Rightarrow> True | Some t \<Rightarrow> t \<noteq> path \<and> gm_lookup fs t = None)"

lemma lookup_temp_ops [gomap]:
  "gm_lookup (fs_chmod t mode fs) k = (if k = t then map_option (\<lambda>f. f\<lparr>f_mode := mode\<rparr>) (gm_lookup fs t) else gm_lookup fs k)"
  "gm_lookup (fs_append t data fs) k = (if k = t then map_option (\<lambda>f. f\<lparr>f_data := f_data f @ data\<rparr>) (gm_lookup fs t) else gm_lookup fs k)"
  "gm_lookup (dropTemp ce t fs) k = (if k = t \<and> ce_remove ce then None else gm_lookup fs k)"
  by (auto simp: fs_chmod_def fs_append_def dropTemp_def gomap split: option.split)

lemma lookup_rename [gomap]:
  "gm_lookup fs old = Some f \<Longrightarrow> gm_lookup (fs_rename old new fs) k = (if k = new then Some f else if k = old then None else gm_lookup fs k)"
  by (auto simp: fs_rename_def gomap)

lemma writeFileAtomic_result:
  assumes "fresh_temp ce path fs" and "writeFileAtomic ce path data mode fs = (states, err)"
  shows "gm_lookup (last states) path = (if err = None then Some \<lparr>f_data = data, f_mode = mode\<rparr> else gm_lookup fs path)"
  using assms
  by (cases "ce_CreateTemp ce (ce_Dir ce path) ''.chimera-cert-*''")
    (auto simp: writeFileAtomic_def fresh_temp_def Let_def gomap split: if_splits option.splits)

text \<open>C32 (safety). Replacing a file is atomic and leaves nothing behind: at every moment, so also
  after the process died between any two calls, the path has its old content and permissions or the whole
  new content with the given permissions; when an error is returned it has the old ones; no other
  file changes; and the temporary file is gone at the end (unless removing it fails).\<close>

theorem writeFileAtomic_atomic:
  assumes "fresh_temp ce path fs" and "writeFileAtomic ce path data mode fs = (states, err)"
  shows "states \<noteq> [] \<and> hd states = fs
    \<and> list_all (\<lambda>st. gm_lookup st path = gm_lookup fs path \<or> gm_lookup st path = Some \<lparr>f_data = data, f_mode = mode\<rparr>) states
    \<and> gm_lookup (last states) path = (if err = None then Some \<lparr>f_data = data, f_mode = mode\<rparr> else gm_lookup fs path)
    \<and> (\<forall>k. k \<noteq> path \<longrightarrow> gm_lookup (last states) k = gm_lookup fs k
          \<or> (\<not> ce_remove ce \<and> err \<noteq> None \<and> ce_CreateTemp ce (ce_Dir ce path) ''.chimera-cert-*'' = Some k))"
proof (cases "ce_CreateTemp ce (ce_Dir ce path) ''.chimera-cert-*''")
  case None
  with assms show ?thesis by (auto simp: writeFileAtomic_def)
next
  case (Some t)
  with assms(1) have "t \<noteq> path" "gm_lookup fs t = None" by (auto simp: fresh_temp_def)
  with assms(2) Some show ?thesis
    by (auto simp: writeFileAtomic_def Let_def gomap split: if_splits option.splits)
qed

section \<open>A created certificate loads again\<close>

text \<open>What the code relies on: a PEM file with a certificate and its key loads as that pair, and a
  certificate parses and is valid for the DNS name or the IP address it was made for. A name in
  brackets is taken for an IP address by \<open>VerifyHostname\<close>, and the name of a single dot for none.\<close>

definition x509_laws :: "cert_env \<Rightarrow> bool" where
  "x509_laws ce \<longleftrightarrow>
     (\<forall>tmpl key der keyDER certBlock keyBlock.
        ce_CreateCertificate ce tmpl key = Some der \<and> ce_MarshalECPrivateKey ce key = Some keyDER
        \<and> ce_pemEncode ce ''CERTIFICATE'' der = Some certBlock \<and> ce_pemEncode ce ''EC PRIVATE KEY'' keyDER = Some keyBlock
        \<longrightarrow> ce_X509KeyPair ce (certBlock @ keyBlock) (certBlock @ keyBlock) = Some \<lparr>tc_Certificate = [der], tc_PrivateKey = key\<rparr>)
     \<and> (\<forall>tmpl key der name. ce_CreateCertificate ce tmpl key = Some der
        \<and> (name \<in> set (xt_DNSNames tmpl) \<and> hd name \<noteq> CHR ''['' \<and> name \<noteq> ''.'' \<or> ParseIP name \<in> set (xt_IPAddresses tmpl))
        \<longrightarrow> ce_ParseCertificate ce der \<and> ce_VerifyHostname ce der name)"

text \<open>A later start on the same machine: the libraries are the same, other calls may fail.\<close>

definition same_x509 :: "cert_env \<Rightarrow> cert_env \<Rightarrow> bool" where
  "same_x509 ce ce' \<longleftrightarrow> ce_X509KeyPair ce' = ce_X509KeyPair ce \<and> ce_ParseCertificate ce' = ce_ParseCertificate ce
     \<and> ce_VerifyHostname ce' = ce_VerifyHostname ce"

definition persisted :: "cert_env \<Rightarrow> string \<Rightarrow> string \<Rightarrow> tls_Certificate \<Rightarrow> files \<Rightarrow> bool" where
  "persisted ce path serverName cert fs \<longleftrightarrow> (\<exists>f. gm_lookup fs path = Some f \<and> f_mode f = mode0600
     \<and> ce_X509KeyPair ce (f_data f) (f_data f) = Some cert \<and> verifyCertificateName ce cert serverName = None)"

lemma createCertificate_persisted:
  assumes laws: "x509_laws ce" and temp: "fresh_temp ce path fs" and name: "serverName \<noteq> []" "hd serverName \<noteq> CHR ''[''" "serverName \<noteq> ''.''"
    and create: "createCertificate ce path serverName now fs = (states, Inr (cert, fingerprint))"
  shows "persisted ce path serverName cert (last states) \<and> fingerprint = certificateFingerprint cert"
proof -
  from create obtain key serial der keyDER certBlock keyBlock where
    made: "ce_CreateCertificate ce (mkTemplate serial serverName now) key = Some der" "ce_MarshalECPrivateKey ce key = Some keyDER"
      "ce_pemEncode ce ''CERTIFICATE'' der = Some certBlock" "ce_pemEncode ce ''EC PRIVATE KEY'' keyDER = Some keyBlock"
    and written: "writeFileAtomic ce path (certBlock @ keyBlock) mode0600 fs = (states, None)"
    and cert: "cert = \<lparr>tc_Certificate = [der], tc_PrivateKey = key\<rparr>" "fingerprint = certificateFingerprint cert"
    by (auto simp: createCertificate_def Let_def split: option.splits prod.splits)
  have "gm_lookup (last states) path = Some \<lparr>f_data = certBlock @ keyBlock, f_mode = mode0600\<rparr>"
    using writeFileAtomic_result [OF temp written] by simp
  moreover have "ce_X509KeyPair ce (certBlock @ keyBlock) (certBlock @ keyBlock) = Some cert"
    using laws made unfolding x509_laws_def cert by blast
  moreover have "serverName \<in> set (xt_DNSNames (mkTemplate serial serverName now)) \<or> ParseIP serverName \<in> set (xt_IPAddresses (mkTemplate serial serverName now))"
    by (simp add: mkTemplate_def Let_def)
  then have "ce_ParseCertificate ce der \<and> ce_VerifyHostname ce der serverName"
    using laws made(1) name unfolding x509_laws_def by blast
  then have "verifyCertificateName ce cert serverName = None"
    by (simp add: verifyCertificateName_def cert(1))
  ultimately show ?thesis using cert(2) by (simp add: persisted_def)
qed

lemma load_persisted:
  assumes "persisted ce (TrimSpace path) (TrimSpace serverName) cert fs" and "same_x509 ce ce'"
    and "TrimSpace path \<noteq> []" and "TrimSpace serverName \<noteq> []" and "ce_readable ce' (TrimSpace path)" and "ce_chmod ce' (TrimSpace path)"
  shows "\<exists>states. loadOrCreateCertificate ce' path serverName now fs = (states, Inr (cert, certificateFingerprint cert))
    \<and> persisted ce (TrimSpace path) (TrimSpace serverName) cert (last states)"
proof -
  have "verifyCertificateName ce' cert n = verifyCertificateName ce cert n" for n
    using assms(2) by (simp add: verifyCertificateName_def same_x509_def split: list.split)
  with assms show ?thesis by (auto simp: persisted_def same_x509_def loadOrCreateCertificate_def gomap Let_def)
qed

text \<open>C33 (roundtrip). The certificate is stable across restarts: once loading or creating has
  succeeded, every later start with the same path and name, with the libraries as before, loads
  the same certificate with the same fingerprint, and the file is readable by its owner only.\<close>

theorem certificate_stable:
  assumes "x509_laws ce" and "fresh_temp ce (TrimSpace path) fs"
    and "hd (TrimSpace serverName) \<noteq> CHR ''[''" and "TrimSpace serverName \<noteq> ''.''"
    and "loadOrCreateCertificate ce path serverName now fs = (states, Inr (cert, fingerprint))"
    and "same_x509 ce ce'" and "ce_readable ce' (TrimSpace path)" and "ce_chmod ce' (TrimSpace path)"
  shows "\<exists>states'. loadOrCreateCertificate ce' path serverName now' (last states) = (states', Inr (cert, fingerprint))
    \<and> (\<exists>f. gm_lookup (last states) (TrimSpace path) = Some f \<and> f_mode f = mode0600)
    \<and> EnsureCertificate ce' path serverName now' (last states) = (states', Inr fingerprint)"
proof -
  have names: "TrimSpace path \<noteq> []" "TrimSpace serverName \<noteq> []"
    using assms(5) by (auto simp: loadOrCreateCertificate_def Let_def split: if_splits)
  have "persisted ce (TrimSpace path) (TrimSpace serverName) cert (last states) \<and> fingerprint = certificateFingerprint cert"
  proof (cases "gm_lookup fs (TrimSpace path)")
    case None
    then have "createCertificate ce (TrimSpace path) (TrimSpace serverName) now fs = (states, Inr (cert, fingerprint))"
      using assms(5) names by (auto simp: loadOrCreateCertificate_def Let_def split: if_splits)
    then show ?thesis by (rule createCertificate_persisted [OF assms(1,2) names(2) assms(3,4)])
  next
    case (Some f)
    with assms(5) names show ?thesis
      by (auto simp: loadOrCreateCertificate_def persisted_def gomap Let_def split: if_splits option.splits)
  qed
  then have p: "persisted ce (TrimSpace path) (TrimSpace serverName) cert (last states)" and fp: "fingerprint = certificateFingerprint cert"
    by auto
  obtain states' where "loadOrCreateCertificate ce' path serverName now' (last states) = (states', Inr (cert, fingerprint))"
    using load_persisted [OF p assms(6) names assms(7,8)] fp by blast
  moreover from this have "EnsureCertificate ce' path serverName now' (last states) = (states', Inr fingerprint)"
    by (simp add: EnsureCertificate_def)
  ultimately show ?thesis using p unfolding persisted_def by blast
qed

section \<open>Witnesses\<close>

text \<open>A toy of the libraries in which every call succeeds: a certificate is its common name, the PEM
  file is the certificate's bytes, a zero byte, and the key.\<close>

definition ex_cert_env :: cert_env where
  "ex_cert_env =
     \<lparr>ce_Dir = (\<lambda>_. []), ce_readable = (\<lambda>_. True), ce_chmod = (\<lambda>_. True), ce_CreateTemp = (\<lambda>_ _. Some ''t''), ce_fchmod = True,
      ce_write = None, ce_sync = True, ce_close = True, ce_rename = True, ce_remove = True,
      ce_GenerateKey = Some [], ce_randInt = (\<lambda>_. Some 5),
      ce_CreateCertificate = (\<lambda>tmpl key. if key = [] then Some (bytes_of_string (xt_CommonName tmpl)) else None),
      ce_MarshalECPrivateKey = (\<lambda>key. Some key),
      ce_pemEncode = (\<lambda>_ b. Some b),
      ce_X509KeyPair = (\<lambda>c k. Some \<lparr>tc_Certificate = [c], tc_PrivateKey = []\<rparr>),
      ce_ParseCertificate = (\<lambda>_. True), ce_VerifyHostname = (\<lambda>_ _. True)\<rparr>"

lemma ex_cert_laws: "x509_laws ex_cert_env"
  by (auto simp: x509_laws_def ex_cert_env_def split: if_splits)

theorem writeFileAtomic_atomic_witness:
  "gm_lookup (last (fst (writeFileAtomic ex_cert_env ''p'' [1, 2] mode0600 []))) ''p'' = Some \<lparr>f_data = [1, 2], f_mode = mode0600\<rparr>"
proof -
  have temp: "fresh_temp ex_cert_env ''p'' []" by (simp add: fresh_temp_def ex_cert_env_def)
  obtain states where run: "writeFileAtomic ex_cert_env ''p'' [1, 2] mode0600 [] = (states, None)"
    by (simp add: writeFileAtomic_def ex_cert_env_def Let_def)
  from writeFileAtomic_atomic [OF temp run] run show ?thesis by simp
qed

theorem certificate_stable_witness:
  "\<exists>states cert fingerprint states'. loadOrCreateCertificate ex_cert_env ''p'' ''s'' 0 [] = (states, Inr (cert, fingerprint))
     \<and> loadOrCreateCertificate ex_cert_env ''p'' ''s'' 7 (last states) = (states', Inr (cert, fingerprint))"
proof -
  have trim: "TrimSpace ''p'' = ''p''" "TrimSpace ''s'' = ''s''" by (rule TrimSpace_plain, simp add: plain_char_def)+
  have temp: "fresh_temp ex_cert_env (TrimSpace ''p'') []" by (simp add: trim fresh_temp_def ex_cert_env_def)
  obtain states cert fingerprint where
    load: "loadOrCreateCertificate ex_cert_env ''p'' ''s'' 0 [] = (states, Inr (cert, fingerprint))"
    by (simp add: loadOrCreateCertificate_def trim createCertificate_def writeFileAtomic_def ex_cert_env_def mkTemplate_def Let_def)
  have "hd (TrimSpace ''s'') \<noteq> CHR ''[''" "TrimSpace ''s'' \<noteq> ''.''" "same_x509 ex_cert_env ex_cert_env"
      "ce_readable ex_cert_env (TrimSpace ''p'')" "ce_chmod ex_cert_env (TrimSpace ''p'')"
    by (simp_all add: trim same_x509_def ex_cert_env_def)
  from certificate_stable [OF ex_cert_laws temp this(1,2) load this(3-5), of 7] obtain states' where
    "loadOrCreateCertificate ex_cert_env ''p'' ''s'' 7 (last states) = (states', Inr (cert, fingerprint))" by blast
  with load show ?thesis by blast
qed

end
