(* ===== verification/Server_Props.thy ===== *)
theory Server_Props
  imports Server
begin

text \<open>
  What the server guarantees: properties of \<open>Server\<close>'s handler alone and of all interleavings of
  handlers, from the configuration the server was started with.
\<close>

section \<open>The handler and its steps\<close>

text \<open>From the limiter on: the three steps of \<open>Allow\<close>, then the grant.\<close>

lemma run_Checked:
  "handler_run e r 6 s1 (Checked b) =
    (case Allow (ev_unicode e) (ev_fused e) (ev_order e) (ev_limitNow e) (rq_RemoteAddr r) b (sv_limiter s1) of
       None \<Rightarrow> None
     | Some (l, None) \<Rightarrow> Some (s1\<lparr>sv_limiter := l\<rparr>, Answered (Some writeRateLimited))
     | Some (l, Some h) \<Rightarrow> handler_run e r 4 (s1\<lparr>sv_limiter := l\<rparr>) (Granted h b))"
proof -
  obtain l g where acq: "acquire (sv_limiter s1) = (l, g)" by fastforce
  have six: "handler_run e r 6 s1 (Checked b) = (case g of
      None \<Rightarrow> Some (s1\<lparr>sv_limiter := l\<rparr>, Answered (Some writeRateLimited))
    | Some h \<Rightarrow> handler_run e r 5 (s1\<lparr>sv_limiter := l\<rparr>) (if b then Granted h True else Placed h))"
    using acq handler_run.simps(2) [of e r 5 s1 "Checked b"] by (simp del: handler_run.simps split: option.split)
  show ?thesis
  proof (cases g)
    case None
    then show ?thesis using acq six by (simp add: Allow_def)
  next
    case (Some h)
    show ?thesis
    proof (cases b)
      case True
      have "handler_run e r 5 (s1\<lparr>sv_limiter := l\<rparr>) (Granted h True) = handler_run e r 4 (s1\<lparr>sv_limiter := l\<rparr>) (Granted h True)"
        using run_Granted [of e r 1] run_Granted [of e r 0] by (simp add: numeral_eq_Suc del: handler_run.simps)
      with True Some acq six show ?thesis by (simp add: Allow_def del: handler_run.simps)
    next
      case False
      obtain l2 ok where adm: "admit (ev_fused e) (ev_order e) (ev_limitNow e) (remoteIP (ev_unicode e) (rq_RemoteAddr r)) l = (l2, ok)"
        by fastforce
      have five: "handler_run e r 5 (s1\<lparr>sv_limiter := l\<rparr>) (Placed h)
          = handler_run e r 4 (s1\<lparr>sv_limiter := l2\<rparr>) (if ok then Granted h False else Refused h)"
        using adm handler_run.simps(2) [of e r 4 "s1\<lparr>sv_limiter := l\<rparr>" "Placed h"] by (simp del: handler_run.simps)
      have "handler_run e r 4 (s1\<lparr>sv_limiter := l2\<rparr>) (Refused h)
          = (case release h (s1\<lparr>sv_limiter := l2\<rparr>) of None \<Rightarrow> None | Some s' \<Rightarrow> Some (s', Answered (Some writeRateLimited)))"
        using handler_run.simps(2) [of e r 3 "s1\<lparr>sv_limiter := l2\<rparr>" "Refused h"]
        by (cases "release h (s1\<lparr>sv_limiter := l2\<rparr>)") (simp_all del: handler_run.simps(2))
      with False Some acq adm six five show ?thesis
        by (cases ok; cases "releaseSemaphore h l2") (simp_all add: Allow_def release_def del: handler_run.simps)
    qed
  qed
qed

text \<open>The handler as it is written, run without interruption up to its answer or relay, is the same as its
  steps run one after the other: the machine whose interleavings are studied below has the handler's steps.\<close>

lemma ServeHTTP_steps: "ServeHTTP e r s = handler_run e r 7 s Arrived"
proof -
  have "handler_run e r 7 s Arrived = (case authenticate e r s of None \<Rightarrow> None | Some (s1, b) \<Rightarrow> handler_run e r 6 s1 (Checked b))"
    by (cases "authenticate e r s") (auto simp: numeral_eq_Suc)
  moreover have "handler_run e r 4 s2 (Granted h b) =
      (if rq_Method r \<noteq> MethodConnect then leave h s2 (Responded (Decoy_ServeHTTP (sv_decoy s2) (rq_Method r)))
       else if \<not> b then leave h s2 (Responded (serveUnauthenticated s2 (rq_Method r)))
       else if EqualFold (Header_Get udpHeaderName (rq_Header r)) ''connect-udp'' then serveUDPSession e r h s2
       else case routeTCP e r s2 of None \<Rightarrow> None | Some out \<Rightarrow> leave h s2 out)" for s2 h b
    using run_Granted [of e r 0] by (simp add: numeral_eq_Suc del: handler_run.simps)
  ultimately show ?thesis
    unfolding ServeHTTP_def by (simp only: Let_def run_Checked)
qed

section \<open>Requests without a valid token\<close>

text \<open>What \<open>Allow\<close> returns: a place it has taken, or the state as before.\<close>

lemma Allow_grant:
  assumes inv: "limiter_inv l" and order: "gm_order it (li_ips l)"
    and allow: "Allow U fused it now remote b l = Some (l', g)"
  shows "limiter_inv l'" and "li_semCap l' = li_semCap l"
    and "case g of None \<Rightarrow> li_sem l' = li_sem l
       | Some h \<Rightarrow> h < length (li_once l') \<and> \<not> li_once l' ! h \<and> li_sem l' = li_sem l + 1"
proof -
  obtain l1 g1 where acq: "acquire l = (l1, g1)" by fastforce
  have "limiter_inv l' \<and> li_semCap l' = li_semCap l \<and> (case g of None \<Rightarrow> li_sem l' = li_sem l
       | Some h \<Rightarrow> h < length (li_once l') \<and> \<not> li_once l' ! h \<and> li_sem l' = li_sem l + 1)"
  proof (cases g1)
    case None
    with acq allow acquire_None [of l l1] inv show ?thesis by (auto simp: Allow_def)
  next
    case (Some h)
    then have acq: "acquire l = (l1, Some h)" using acq by simp
    note l1 = acquire_Some [OF acq]
    have inv1: "limiter_inv l1" by (rule limiter_step_inv [OF inv limiter_step.taken [OF acq]])
    show ?thesis
    proof (cases b)
      case True
      with acq allow l1 inv1 show ?thesis by (auto simp: Allow_def)
    next
      case False
      obtain l2 ok where adm: "admit fused it now (remoteIP U remote) l1 = (l2, ok)" by fastforce
      have "gm_order it (li_ips l1)" using order acq by (auto simp: acquire_def split: if_splits)
      then have inv2: "limiter_inv l2" by (rule admit_inv [OF inv1 _ adm])
      note l2 = admit_same [OF adm]
      have h: "h < length (li_once l2)" "\<not> li_once l2 ! h" using l1 l2 by (simp_all add: nth_append)
      show ?thesis
      proof (cases ok)
        case True
        with acq adm allow False l1 l2 inv2 h show ?thesis by (auto simp: Allow_def)
      next
        case nok: False
        with acq adm allow False have rel: "releaseSemaphore h l2 = Some l'" "g = None" by (auto simp: Allow_def)
        have "limiter_inv l'" by (rule limiter_step_inv [OF inv2 limiter_step.released [OF h(1) rel(1)]])
        with releaseSemaphore_open [OF rel(1) h(2)] rel(2) l1 l2 show ?thesis by simp
      qed
    qed
  qed
  then show "limiter_inv l'" "li_semCap l' = li_semCap l"
    "case g of None \<Rightarrow> li_sem l' = li_sem l
       | Some h \<Rightarrow> h < length (li_once l') \<and> \<not> li_once l' ! h \<and> li_sem l' = li_sem l + 1"
    by blast+
qed

lemma authenticate_refuses:
  assumes "rq_Method r \<noteq> MethodConnect
      \<or> (\<exists>a. Validate (ev_unicode e) (sv_auth s) (Header_Get ''Authorization'' (rq_Header r)) (rq_Method r) (rq_Host r)
            (sv_serverName s) (ev_authNow e) = Some (a, False))"
  shows "\<exists>a. \<forall>n q. authenticate e r (s\<lparr>sv_network := n, sv_udpSlots := q\<rparr>) = Some (s\<lparr>sv_network := n, sv_udpSlots := q, sv_auth := a\<rparr>, False)"
proof (cases "rq_Method r = MethodConnect")
  case True
  with assms obtain a where "Validate (ev_unicode e) (sv_auth s) (Header_Get ''Authorization'' (rq_Header r)) (rq_Method r)
      (rq_Host r) (sv_serverName s) (ev_authNow e) = Some (a, False)" by blast
  then show ?thesis by (intro exI [of _ a]) (simp add: authenticate_def True)
next
  case False
  then show ?thesis by (intro exI [of _ "sv_auth s"]) (simp add: authenticate_def)
qed

lemma leave_granted:
  assumes "limiter_inv (sv_limiter s)" and "h < length (li_once (sv_limiter s))" and "\<not> li_once (sv_limiter s) ! h"
  shows "\<exists>s'. leave h s (Responded resp) = Some (s', Answered (Some resp))
    \<and> sv_udpSlots s' = sv_udpSlots s \<and> li_sem (sv_limiter s') = li_sem (sv_limiter s) - 1"
proof -
  obtain l where rel: "releaseSemaphore h (sv_limiter s) = Some l" using release_returns [OF assms(1,2)] by blast
  with releaseSemaphore_open(2) [OF rel assms(3)] show ?thesis by (simp add: leave_def release_def)
qed

text \<open>C28 (safety). A request without a valid token learns nothing about the proxy: whatever its
  method, header and host, the handler answers at once, with the rate limiter's answer or with
  the decoy's (as a 404 to CONNECT); it opens no connection and no UDP session, gives its place
  back, and its answer does not depend on the network or on the UDP settings.\<close>

theorem unauthenticated_answer:
  assumes "server_ok s" and "gm_order (ev_order e) (li_ips (sv_limiter s))"
    and "rq_Method r \<noteq> MethodConnect
      \<or> (\<exists>a. Validate (ev_unicode e) (sv_auth s) (Header_Get ''Authorization'' (rq_Header r)) (rq_Method r) (rq_Host r)
            (sv_serverName s) (ev_authNow e) = Some (a, False))"
  shows "\<exists>resp s'. ServeHTTP e r s = Some (s', Answered (Some resp))
    \<and> (resp = writeRateLimited \<or> resp = serveStatus (sv_decoy s) (rq_Method r) (if rq_Method r = MethodConnect then 404 else 0))
    \<and> sv_udpSlots s' = sv_udpSlots s \<and> li_sem (sv_limiter s') = li_sem (sv_limiter s)
    \<and> (\<forall>network slots. \<exists>s''. ServeHTTP e r (s\<lparr>sv_network := network, sv_udpSlots := slots\<rparr>) = Some (s'', Answered (Some resp)))"
proof -
  have inv: "limiter_inv (sv_limiter s)" using assms(1) by (simp add: server_ok_def)
  obtain a where auth: "\<And>n q. authenticate e r (s\<lparr>sv_network := n, sv_udpSlots := q\<rparr>) = Some (s\<lparr>sv_network := n, sv_udpSlots := q, sv_auth := a\<rparr>, False)"
    using authenticate_refuses [OF assms(3)] by blast
  obtain l g where allow: "Allow (ev_unicode e) (ev_fused e) (ev_order e) (ev_limitNow e) (rq_RemoteAddr r) False (sv_limiter s) = Some (l, g)"
    using Allow_steps [OF inv assms(2)] by blast
  note grant = Allow_grant [OF inv assms(2) allow]
  let ?answer = "serveStatus (sv_decoy s) (rq_Method r) (if rq_Method r = MethodConnect then 404 else 0)"
  have run: "ServeHTTP e r (s\<lparr>sv_network := n, sv_udpSlots := q\<rparr>) =
      (case g of None \<Rightarrow> Some (s\<lparr>sv_network := n, sv_udpSlots := q, sv_auth := a, sv_limiter := l\<rparr>, Answered (Some writeRateLimited))
       | Some h \<Rightarrow> leave h (s\<lparr>sv_network := n, sv_udpSlots := q, sv_auth := a, sv_limiter := l\<rparr>) (Responded ?answer))" for n q
    unfolding ServeHTTP_def auth by (cases g) (simp_all add: allow serveUnauthenticated_def Decoy_ServeHTTP_def)
  have leaves: "\<exists>s'. leave h (s\<lparr>sv_network := n, sv_udpSlots := q, sv_auth := a, sv_limiter := l\<rparr>) (Responded resp) = Some (s', Answered (Some resp))
      \<and> sv_udpSlots s' = q \<and> li_sem (sv_limiter s') = li_sem (sv_limiter s)" if "g = Some h" for h n q resp
    using leave_granted [of "s\<lparr>sv_network := n, sv_udpSlots := q, sv_auth := a, sv_limiter := l\<rparr>" h resp] grant that by simp
  have self: "s\<lparr>sv_network := sv_network s, sv_udpSlots := sv_udpSlots s\<rparr> = s" by simp
  show ?thesis
  proof (cases g)
    case None
    with run grant(3) run [where n = "sv_network s" and q = "sv_udpSlots s", unfolded self] show ?thesis by simp
  next
    case (Some h)
    have any: "\<exists>s'. ServeHTTP e r (s\<lparr>sv_network := n, sv_udpSlots := q\<rparr>) = Some (s', Answered (Some ?answer))
        \<and> sv_udpSlots s' = q \<and> li_sem (sv_limiter s') = li_sem (sv_limiter s)" for n q
      using leaves [OF Some, where n = n and q = q and resp = ?answer] Some by (simp only: run option.case)
    from any [where n = "sv_network s" and q = "sv_udpSlots s", unfolded self] any show ?thesis by blast
  qed
qed

section \<open>All interleavings\<close>

text \<open>C29 (safety). Whatever requests arrive, in whatever interleaving of the handlers and whatever
  the network answers: a relay that is open was asked for by a CONNECT request that carried a
  token with a MAC under a configured key for this method, host and server name, issued within
  the skew of the clock when it was checked; and it is open to a literal of an address that the
  guard allows, at a nonzero port.\<close>

theorem open_relays_authorized:
  assumes "ListenServerWithConfig le cfg = Inr (s, info)" and "sc_AuthenticationSkew cfg \<le> 2 ^ 61"
    and "(server_step U)\<^sup>*\<^sup>* (started s) w"
    and "(r, p) \<in> set (wd_handlers w)" and "p = Relaying h target \<or> p = UdpRelaying h a"
  shows "rq_Method r = MethodConnect
    \<and> (\<exists>now ts nonce mac m au sn input key. parseToken (Header_Get ''Authorization'' (rq_Header r)) = Some (ts, nonce, mac)
        \<and> \<bar>time_Unix ts - now\<bar> \<le> (if 0 < sc_AuthenticationSkew cfg then sc_AuthenticationSkew cfg else minute)
        \<and> normalizeAuthFields U (rq_Method r) (rq_Host r) (ToLower (le_unicode le) (TrimSpace (sc_ServerName cfg))) = Inr (m, au, sn)
        \<and> canonicalAuthInput ts nonce m au sn = Inr input \<and> key \<in> set (sc_AuthKeys cfg) \<and> mac = hmac_sha256 key input)
    \<and> (p = Relaying h target \<longrightarrow> (\<exists>ip port. SplitHostPort target = Inr (IP_String ip, Itoa port)
         \<and> ParseIP (IP_String ip) = To16 ip \<and> \<not> IsForbiddenIP (To16 ip) \<and> 0 < port \<and> port < 2 ^ 16))
    \<and> (p = UdpRelaying h a \<longrightarrow> \<not> IsForbiddenIP (uaddr_IP a) \<and> 0 < uaddr_Port a)"
proof -
  note start = Listen_ok [OF assms(1,2)]
  have inv: "server_inv U w" and same: "same_setup s (wd_server w)"
    using server_reachable [OF assms(3) start(1-3)] by auto
  have "pc_ok U (wd_server w) r p" using inv assms(4) by (auto simp: server_inv_def)
  then have auth: "authentic U s r" and tcp: "p = Relaying h target \<Longrightarrow> safe_target r target" and udp: "p = UdpRelaying h a \<Longrightarrow> safe_udp r a"
    using assms(5) authentic_same [OF same] by auto
  have "\<exists>ip port. SplitHostPort target = Inr (IP_String ip, Itoa port) \<and> ParseIP (IP_String ip) = To16 ip
      \<and> \<not> IsForbiddenIP (To16 ip) \<and> 0 < port \<and> port < 2 ^ 16" if safe: "safe_target r target"
  proof -
    from safe obtain lookup where "ResolveAndValidateAuthority lookup (rq_Host r) = Inr target" by (auto simp: safe_target_def)
    then obtain portText port ips where port: "ParseUint10 16 portText = Some port" "0 < port"
      and ips: "ips \<noteq> []" "list_all (\<lambda>ip. \<not> IsForbiddenIP ip) ips" "length (hd ips) = 4 \<or> length (hd ips) = 16"
      and split: "SplitHostPort target = Inr (IP_String (hd ips), Itoa port)"
      by (rule resolve_Inr)
    have "\<not> IsForbiddenIP (To16 (hd ips))" using ips(1,2) by (simp add: IsForbiddenIP_To16 [OF ips(3)] list_all_iff)
    with split ParseIP_IP_String [OF ips(3)] port ParseUint10_bound [OF port(1)] show ?thesis by blast
  qed
  moreover have "\<not> IsForbiddenIP (uaddr_IP a) \<and> 0 < uaddr_Port a" if "safe_udp r a"
    using that by (simp add: safe_udp_def)
  moreover obtain now ts nonce mac where "parseToken (Header_Get ''Authorization'' (rq_Header r)) = Some (ts, nonce, mac)"
      "token_ok U (sv_auth s) (ts, nonce, mac) (rq_Method r) (rq_Host r) (sv_serverName s) now"
    using auth by (auto simp: authentic_def)
  moreover from this(2) obtain m au sn input key where
      "\<bar>time_Unix ts - now\<bar> \<le> (if 0 < sc_AuthenticationSkew cfg then sc_AuthenticationSkew cfg else minute)"
      "normalizeAuthFields U (rq_Method r) (rq_Host r) (ToLower (le_unicode le) (TrimSpace (sc_ServerName cfg))) = Inr (m, au, sn)"
      "canonicalAuthInput ts nonce m au sn = Inr input" "key \<in> set (sc_AuthKeys cfg)" "mac = hmac_sha256 key input"
    unfolding token_ok_def start(4,5,7) by (auto simp: abs_le_iff split: if_splits)
  moreover have "rq_Method r = MethodConnect" using auth by (simp add: authentic_def)
  ultimately show ?thesis using tcp udp by blast
qed

text \<open>C30 (invariant). At every moment, in every interleaving: no more requests are being worked on
  than configured, no more UDP sessions are open than configured (none when UDP is off), the
  nonce cache is within its capacity, and no handler can panic or block at its next access to
  shared state, whatever the clocks and the network say.\<close>

theorem server_bounds:
  assumes "ListenServerWithConfig le cfg = Inr (s, info)" and "sc_AuthenticationSkew cfg \<le> 2 ^ 61"
    and "(server_step U)\<^sup>*\<^sup>* (started s) w"
  shows "length (filter (\<lambda>(r, p). holds p \<noteq> None) (wd_handlers w))
        \<le> nat (if lc_MaxConcurrent (sc_Limits cfg) \<le> 0 then 128 else lc_MaxConcurrent (sc_Limits cfg))
    \<and> length (filter (\<lambda>(r, p). inSlot p) (wd_handlers w))
        \<le> (if sc_EnableUDPRelay cfg then nat (if 0 < sc_UDPMaxSessions cfg then sc_UDPMaxSessions cfg else 64) else 0)
    \<and> int (Len (au_replay (sv_auth (wd_server w)))) \<le> (if 0 < sc_ReplayCapacity cfg then sc_ReplayCapacity cfg else 4096)
    \<and> list_all (\<lambda>(r, p). \<forall>e. advance e r p (wd_server w) \<noteq> None) (wd_handlers w)"
proof -
  note start = Listen_ok [OF assms(1,2)]
  have inv: "server_inv U w" and same: "same_setup s (wd_server w)"
    using server_reachable [OF assms(3) start(1-3)] by auto
  then have ok: "server_ok (wd_server w)" by (simp add: server_inv_def)
  have counts: "length (filter (\<lambda>(r, p). f p) hs) = count_list (map (f \<circ> snd) hs) True" for f :: "pc \<Rightarrow> bool" and hs :: "(http_request \<times> pc) list"
    by (induction hs) auto
  have "length (filter (\<lambda>(r, p). holds p \<noteq> None) (wd_handlers w)) = li_sem (sv_limiter (wd_server w))"
      "length (filter (\<lambda>(r, p). inSlot p) (wd_handlers w)) = usedSlots (wd_server w)"
    using inv unfolding counts server_inv_def by blast+
  moreover have "li_sem (sv_limiter (wd_server w)) \<le> li_semCap (sv_limiter s)" "usedSlots (wd_server w) \<le> slotCap s"
      "int (Len (au_replay (sv_auth (wd_server w)))) \<le> rc_capacity (au_replay (sv_auth s))"
    using ok same by (simp_all add: server_ok_def limiter_inv_def auth_wf_def same_setup_def)
  moreover have "advance e r p (wd_server w) \<noteq> None" if mem: "(r, p) \<in> set (wd_handlers w)" for r p e
  proof -
    obtain i where "i < length (wd_handlers w)" "wd_handlers w ! i = (r, p)" 
      using mem by (auto simp: in_set_conv_nth)
    with advance_total [OF ok, of p e r] handler_claims [OF inv] show ?thesis by fastforce
  qed
  ultimately show ?thesis unfolding start by (auto simp: list_all_iff)
qed

section \<open>Draining\<close>

text \<open>When relays end, each step of a handler brings it closer to its answer.\<close>

fun rank :: "pc \<Rightarrow> nat" where
  "rank Arrived = 8"
| "rank (Checked _) = 7"
| "rank (Placed _) = 6"
| "rank (Granted _ _) = 5"
| "rank (InSlot _) = 4"
| "rank (Relaying _ _) = 2"
| "rank (UdpRelaying _ _) = 3"
| "rank (LeavingSlot _ _) = 2"
| "rank (Leaving _ _) = 1"
| "rank (Refused _) = 1"
| "rank (Answered _) = 0"

lemma rank_decreases:
  assumes "advance e r p s = Some (s', p')" and "rank p \<noteq> 0" and "ev_relayEnds e"
  shows "rank p' < rank p"
proof (cases p)
  case (Granted h b)
  with assms show ?thesis
    by (auto simp: afterGrant_def split: if_splits option.splits outcome.splits dest: routeTCP_RelayTo)
next
  case (InSlot h)
  with assms show ?thesis by (auto split: option.splits outcome.splits dest: routeUDP_UdpTo)
qed (use assms in \<open>auto split: if_splits option.splits prod.splits\<close>)

text \<open>The steps of a server that gets no new request and whose relays end: any handler that has no
  answer yet goes on, at any time and whatever the network says.\<close>

inductive drain_step :: "unicode_tables \<Rightarrow> world \<Rightarrow> world \<Rightarrow> bool" for U :: unicode_tables where
  "i < length (wd_handlers w) \<Longrightarrow> wd_handlers w ! i = (r, p) \<Longrightarrow> rank p \<noteq> 0 \<Longrightarrow> ev_unicode e = U \<Longrightarrow> ev_relayEnds e \<Longrightarrow>
     gm_order (ev_order e) (li_ips (sv_limiter (wd_server w))) \<Longrightarrow> advance e r p (wd_server w) = Some (s', p') \<Longrightarrow>
     drain_step U w \<lparr>wd_server = s', wd_handlers = (wd_handlers w)[i := (r, p')]\<rparr>"

inductive_cases drain_stepE: "drain_step U w w'"

definition total_rank :: "world \<Rightarrow> nat" where
  "total_rank w = sum_list (map (rank \<circ> snd) (wd_handlers w))"

lemma drain_step_server: "drain_step U w w' \<Longrightarrow> server_step U w w'"
  by (erule drain_stepE) (auto intro: server_step.handler)

lemma drain_step_rank: "drain_step U w w' \<Longrightarrow> total_rank w' < total_rank w"
proof -
  assume "drain_step U w w'"
  then obtain i r p e s' p' where i: "i < length (wd_handlers w)" "wd_handlers w ! i = (r, p)" and p: "rank p \<noteq> 0" and e: "ev_relayEnds e"
    and adv: "advance e r p (wd_server w) = Some (s', p')" and w': "w' = \<lparr>wd_server = s', wd_handlers = (wd_handlers w)[i := (r, p')]\<rparr>"
    by (auto elim!: drain_stepE)
  let ?ranks = "map (rank \<circ> snd) (wd_handlers w)"
  have "?ranks ! i = rank p" "rank p \<le> sum_list ?ranks"
    using i elem_le_sum_list [of i ?ranks] by simp_all
  then show "total_rank w' < total_rank w"
    using rank_decreases [OF adv p e] i(1) by (simp add: total_rank_def w' map_update sum_list_update)
qed

lemma drain_step_possible:
  assumes inv: "server_inv U w" and mem: "(r, p) \<in> set (wd_handlers w)" and p: "rank p \<noteq> 0"
  shows "\<exists>w'. drain_step U w w'"
proof -
  define e where "e = \<lparr>ev_unicode = U, ev_fused = False, ev_order = map fst (li_ips (sv_limiter (wd_server w))),
    ev_authNow = 0, ev_limitNow = 0, ev_streamer = False, ev_resolver = (\<lambda>_. None), ev_relayEnds = True\<rparr>"
  obtain i where i: "i < length (wd_handlers w)" "wd_handlers w ! i = (r, p)" using mem by (auto simp: in_set_conv_nth)
  have ok: "server_ok (wd_server w)" using inv by (simp add: server_inv_def)
  then have order: "gm_order (ev_order e) (li_ips (sv_limiter (wd_server w)))"
    by (simp add: e_def gm_order_self server_ok_def limiter_inv_def)
  obtain s' p' where "advance e r p (wd_server w) = Some (s', p')"
    using advance_total [OF ok] handler_claims [OF inv i] by blast
  from drain_step.intros [OF i p _ _ order this] show ?thesis by (auto simp: e_def)
qed

lemma answered_free:
  assumes "server_inv U w" and "\<forall>(r, p) \<in> set (wd_handlers w). rank p = 0"
  shows "li_sem (sv_limiter (wd_server w)) = 0" and "usedSlots (wd_server w) = 0"
proof -
  have none: "holds p = None \<and> \<not> inSlot p" if "(r, p) \<in> set (wd_handlers w)" for r p
    using assms(2) that by (cases p) auto
  then have "True \<notin> set (map ((\<lambda>p. holds p \<noteq> None) \<circ> snd) (wd_handlers w))" "True \<notin> set (map (inSlot \<circ> snd) (wd_handlers w))"
    by fastforce+
  then show "li_sem (sv_limiter (wd_server w)) = 0" "usedSlots (wd_server w) = 0"
    using assms(1) unfolding server_inv_def by (metis count_list_0_iff)+
qed

lemma drain_run:
  assumes "(drain_step U ^^ n) w w'" and "server_inv U w"
  shows "server_inv U w' \<and> n + total_rank w' \<le> total_rank w \<and> length (wd_handlers w') = length (wd_handlers w)"
  using assms(1)
proof (induction n arbitrary: w')
  case (Suc n)
  then obtain w1 where w1: "(drain_step U ^^ n) w w1" "drain_step U w1 w'" by auto
  have "length (wd_handlers w') = length (wd_handlers w1)" using w1(2) by (auto elim!: drain_stepE)
  then show ?case
    using Suc.IH [OF w1(1)] drain_step_rank [OF w1(2)] server_step_inv [OF _ drain_step_server [OF w1(2)]] by auto
qed (simp add: assms(2))

lemma drain_ends: "\<exists>n w'. (drain_step U ^^ n) w w' \<and> (\<nexists>w''. drain_step U w' w'')"
proof (induction "total_rank w" arbitrary: w rule: less_induct)
  case less
  show ?case
  proof (cases "\<exists>w1. drain_step U w w1")
    case True
    then obtain w1 where w1: "drain_step U w w1" by blast
    from less [OF drain_step_rank [OF w1]] obtain n w' where "(drain_step U ^^ n) w1 w'" "\<nexists>w''. drain_step U w' w''" by blast
    with w1 show ?thesis by (meson relpowp_Suc_I2)
  next
    case False
    then show ?thesis by (intro exI [of _ 0] exI [of _ w]) simp
  qed
qed

text \<open>C31 (liveness). Nothing is lost. From every state the server can reach: if no new request comes
  and the relays that are open end, the handlers, scheduled in whatever order, can make no more than
  eight steps each; they come to a state in which none can go on, and in every such state all of them
  have answered, every place of the limiter is free and every UDP slot is free.\<close>

theorem server_drains:
  assumes "ListenServerWithConfig le cfg = Inr (s, info)" and "sc_AuthenticationSkew cfg \<le> 2 ^ 61"
    and "(server_step U)\<^sup>*\<^sup>* (started s) w"
  shows "(\<forall>n w'. (drain_step U ^^ n) w w' \<longrightarrow> n \<le> 8 * length (wd_handlers w)
       \<and> ((\<exists>w''. drain_step U w' w'')
          \<or> length (wd_handlers w') = length (wd_handlers w) \<and> (\<forall>(r, p) \<in> set (wd_handlers w'). \<exists>resp. p = Answered resp)
            \<and> li_sem (sv_limiter (wd_server w')) = 0 \<and> usedSlots (wd_server w') = 0))
    \<and> (\<exists>n w'. (drain_step U ^^ n) w w' \<and> (\<nexists>w''. drain_step U w' w''))"
proof (rule conjI [OF _ drain_ends], intro allI impI)
  fix n w'
  assume run: "(drain_step U ^^ n) w w'"
  have "server_inv U w" using server_reachable [OF assms(3) Listen_ok(1-3) [OF assms(1,2)]] by simp
  note w' = drain_run [OF run this]
  have le: "rank p \<le> 8" and zero: "rank p = 0 \<longleftrightarrow> (\<exists>resp. p = Answered resp)" for p by (cases p; simp)+
  have "sum_list (map (rank \<circ> snd) hs) \<le> 8 * length hs" for hs :: "(http_request \<times> pc) list"
    using le by (induction hs) (auto intro: add_mono)
  then have "total_rank w \<le> 8 * length (wd_handlers w)" by (simp add: total_rank_def)
  moreover have "(\<exists>w''. drain_step U w' w'') \<or> (\<forall>(r, p) \<in> set (wd_handlers w'). rank p = 0)"
    using drain_step_possible w' by blast
  ultimately show "n \<le> 8 * length (wd_handlers w)
       \<and> ((\<exists>w''. drain_step U w' w'')
          \<or> length (wd_handlers w') = length (wd_handlers w) \<and> (\<forall>(r, p) \<in> set (wd_handlers w'). \<exists>resp. p = Answered resp)
            \<and> li_sem (sv_limiter (wd_server w')) = 0 \<and> usedSlots (wd_server w') = 0)"
    using w' answered_free [of U w'] by (auto simp: zero)
qed

section \<open>Witnesses\<close>

text \<open>A server with one key, and a signed CONNECT request to \<open>a:1\<close>.\<close>

definition ex_hooks :: NetworkHooks where
  "ex_hooks = \<lparr>nh_LookupIP = Some (\<lambda>_. Some [[93, 184, 215, 14]]), nh_DialContext = Some (\<lambda>_ _. True),
     nh_ListenPacket = Some (\<lambda>_ _. True)\<rparr>"

definition ex_server_config :: ServerConfig where
  "ex_server_config =
     \<lparr>sc_ListenAddr = ''l'', sc_ServerName = ''s'', sc_AuthKeys = [ex_key], sc_CertificatePath = ''c'', sc_CertificateFile = [],
      sc_PrivateKeyFile = [], sc_DecoyTarget = ''a'', sc_DecoyOptions = \<lparr>do_Fetch = Some (\<lambda>_. Inl FetchFailed), do_HTTPClient = None\<rparr>,
      sc_DecoyRefreshInterval = minute, sc_Limits = ex_config, sc_Network = ex_hooks, sc_TargetDialTimeout = minute,
      sc_AuthenticationSkew = minute, sc_ReplayCapacity = 1, sc_QUICConfig = Some defaultServerQUIC, sc_EnableUDPRelay = False,
      sc_UDPMaxPacketSize = 0, sc_UDPMaxSessions = 0, sc_UDPIdleTimeout = 0\<rparr>"

definition ex_listen_env :: listen_env where
  "ex_listen_env =
     \<lparr>le_unicode = ex_unicode, le_system = \<lparr>sys_LookupIP = (\<lambda>_. None), sys_DialContext = (\<lambda>_ _ _. False), sys_ListenPacket = (\<lambda>_ _. False)\<rparr>,
      le_certPath = [], le_cert = ex_cert_env, le_files = [], le_now = 0, le_transport = (\<lambda>_ _ _. None), le_plainClient = (\<lambda>_. None),
      le_listenPacket = (\<lambda>_. True), le_listenEarly = (\<lambda>_. Some ''l''),
      le_closeH3 = None, le_closeListener = None, le_closePacketConn = None\<rparr>"

definition ex_server :: Server where
  "ex_server = newServer ex_listen_env ex_server_config ex_auth ex_decoy ''l''"

lemma plain_one: "plain_char c \<Longrightarrow> TrimSpace [c] = [c]"
  by (rule TrimSpace_plain) simp

lemma ex_normalize: "normalizeServerConfig ex_unicode sys [] ex_server_config = Inr ex_server_config"
proof -
  have "ToLower ex_unicode ''s'' = ''s''" by (simp add: ToLower_def isASCII_def ascii_lower_def)
  moreover have "TrimSpace ''l'' = ''l''" "TrimSpace ''s'' = ''s''" "TrimSpace ''a'' = ''a''"
    by (simp_all add: plain_one plain_char_def)
  ultimately show ?thesis
    by (simp add: normalizeServerConfig_def ex_server_config_def withCertificatePath_def withDurations_def withUDP_def
        withNetwork_def normalizeNetworkHooks_def ex_hooks_def normalizeQUIC_def)
qed

definition ex_fingerprint :: string where
  "ex_fingerprint = certificateFingerprint \<lparr>tc_Certificate = [bytes_of_string ''s''], tc_PrivateKey = []\<rparr>"

lemma ex_certificate:
  "snd (loadServerCertificate ex_cert_env ex_server_config 0 []) = Inr (\<lparr>tc_Certificate = [bytes_of_string ''s''], tc_PrivateKey = []\<rparr>, ex_fingerprint)"
proof -
  have "TrimSpace ''c'' = ''c''" "TrimSpace ''s'' = ''s''" by (simp_all add: plain_one plain_char_def)
  then show ?thesis
    by (simp add: loadServerCertificate_def ex_server_config_def loadOrCreateCertificate_def createCertificate_def writeFileAtomic_def
        ex_cert_env_def mkTemplate_def ex_fingerprint_def Let_def)
qed

lemma ex_listen: "ListenServerWithConfig ex_listen_env ex_server_config = Inr (ex_server, \<lparr>si_Addr = ''l'', si_Fingerprint = ex_fingerprint\<rparr>)"
proof -
  have "TrimSpace ''a'' = ''a''" by (simp add: plain_one plain_char_def)
  then have "NewDecoy (\<lambda>_. None) ''a'' \<lparr>do_Fetch = Some (\<lambda>_. Inl FetchFailed), do_HTTPClient = None\<rparr> = Inr ex_decoy"
    by (simp add: NewDecoy_def ex_decoy_def)
  moreover have "Refresh ex_decoy = (ex_decoy, Some FetchFailed)" by (simp add: Refresh_def ex_decoy_def)
  moreover have "NewAuthenticator (sc_AuthKeys ex_server_config) (sc_AuthenticationSkew ex_server_config) (sc_ReplayCapacity ex_server_config) = Inr ex_auth"
    using ex_new by (simp add: ex_server_config_def)
  moreover have "withDecoyClient t ex_server_config = \<lparr>do_Fetch = Some (\<lambda>_. Inl FetchFailed), do_HTTPClient = None\<rparr>" for t
    by (simp add: withDecoyClient_def ex_server_config_def)
  moreover have "sc_DecoyTarget ex_server_config = ''a''" by (simp add: ex_server_config_def)
  ultimately show ?thesis
    by (simp add: ListenServerWithConfig_def ex_listen_env_def ex_normalize ex_certificate ex_server_def)
qed

lemma ex_skew: "sc_AuthenticationSkew ex_server_config \<le> 2 ^ 61"
  by (simp add: ex_server_config_def)

definition ex_serve_env :: serve_env where
  "ex_serve_env = \<lparr>ev_unicode = ex_unicode, ev_fused = False, ev_order = [], ev_authNow = 0, ev_limitNow = 0, ev_streamer = True,
     ev_resolver = (\<lambda>_. None), ev_relayEnds = True\<rparr>"

definition ex_request :: http_request where
  "ex_request = \<lparr>rq_Method = ''CONNECT'', rq_Host = ''a:1'', rq_RemoteAddr = ''192.0.2.1:9'', rq_Header = [(''Authorization'', [ex_header 7])]\<rparr>"

lemma ex_route: "ResolveAndValidateAuthority (\<lambda>_. Some [[93, 184, 215, 14]]) ''a:1'' = Inr ''93.184.215.14:1''"
proof -
  have "TrimSpace ''a:1'' = ''a:1''" by (rule TrimSpace_plain) (simp add: plain_def plain_char_def)
  moreover have "SplitHostPort ''a:1'' = Inr (''a'', ''1'')" "ParseIP ''a'' = []" "Itoa 1 = ''1''"
      "JoinHostPort ''93.184.215.14'' ''1'' = ''93.184.215.14:1''"
    by code_simp+
  moreover have "ParseUint10 16 ''1'' = Some 1" using ParseUint10_Itoa [of 1 16] \<open>Itoa 1 = ''1''\<close> by simp
  ultimately show ?thesis
    by (simp add: ResolveAndValidateAuthority_def ex_allowed ex_resolve_parts)
qed

lemma ex_request_headers:
  "Header_Get ''Authorization'' (rq_Header ex_request) = ex_header 7" "Header_Get udpHeaderName (rq_Header ex_request) = []"
proof -
  have "CanonicalHeaderKey ''Authorization'' = ''Authorization''" "CanonicalHeaderKey ''Connect-Protocol'' = ''Connect-Protocol''"
    by code_simp+
  then show "Header_Get ''Authorization'' (rq_Header ex_request) = ex_header 7" "Header_Get udpHeaderName (rq_Header ex_request) = []"
    by (simp_all add: Header_Get_def Header_Values_def ex_request_def udpHeaderName_def gm_lookup_def)
qed

text \<open>The request is relayed.\<close>

lemma ex_relay: "\<exists>w h. (server_step ex_unicode)\<^sup>*\<^sup>* (started ex_server) w \<and> wd_handlers w = [(ex_request, Relaying h ''93.184.215.14:1'')]"
proof -
  let ?run = "\<lambda>s p. \<lparr>wd_server = s, wd_handlers = [(ex_request, p)]\<rparr>"
  have step: "server_step ex_unicode (?run s p) (?run s' p')"
    if "advance ex_serve_env ex_request p s = Some (s', p')" "li_ips (sv_limiter s) = []" for s p s' p'
    using server_step.handler [of 0 "?run s p" ex_request p ex_serve_env ex_unicode s' p'] that
    by (simp add: ex_serve_env_def gm_order_def)
  obtain a where "Validate ex_unicode ex_auth (ex_header 7) ''CONNECT'' ''a:1'' ''s'' 0 = Some (a, True)"
    by (simp add: ex_validate ex_auth_def ex_Add)
  moreover have "sv_auth ex_server = ex_auth" "sv_serverName ex_server = ''s''" "rq_Method ex_request = ''CONNECT''" "rq_Host ex_request = ''a:1''"
    by (simp_all add: ex_server_def newServer_def ex_server_config_def ex_request_def)
  ultimately have a: "authenticate ex_serve_env ex_request ex_server = Some (ex_server\<lparr>sv_auth := a\<rparr>, True)"
    by (simp add: authenticate_def ex_request_headers ex_serve_env_def MethodConnect_def)
  obtain l h where acq: "acquire (sv_limiter ex_server) = (l, Some h)" and ips: "li_ips (sv_limiter ex_server) = []" "li_ips l = []"
    by (simp add: acquire_def ex_server_def newServer_def ex_server_config_def NewLimiter_def ex_config_def)
  let ?s2 = "ex_server\<lparr>sv_auth := a, sv_limiter := l\<rparr>"
  have route: "routeTCP ex_serve_env ex_request ?s2 = Some (RelayTo ''93.184.215.14:1'')"
    by (simp add: routeTCP_def ex_server_def newServer_def ex_server_config_def ex_hooks_def ex_request_def ex_serve_env_def ex_route)
  have "afterGrant ex_serve_env ex_request h True ?s2 = Some (?s2, Relaying h ''93.184.215.14:1'')"
    unfolding afterGrant_def route ex_request_headers by (simp add: ex_request_def MethodConnect_def EqualFold_def)
  then have "server_step ex_unicode (?run ?s2 (Granted h True)) (?run ?s2 (Relaying h ''93.184.215.14:1''))"
    using ips by (intro step) simp_all
  moreover have "server_step ex_unicode (?run (ex_server\<lparr>sv_auth := a\<rparr>) (Checked True)) (?run ?s2 (Granted h True))"
    using acq ips by (intro step) simp_all
  moreover have "server_step ex_unicode (?run ex_server Arrived) (?run (ex_server\<lparr>sv_auth := a\<rparr>) (Checked True))"
    using a ips by (intro step) simp_all
  moreover have "server_step ex_unicode (started ex_server) (?run ex_server Arrived)"
    using server_step.request [of ex_unicode "started ex_server" ex_request] by (simp add: started_def)
  ultimately have "(server_step ex_unicode)\<^sup>*\<^sup>* (started ex_server) (?run ?s2 (Relaying h ''93.184.215.14:1''))"
    by (meson converse_rtranclp_into_rtranclp rtranclp.rtrancl_refl)
  then show ?thesis by (intro exI conjI) auto
qed

theorem unauthenticated_answer_witness:
  "\<exists>resp s'. ServeHTTP ex_serve_env (ex_request\<lparr>rq_Method := ''GET''\<rparr>) ex_server = Some (s', Answered (Some resp))
     \<and> (resp = writeRateLimited \<or> resp = serveStatus ex_decoy ''GET'' 0)"
proof -
  have "sv_decoy ex_server = ex_decoy" "li_ips (sv_limiter ex_server) = []"
    by (simp_all add: ex_server_def newServer_def NewLimiter_def)
  then show ?thesis
    using unauthenticated_answer [of ex_server ex_serve_env "ex_request\<lparr>rq_Method := ''GET''\<rparr>"] Listen_ok(1) [OF ex_listen ex_skew]
    by (auto simp: ex_serve_env_def gm_order_def MethodConnect_def)
qed

theorem open_relays_authorized_witness:
  "\<exists>w h ip port. (server_step ex_unicode)\<^sup>*\<^sup>* (started ex_server) w \<and> (ex_request, Relaying h ''93.184.215.14:1'') \<in> set (wd_handlers w)
     \<and> SplitHostPort ''93.184.215.14:1'' = Inr (IP_String ip, Itoa port) \<and> \<not> IsForbiddenIP (To16 ip)"
proof -
  from ex_relay obtain w h where w: "(server_step ex_unicode)\<^sup>*\<^sup>* (started ex_server) w"
    "wd_handlers w = [(ex_request, Relaying h ''93.184.215.14:1'')]" by blast
  then have mem: "(ex_request, Relaying h ''93.184.215.14:1'') \<in> set (wd_handlers w)" by simp
  have "\<exists>ip port. SplitHostPort ''93.184.215.14:1'' = Inr (IP_String ip, Itoa port) \<and> \<not> IsForbiddenIP (To16 ip)"
    using open_relays_authorized [OF ex_listen ex_skew w(1) mem disjI1 [OF refl]] by blast
  with w(1) mem show ?thesis by blast
qed

theorem server_bounds_witness:
  "\<exists>w h. (server_step ex_unicode)\<^sup>*\<^sup>* (started ex_server) w \<and> wd_handlers w = [(ex_request, Relaying h ''93.184.215.14:1'')]
     \<and> length (filter (\<lambda>(r, p). holds p \<noteq> None) (wd_handlers w)) \<le> 2
     \<and> int (Len (au_replay (sv_auth (wd_server w)))) \<le> 1
     \<and> advance ex_serve_env ex_request (Relaying h ''93.184.215.14:1'') (wd_server w) \<noteq> None"
proof -
  from ex_relay obtain w h where w: "(server_step ex_unicode)\<^sup>*\<^sup>* (started ex_server) w"
    "wd_handlers w = [(ex_request, Relaying h ''93.184.215.14:1'')]" by blast
  from server_bounds [OF ex_listen ex_skew w(1)] show ?thesis
    by (intro exI [of _ w] exI [of _ h]) (simp add: w ex_server_config_def ex_config_def)
qed

theorem server_drains_witness:
  "\<exists>w h n w'. (server_step ex_unicode)\<^sup>*\<^sup>* (started ex_server) w \<and> wd_handlers w = [(ex_request, Relaying h ''93.184.215.14:1'')]
     \<and> (drain_step ex_unicode ^^ n) w w' \<and> n \<le> 8
     \<and> (\<exists>r resp. wd_handlers w' = [(r, Answered resp)]) \<and> li_sem (sv_limiter (wd_server w')) = 0"
proof -
  from ex_relay obtain w h where w: "(server_step ex_unicode)\<^sup>*\<^sup>* (started ex_server) w"
    "wd_handlers w = [(ex_request, Relaying h ''93.184.215.14:1'')]" by blast
  note drains = server_drains [OF ex_listen ex_skew w(1)]
  then obtain n w' where n: "(drain_step ex_unicode ^^ n) w w'" "\<nexists>w''. drain_step ex_unicode w' w''" by blast
  with drains have "n \<le> 8 * length (wd_handlers w)" "length (wd_handlers w') = length (wd_handlers w)"
      "\<forall>(r, p) \<in> set (wd_handlers w'). \<exists>resp. p = Answered resp" "li_sem (sv_limiter (wd_server w')) = 0"
    by blast+
  moreover from this(2) obtain r p where one: "wd_handlers w' = [(r, p)]" by (auto simp: w(2) length_Suc_conv)
  ultimately have "n \<le> 8" "\<exists>r resp. wd_handlers w' = [(r, Answered resp)]" "li_sem (sv_limiter (wd_server w')) = 0"
    by (auto simp: w(2))
  with w n(1) show ?thesis by blast
qed

end
