(* ===== verification/Udp_Session.thy ===== *)
theory Udp_Session
  imports Server_Props
begin

text \<open>
  The relaying of UDP packets by the server (\<open>internal/quicx/udp.go\<close>): the two goroutines and the
  loop of \<open>serveUDPSession\<close>, from the point on where \<open>Server\<close> has opened the session.

  A session is a state machine: each event is one round of one of the three loops, and the events
  of a run may come in any order. \<open>us_sent\<close> and \<open>us_frames\<close> record what went out to the target and
  to the client. The clock, the outcome of each send and the order in which the decoder visits its
  map are part of the event.

  Lemmas: \<open>session_inv\<close> holds in every state a run can reach.
\<close>

section \<open>Sources\<close>

datatype net_addr = UDPNetAddr UDPAddr | OtherNetAddr

text \<open>\<open>net.IP.Equal\<close>: an IPv4 address equals its IPv4-mapped form.\<close>

definition IP_Equal :: "IP \<Rightarrow> IP \<Rightarrow> bool" where
  "IP_Equal ip x =
     (if length ip = length x then ip = x
      else if length ip = 4 \<and> length x = 16 then take 12 x = v4InV6Prefix \<and> ip = drop 12 x
      else if length ip = 16 \<and> length x = 4 then take 12 ip = v4InV6Prefix \<and> drop 12 ip = x
      else False)"

definition udpSourceMatchesTarget :: "net_addr \<Rightarrow> UDPAddr option \<Rightarrow> bool" where
  "udpSourceMatchesTarget source target =
     (case target of
        None \<Rightarrow> False
      | Some t \<Rightarrow>
          if uaddr_IP t = [] \<or> uaddr_Port t = 0 then False
          else case source of
              OtherNetAddr \<Rightarrow> False
            | UDPNetAddr udpSource \<Rightarrow>
                if uaddr_IP udpSource = [] \<or> uaddr_Port udpSource \<noteq> uaddr_Port t then False
                else IP_Equal (uaddr_IP udpSource) (uaddr_IP t))"

section \<open>The session\<close>

record udp_session =
  us_target :: UDPAddr
  us_maxPacket :: int
  us_idleTimeout :: duration
  us_fromClient :: udpFragmentDecoder
  us_toClient :: udpFragmentEncoder
  us_activity :: bool
  us_done :: nat
  us_reading :: bool
  us_writing :: bool
  us_timer :: instant
  us_open :: bool
  us_sent :: "(bytes \<times> UDPAddr) list"
  us_frames :: "bytes list"

definition startSession :: "Server \<Rightarrow> UDPAddr \<Rightarrow> instant \<Rightarrow> udp_session" where
  "startSession s targetAddr now =
     \<lparr>us_target = targetAddr, us_maxPacket = sv_udpMaxPacket s, us_idleTimeout = sv_udpIdleTimeout s,
      us_fromClient = newUDPFragmentDecoder (sv_udpMaxPacket s), us_toClient = newUDPFragmentEncoder (sv_udpMaxPacket s),
      us_activity = False, us_done = 0, us_reading = True, us_writing = True,
      us_timer = now + sv_udpIdleTimeout s, us_open = True, us_sent = [], us_frames = []\<rparr>"

text \<open>A goroutine that fails puts its error into \<open>done\<close> and returns.\<close>

definition readerFails :: "udp_session \<Rightarrow> udp_session" where
  "readerFails u = u\<lparr>us_done := us_done u + 1, us_reading := False\<rparr>"

definition writerFails :: "udp_session \<Rightarrow> udp_session" where
  "writerFails u = u\<lparr>us_done := us_done u + 1, us_writing := False\<rparr>"

text \<open>One round of the first goroutine: a datagram of the client.\<close>

definition clientDatagram :: "32 word list \<Rightarrow> instant \<Rightarrow> bytes \<Rightarrow> bool \<Rightarrow> udp_session \<Rightarrow> udp_session" where
  "clientDatagram it now data writeOk u =
     (case Decode it now data (us_fromClient u) of
        (d, Inl e) \<Rightarrow> readerFails (u\<lparr>us_fromClient := d\<rparr>)
      | (d, Inr None) \<Rightarrow> u\<lparr>us_fromClient := d\<rparr>
      | (d, Inr (Some packet)) \<Rightarrow>
          let u1 = u\<lparr>us_fromClient := d\<rparr> in
          if \<not> writeOk then readerFails u1
          else u1\<lparr>us_sent := us_sent u1 @ [(packet, us_target u)], us_activity := True\<rparr>)"

text \<open>The loop over the frames: the index of the \<open>SendDatagram\<close> that fails, if one does.\<close>

definition sendFrames :: "bytes list \<Rightarrow> nat option \<Rightarrow> udp_session \<Rightarrow> udp_session" where
  "sendFrames frames failing u =
     (case failing of
        Some k \<Rightarrow>
          if k < length frames then writerFails (u\<lparr>us_frames := us_frames u @ take k frames\<rparr>)
          else u\<lparr>us_frames := us_frames u @ frames, us_activity := True\<rparr>
      | None \<Rightarrow> u\<lparr>us_frames := us_frames u @ frames, us_activity := True\<rparr>)"

text \<open>One round of the second goroutine: a datagram on the socket, read into a buffer of
  \<open>udpMaxPacket + 1\<close> bytes.\<close>

definition targetDatagram :: "net_addr \<Rightarrow> bytes \<Rightarrow> nat option \<Rightarrow> udp_session \<Rightarrow> udp_session" where
  "targetDatagram source datagram failing u =
     (let buf = take (nat (us_maxPacket u + 1)) datagram; n = length buf in
      if n = 0 \<or> us_maxPacket u < int n then u
      else if \<not> udpSourceMatchesTarget source (Some (us_target u)) then u
      else case Encode buf (us_toClient u) of
          (e, Inl _) \<Rightarrow> writerFails (u\<lparr>us_toClient := e\<rparr>)
        | (e, Inr frames) \<Rightarrow> sendFrames frames failing (u\<lparr>us_toClient := e\<rparr>))"

text \<open>The \<open>select\<close> of the handler; \<open>None\<close>: that case is not ready.\<close>

datatype select_case = CtxDoneCase | DoneCase | ActivityCase | TimerCase

definition closeUDPSessionStream :: "udp_session \<Rightarrow> udp_session" where
  "closeUDPSessionStream u = u\<lparr>us_open := False\<rparr>"

definition sessionSelect :: "instant \<Rightarrow> select_case \<Rightarrow> udp_session \<Rightarrow> udp_session option" where
  "sessionSelect now c u =
     (case c of
        CtxDoneCase \<Rightarrow> Some (closeUDPSessionStream u)
      | DoneCase \<Rightarrow> if 0 < us_done u then Some (closeUDPSessionStream (u\<lparr>us_done := us_done u - 1\<rparr>)) else None
      | ActivityCase \<Rightarrow>
          if us_activity u then Some (u\<lparr>us_activity := False, us_timer := now + us_idleTimeout u\<rparr>) else None
      | TimerCase \<Rightarrow> if us_timer u \<le> now then Some (closeUDPSessionStream u) else None)"

datatype session_event =
    FromClient "32 word list" instant bytes bool
  | ClientFailed
  | FromTarget net_addr bytes "nat option"
  | TargetFailed
  | Selected instant select_case

fun session_step :: "session_event \<Rightarrow> udp_session \<Rightarrow> udp_session option" where
  "session_step (FromClient it now data writeOk) u =
     (if us_reading u \<and> gm_order it (ud_pending (pruneExpiredLocked now (us_fromClient u)))
      then Some (clientDatagram it now data writeOk u) else None)"
| "session_step ClientFailed u = (if us_reading u then Some (readerFails u) else None)"
| "session_step (FromTarget source datagram failing) u =
     (if us_writing u then Some (targetDatagram source datagram failing u) else None)"
| "session_step TargetFailed u = (if us_writing u then Some (writerFails u) else None)"
| "session_step (Selected now c) u = (if us_open u then sessionSelect now c u else None)"

inductive session_run :: "udp_session \<Rightarrow> session_event list \<Rightarrow> udp_session \<Rightarrow> bool" for u0 :: udp_session where
  start: "session_run u0 [] u0"
| step: "session_run u0 evs u \<Longrightarrow> session_step ev u = Some u' \<Longrightarrow> session_run u0 (evs @ [ev]) u'"

section \<open>The invariant\<close>

definition client_frames :: "session_event list \<Rightarrow> bytes set" where
  "client_frames evs = {f. \<exists>it now ok. FromClient it now f ok \<in> set evs}"

definition from_client :: "session_event list \<Rightarrow> int \<Rightarrow> bytes \<Rightarrow> bool" where
  "from_client evs m packet \<longleftrightarrow> int (length packet) \<le> m
     \<and> (\<exists>seq n ps. 0 < n \<and> packet = concat ps \<and> length ps = n \<and> (\<forall>j < n. mkFrame seq j n (ps ! j) \<in> client_frames evs))"

definition from_target :: "session_event list \<Rightarrow> int \<Rightarrow> UDPAddr \<Rightarrow> bytes \<Rightarrow> bool" where
  "from_target evs m target frame \<longleftrightarrow>
     (\<exists>src d failing seq i. FromTarget (UDPNetAddr src) d failing \<in> set evs
        \<and> uaddr_Port src = uaddr_Port target \<and> IP_Equal (uaddr_IP src) (uaddr_IP target)
        \<and> 0 < length d \<and> int (length d) \<le> m \<and> i < fragCount d \<and> frame = mkFrame seq i (fragCount d) (chunk d i))"

lemma from_mono:
  "from_client evs m p \<Longrightarrow> from_client (evs @ [ev]) m p" "from_target evs m t f \<Longrightarrow> from_target (evs @ [ev]) m t f"
proof -
  have "client_frames evs \<subseteq> client_frames (evs @ [ev])" by (auto simp: client_frames_def)
  then show "from_client evs m p \<Longrightarrow> from_client (evs @ [ev]) m p" unfolding from_client_def by blast
  have "set evs \<subseteq> set (evs @ [ev])" by auto
  then show "from_target evs m t f \<Longrightarrow> from_target (evs @ [ev]) m t f" unfolding from_target_def by blast
qed

definition session_inv :: "udp_session \<Rightarrow> session_event list \<Rightarrow> udp_session \<Rightarrow> bool" where
  "session_inv u0 evs u \<longleftrightarrow> us_target u = us_target u0 \<and> us_maxPacket u = us_maxPacket u0 \<and> us_idleTimeout u = us_idleTimeout u0
     \<and> ud_wf (us_fromClient u) \<and> from_frames (client_frames evs) (us_fromClient u)
     \<and> ud_maxPacket (us_fromClient u) = ud_maxPacket (us_fromClient u0)
     \<and> us_done u + (if us_reading u then 1 else 0) + (if us_writing u then 1 else 0) \<le> 2
     \<and> (\<forall>(p, a) \<in> set (us_sent u). a = us_target u0 \<and> from_client evs (ud_maxPacket (us_fromClient u0)) p)
     \<and> (\<forall>f \<in> set (us_frames u). from_target evs (us_maxPacket u0) (us_target u0) f)"

lemma client_frames_snoc:
  "client_frames (evs @ [ev]) = (case ev of FromClient it now f ok \<Rightarrow> insert f (client_frames evs) | _ \<Rightarrow> client_frames evs)"
  by (auto simp: client_frames_def split: session_event.split)

text \<open>Everything but the decoder and the record of sent packets.\<close>

lemma clientDatagram_inv:
  assumes inv: "session_inv u0 evs u" and run: "us_reading u"
    and it: "gm_order it (ud_pending (pruneExpiredLocked now (us_fromClient u)))"
  shows "session_inv u0 (evs @ [FromClient it now data ok]) (clientDatagram it now data ok u)"
proof -
  let ?evs = "evs @ [FromClient it now data ok]" and ?m = "ud_maxPacket (us_fromClient u0)"
  obtain d r where dec: "Decode it now data (us_fromClient u) = (d, r)" by fastforce
  have wf: "ud_wf (us_fromClient u)" "from_frames (client_frames evs) (us_fromClient u)" "ud_maxPacket (us_fromClient u) = ?m"
    using inv by (auto simp: session_inv_def)
  note spec = Decode_spec [OF wf(1,2) it dec]
  have frames: "client_frames ?evs = insert data (client_frames evs)" by (simp add: client_frames_snoc)
  have "from_client ?evs ?m packet" if r: "r = Inr (Some packet)" for packet
  proof -
    from spec r obtain seq i n b ps where "parseFrame data = Inr (seq, i, n, b)" "packet = concat ps" "length ps = n"
      "int (length packet) \<le> ud_maxPacket (us_fromClient u)" "\<forall>j < n. mkFrame seq j n (ps ! j) \<in> insert data (client_frames evs)"
      by blast
    moreover from this(1) have "0 < n" using parseFrame_Inr by blast
    ultimately show ?thesis unfolding from_client_def frames wf(3) by blast
  qed
  moreover have "\<forall>(p, a) \<in> set (us_sent u). a = us_target u0 \<and> from_client ?evs ?m p"
      "\<forall>f \<in> set (us_frames u). from_target ?evs (us_maxPacket u0) (us_target u0) f"
    using inv from_mono by (auto simp: session_inv_def)
  ultimately show ?thesis
    using inv run spec wf(3) dec
    by (auto simp: session_inv_def clientDatagram_def readerFails_def frames Let_def split: sum.splits option.splits)
qed

lemma targetDatagram_inv:
  assumes inv: "session_inv u0 evs u" and run: "us_writing u"
  shows "session_inv u0 (evs @ [FromTarget source d failing]) (targetDatagram source d failing u)"
proof -
  let ?evs = "evs @ [FromTarget source d failing]"
  have frames: "client_frames ?evs = client_frames evs" by (simp add: client_frames_snoc)
  have old: "\<forall>(p, a) \<in> set (us_sent u). a = us_target u0 \<and> from_client ?evs (ud_maxPacket (us_fromClient u0)) p"
      "\<forall>f \<in> set (us_frames u). from_target ?evs (us_maxPacket u0) (us_target u0) f"
    using inv from_mono by (auto simp: session_inv_def)
  then have same: "session_inv u0 ?evs u" using inv by (simp add: session_inv_def frames)
  let ?buf = "take (nat (us_maxPacket u + 1)) d"
  show ?thesis
  proof (cases "length ?buf = 0 \<or> us_maxPacket u < int (length ?buf) \<or> \<not> udpSourceMatchesTarget source (Some (us_target u))")
    case True
    then have "targetDatagram source d failing u = u"
      unfolding targetDatagram_def Let_def by (elim disjE) (simp_all only: simp_thms if_True if_cancel)
    with same show ?thesis by simp
  next
    case False
    then have pass: "\<not> (length ?buf = 0 \<or> us_maxPacket u < int (length ?buf))" "udpSourceMatchesTarget source (Some (us_target u))" by auto
    then have buf: "?buf = d" "0 < length d" "int (length d) \<le> us_maxPacket u" by auto
    from pass(2) obtain src where src: "source = UDPNetAddr src" "uaddr_Port src = uaddr_Port (us_target u)" "IP_Equal (uaddr_IP src) (uaddr_IP (us_target u))"
      by (auto simp: udpSourceMatchesTarget_def split: if_splits net_addr.splits)
    obtain e r where enc: "Encode d (us_toClient u) = (e, r)" by fastforce
    have new: "from_target ?evs (us_maxPacket u0) (us_target u0) f" if "r = Inr fs" "f \<in> set fs" for fs f
    proof -
      from enc that obtain i where "i < fragCount d" "f = mkFrame (ue_nextSeq (us_toClient u)) i (fragCount d) (chunk d i)"
        by (auto simp: Encode_Inr)
      moreover have "FromTarget (UDPNetAddr src) d failing \<in> set ?evs" using src(1) by simp
      moreover have "us_maxPacket u = us_maxPacket u0" "us_target u = us_target u0" using inv by (auto simp: session_inv_def)
      ultimately show ?thesis unfolding from_target_def using src(2,3) buf(2,3) by metis
    qed
    have step: "targetDatagram source d failing u = (case r of Inl _ \<Rightarrow> writerFails (u\<lparr>us_toClient := e\<rparr>)
        | Inr fs \<Rightarrow> sendFrames fs failing (u\<lparr>us_toClient := e\<rparr>))"
      using pass buf enc by (simp add: targetDatagram_def)
    show ?thesis
    proof (cases r)
      case (Inl err)
      with step same run show ?thesis by (auto simp: session_inv_def writerFails_def)
    next
      case (Inr fs)
      have "\<forall>f \<in> set (us_frames u) \<union> set fs. from_target ?evs (us_maxPacket u0) (us_target u0) f"
        using new [OF Inr] old(2) by blast
      with Inr step same run show ?thesis
        by (auto simp: session_inv_def writerFails_def sendFrames_def split: option.split dest: in_set_takeD)
    qed
  qed
qed

lemma session_inv_keep:
  assumes inv: "session_inv u0 evs u" and ev: "\<And>it now f ok. ev \<noteq> FromClient it now f ok"
    and same: "us_target u' = us_target u" "us_maxPacket u' = us_maxPacket u" "us_idleTimeout u' = us_idleTimeout u"
      "us_fromClient u' = us_fromClient u" "us_sent u' = us_sent u" "us_frames u' = us_frames u"
    and dones: "us_done u' + (if us_reading u' then 1 else 0) + (if us_writing u' then 1 else 0)
      \<le> us_done u + (if us_reading u then 1 else 0) + (if us_writing u then 1 else 0)"
  shows "session_inv u0 (evs @ [ev]) u'"
proof -
  have "client_frames (evs @ [ev]) = client_frames evs"
    using ev by (auto simp: client_frames_snoc split: session_event.split)
  moreover have "\<forall>(p, a) \<in> set (us_sent u). a = us_target u0 \<and> from_client (evs @ [ev]) (ud_maxPacket (us_fromClient u0)) p"
      "\<forall>f \<in> set (us_frames u). from_target (evs @ [ev]) (us_maxPacket u0) (us_target u0) f"
    using inv from_mono by (auto simp: session_inv_def)
  moreover have "us_done u' + (if us_reading u' then 1 else 0) + (if us_writing u' then 1 else 0) \<le> 2"
    using inv unfolding session_inv_def by (blast intro: order_trans [OF dones])
  ultimately show ?thesis
    using inv unfolding session_inv_def same by simp
qed

lemma session_run_inv:
  assumes "session_run (startSession s a now) evs u"
  shows "session_inv (startSession s a now) evs u"
  using assms
proof (induction rule: session_run.induct)
  case start
  show ?case using newUDPFragmentDecoder_wf by (simp add: session_inv_def startSession_def)
next
  case (step evs u ev u')
  show ?case
  proof (cases ev)
    case (FromClient it nw data ok)
    with step clientDatagram_inv show ?thesis by (auto split: if_splits)
  next
    case (FromTarget source d failing)
    with step targetDatagram_inv show ?thesis by (auto split: if_splits)
  next
    case ClientFailed
    with step show ?thesis by (intro session_inv_keep [OF step.IH]) (auto simp: readerFails_def split: if_splits)
  next
    case TargetFailed
    with step show ?thesis by (intro session_inv_keep [OF step.IH]) (auto simp: writerFails_def split: if_splits)
  next
    case (Selected nw c)
    then have "sessionSelect nw c u = Some u'" using step by (auto split: if_splits)
    with Selected show ?thesis
      by (intro session_inv_keep [OF step.IH]; cases c) (auto simp: sessionSelect_def closeUDPSessionStream_def split: if_splits)
  qed
qed

section \<open>Properties\<close>

text \<open>C34 (safety). Whatever arrives from both sides and in whatever order the loops run: what the
  session sends out goes to its target only and is a packet put together from frames the client
  sent, within the size limit; what it sends to the client are the fragments of a datagram within
  the limit that came from exactly the target's address and port; and its goroutines never wait
  for room in the channel they report their end on.\<close>

theorem udp_session_isolated:
  assumes "session_run (startSession s target now) evs u"
  shows "(\<forall>p a. (p, a) \<in> set (us_sent u) \<longrightarrow> a = target
        \<and> int (length p) \<le> (if sv_udpMaxPacket s \<le> 0 then defaultUDPMaxPacketSize else sv_udpMaxPacket s)
        \<and> (\<exists>seq ps. ps \<noteq> [] \<and> p = concat ps
             \<and> (\<forall>j < length ps. \<exists>it t ok. FromClient it t (mkFrame seq j (length ps) (ps ! j)) ok \<in> set evs)))
    \<and> (\<forall>f. f \<in> set (us_frames u) \<longrightarrow>
        (\<exists>src d failing seq i. FromTarget (UDPNetAddr src) d failing \<in> set evs \<and> f = mkFrame seq i (fragCount d) (chunk d i)
           \<and> uaddr_Port src = uaddr_Port target \<and> IP_Equal (uaddr_IP src) (uaddr_IP target)
           \<and> 0 < length d \<and> int (length d) \<le> sv_udpMaxPacket s))
    \<and> us_done u \<le> 2"
proof -
  let ?u0 = "startSession s target now"
  have inv: "session_inv ?u0 evs u" by (rule session_run_inv [OF assms])
  have u0: "us_target ?u0 = target" "us_maxPacket ?u0 = sv_udpMaxPacket s"
      "ud_maxPacket (us_fromClient ?u0) = (if sv_udpMaxPacket s \<le> 0 then defaultUDPMaxPacketSize else sv_udpMaxPacket s)"
    by (simp_all add: startSession_def newUDPFragmentDecoder_def)
  have sent: "a = target \<and> from_client evs (ud_maxPacket (us_fromClient ?u0)) p" if "(p, a) \<in> set (us_sent u)" for p a
    using inv that u0(1) by (auto simp: session_inv_def)
  have frames: "from_target evs (sv_udpMaxPacket s) target f" if "f \<in> set (us_frames u)" for f
    using inv that u0 by (auto simp: session_inv_def)
  have "us_done u \<le> 2" using inv by (simp add: session_inv_def split: if_splits)
  moreover have "\<exists>seq ps. ps \<noteq> [] \<and> p = concat ps
        \<and> (\<forall>j < length ps. \<exists>it t ok. FromClient it t (mkFrame seq j (length ps) (ps ! j)) ok \<in> set evs)"
    if pkt: "from_client evs m p" for m p
  proof -
    from pkt obtain seq n ps where ps: "0 < n" "p = concat ps" "length ps = n" "\<forall>j < n. mkFrame seq j n (ps ! j) \<in> client_frames evs"
      unfolding from_client_def by blast
    then have "ps \<noteq> []" by auto
    with ps show ?thesis unfolding client_frames_def by blast
  qed
  moreover have "int (length p) \<le> m" if "from_client evs m p" for m p
    using that by (simp add: from_client_def)
  ultimately show ?thesis
    using sent frames unfolding u0(3) from_target_def by (intro conjI allI impI) (blast+)
qed

text \<open>The writer gives up on a datagram that is within the limit but does not fit into 64 fragments.\<close>

lemma oversized_reply:
  assumes "64000 < length d" and "int (length d) \<le> sv_udpMaxPacket s" and "uaddr_Port target \<noteq> 0" and "uaddr_IP target \<noteq> []"
    and "session_run (startSession s target now) evs u" and "us_writing u" and "us_open u"
  shows "\<exists>u'. session_step (FromTarget (UDPNetAddr target) d failing) u = Some u' \<and> us_frames u' = us_frames u \<and> \<not> us_writing u'
    \<and> (\<exists>u''. session_step (Selected t DoneCase) u' = Some u'' \<and> \<not> us_open u'')"
proof -
  have inv: "session_inv (startSession s target now) evs u" by (rule session_run_inv [OF assms(5)])
  then have u: "us_target u = target" "us_maxPacket u = sv_udpMaxPacket s" by (auto simp: session_inv_def startSession_def)
  have buf: "take (nat (us_maxPacket u + 1)) d = d" using assms(2) u by simp
  have "udpSourceMatchesTarget (UDPNetAddr target) (Some (us_target u))"
    using assms(3,4) u by (simp add: udpSourceMatchesTarget_def IP_Equal_def)
  moreover obtain e err where "Encode d (us_toClient u) = (e, Inl err)"
  proof (cases "Encode d (us_toClient u)")
    case (Pair e r)
    have "\<not> fragCount d \<le> 64" using assms(1) fragCount_less [of 64 d] by simp
    with Pair that show thesis by (cases r) (auto simp: Encode_Inr)
  qed
  moreover have "length d \<noteq> 0" "\<not> us_maxPacket u < int (length d)" using assms(1,2) u by auto
  ultimately have "targetDatagram (UDPNetAddr target) d failing u = writerFails (u\<lparr>us_toClient := e\<rparr>)"
    unfolding targetDatagram_def buf by simp
  with assms(6,7) show ?thesis by (auto simp: writerFails_def sessionSelect_def closeUDPSessionStream_def)
qed

text \<open>C35 (error). A packet size limit above 64000 bytes, the most that 64 fragments carry, is accepted by
  the configuration but not honoured. Take any configuration with UDP on from which a server starts: with the
  limit put to such a value the same server starts with that limit, and in each of its sessions, at any
  moment, the first reply of the target between 64001 bytes and the limit ends the session, without
  a byte of it being sent to the client.\<close>

theorem oversized_reply_ends_session:
  assumes "ListenServerWithConfig le cfg = Inr (s0, info)" and "sc_EnableUDPRelay cfg"
    and "64000 < length d" and "int (length d) \<le> limit" and "uaddr_Port target \<noteq> 0" and "uaddr_IP target \<noteq> []"
  shows "\<exists>s. ListenServerWithConfig le (cfg\<lparr>sc_UDPMaxPacketSize := limit\<rparr>) = Inr (s, info) \<and> sv_udpMaxPacket s = limit
    \<and> (\<forall>now evs u. session_run (startSession s target now) evs u \<and> us_writing u \<and> us_open u \<longrightarrow>
         (\<exists>u'. session_step (FromTarget (UDPNetAddr target) d failing) u = Some u' \<and> us_frames u' = us_frames u \<and> \<not> us_writing u'
           \<and> (\<exists>u''. session_step (Selected t DoneCase) u' = Some u'' \<and> \<not> us_open u'')))"
proof -
  let ?s = "s0\<lparr>sv_udpMaxPacket := limit\<rparr>"
  have "0 < limit" using assms(3,4) by linarith
  note accepted = Listen_packet_limit [OF assms(1,2) this]
  have "int (length d) \<le> sv_udpMaxPacket ?s" using assms(4) by simp
  note ends = oversized_reply [OF assms(3) this assms(5,6)]
  have "sv_udpMaxPacket ?s = limit" by simp
  with accepted ends show ?thesis by blast
qed

section \<open>Witnesses\<close>

definition ex_udp_addr :: UDPAddr where "ex_udp_addr = \<lparr>uaddr_IP = [93, 184, 215, 14], uaddr_Port = 53\<rparr>"

definition ex_udp_server :: Server where
  "ex_udp_server = ex_server\<lparr>sv_udpMaxPacket := 65535, sv_udpIdleTimeout := minute\<rparr>"

text \<open>A reply of one byte goes through.\<close>

theorem udp_session_isolated_witness:
  "\<exists>u. session_run (startSession ex_udp_server ex_udp_addr 0) [FromTarget (UDPNetAddr ex_udp_addr) [7] None] u
     \<and> us_frames u = [mkFrame 0 0 1 [7]] \<and> us_done u \<le> 2"
proof -
  let ?u0 = "startSession ex_udp_server ex_udp_addr 0"
  have "Encode [7] (us_toClient ?u0) = (newUDPFragmentEncoder 65535\<lparr>ue_nextSeq := 1\<rparr>, Inr [mkFrame 0 0 1 [7]])"
    by (simp add: startSession_def ex_udp_server_def Encode_Inr newUDPFragmentEncoder_def fragCount_def chunk_def)
  then have "\<exists>u. session_step (FromTarget (UDPNetAddr ex_udp_addr) [7] None) ?u0 = Some u \<and> us_frames u = [mkFrame 0 0 1 [7]]"
    by (auto simp: targetDatagram_def startSession_def ex_udp_server_def udpSourceMatchesTarget_def ex_udp_addr_def IP_Equal_def sendFrames_def)
  then obtain u where u: "session_step (FromTarget (UDPNetAddr ex_udp_addr) [7] None) ?u0 = Some u" "us_frames u = [mkFrame 0 0 1 [7]]" by blast
  from session_run.step [OF session_run.start u(1)]
  have run: "session_run ?u0 [FromTarget (UDPNetAddr ex_udp_addr) [7] None] u" by simp
  have "us_done u \<le> 2" using udp_session_isolated [OF run] by blast
  with run u(2) show ?thesis by blast
qed

text \<open>The server of the examples, with UDP on and the packet limit of the defaults.\<close>

definition ex_udp_config :: ServerConfig where
  "ex_udp_config = ex_server_config\<lparr>sc_EnableUDPRelay := True, sc_UDPMaxPacketSize := 16384, sc_UDPMaxSessions := 64,
     sc_UDPIdleTimeout := minute, sc_QUICConfig := Some (defaultServerQUIC\<lparr>qc_EnableDatagrams := True\<rparr>)\<rparr>"

lemma ex_udp_listen: "\<exists>s info. ListenServerWithConfig ex_listen_env ex_udp_config = Inr (s, info)"
proof -
  have trim: "ToLower ex_unicode ''s'' = ''s''" "TrimSpace ''l'' = ''l''" "TrimSpace ''s'' = ''s''" "TrimSpace ''a'' = ''a''"
    by (simp_all add: plain_one plain_char_def ToLower_def isASCII_def ascii_lower_def)
  then have norm: "normalizeServerConfig ex_unicode sys [] ex_udp_config = Inr ex_udp_config" for sys
    by (simp add: normalizeServerConfig_def ex_udp_config_def ex_server_config_def withCertificatePath_def withDurations_def withUDP_def
        withNetwork_def normalizeNetworkHooks_def ex_hooks_def normalizeQUIC_def)
  have "loadServerCertificate ex_cert_env ex_udp_config 0 [] = loadServerCertificate ex_cert_env ex_server_config 0 []"
    by (simp add: loadServerCertificate_def ex_udp_config_def split: option.split cong: if_cong)
  then have cert: "snd (loadServerCertificate ex_cert_env ex_udp_config 0 []) = Inr (\<lparr>tc_Certificate = [bytes_of_string ''s''], tc_PrivateKey = []\<rparr>, ex_fingerprint)"
    using ex_certificate by simp
  have "NewDecoy (\<lambda>_. None) ''a'' \<lparr>do_Fetch = Some (\<lambda>_. Inl FetchFailed), do_HTTPClient = None\<rparr> = Inr ex_decoy"
    by (simp add: NewDecoy_def ex_decoy_def trim)
  moreover have "NewAuthenticator (sc_AuthKeys ex_udp_config) (sc_AuthenticationSkew ex_udp_config) (sc_ReplayCapacity ex_udp_config) = Inr ex_auth"
    using ex_new by (simp add: ex_udp_config_def ex_server_config_def)
  moreover have "withDecoyClient t ex_udp_config = \<lparr>do_Fetch = Some (\<lambda>_. Inl FetchFailed), do_HTTPClient = None\<rparr>" for t
    by (simp add: withDecoyClient_def ex_udp_config_def ex_server_config_def)
  moreover have "sc_DecoyTarget ex_udp_config = ''a''" by (simp add: ex_udp_config_def ex_server_config_def)
  ultimately show ?thesis
    by (simp add: ListenServerWithConfig_def ex_listen_env_def norm cert)
qed

theorem oversized_reply_ends_session_witness:
  "\<exists>s info u' u''. ListenServerWithConfig ex_listen_env (ex_udp_config\<lparr>sc_UDPMaxPacketSize := 65507\<rparr>) = Inr (s, info)
     \<and> session_step (FromTarget (UDPNetAddr ex_udp_addr) (replicate 65000 0) None) (startSession s ex_udp_addr 0) = Some u'
     \<and> us_frames u' = [] \<and> session_step (Selected 1 DoneCase) u' = Some u'' \<and> \<not> us_open u''"
proof -
  from ex_udp_listen obtain s0 info where s0: "ListenServerWithConfig ex_listen_env ex_udp_config = Inr (s0, info)" by blast
  have hyps: "sc_EnableUDPRelay ex_udp_config" "64000 < length (replicate 65000 (0 :: byte))" "int (length (replicate 65000 (0 :: byte))) \<le> 65507"
      "uaddr_Port ex_udp_addr \<noteq> 0" "uaddr_IP ex_udp_addr \<noteq> []"
    by (simp_all add: ex_udp_config_def ex_udp_addr_def)
  obtain s where s: "ListenServerWithConfig ex_listen_env (ex_udp_config\<lparr>sc_UDPMaxPacketSize := 65507\<rparr>) = Inr (s, info)"
    and ends: "\<forall>now evs u. session_run (startSession s ex_udp_addr now) evs u \<and> us_writing u \<and> us_open u \<longrightarrow>
       (\<exists>u'. session_step (FromTarget (UDPNetAddr ex_udp_addr) (replicate 65000 0) None) u = Some u' \<and> us_frames u' = us_frames u \<and> \<not> us_writing u'
         \<and> (\<exists>u''. session_step (Selected 1 DoneCase) u' = Some u'' \<and> \<not> us_open u''))"
    using oversized_reply_ends_session [OF s0 hyps, of None 1] by auto
  have "us_writing (startSession s ex_udp_addr 0)" "us_open (startSession s ex_udp_addr 0)" "us_frames (startSession s ex_udp_addr 0) = []"
    by (simp_all add: startSession_def)
  with s ends session_run.start [of "startSession s ex_udp_addr 0"] show ?thesis by metis
qed

end
