(* ===== verification/Client.thy ===== *)
theory Client
  imports Udp_Session
begin

text \<open>
  The HTTP/3 client (\<open>internal/quicx/client.go\<close>): connecting with a pinned certificate, and
  opening TCP and UDP relays through the server.

  quic-go is an argument: \<open>dial_env\<close> says which certificate chain the peer of a new connection
  presents, \<open>stream_env\<close> what happens to one request stream. \<open>crypto/tls\<close> calls
  \<open>VerifyPeerCertificate\<close> and drops the connection when it fails; the property that relies on it
  says so. The one place where a connection is given up without a \<open>Client\<close>, \<open>CloseWithError\<close> after a failing
  \<open>NewAuthenticator\<close>, is never reached (\<open>no_auth_error\<close>). The headers that a request is sent with are those of \<open>Go_Http\<close>.
\<close>

section \<open>Types\<close>

datatype client_error =
    ClientConfigError config_error | InvalidFingerprint | DialFailed | ClientAuthError auth_error
  | InvalidTarget | EmptyDomain | EmptyIP | UnsupportedType
  | DatagramsDisabled | OpenStreamFailed | SendHeaderFailed | ReadResponseFailed | Rejected int

datatype tls_error = NoServerCertificate | FingerprintMismatch

record tls_Config =
  tl_InsecureSkipVerify :: bool
  tl_ServerName :: string
  tl_MinVersion :: nat
  tl_NextProtos :: "string list"
  tl_VerifyPeerCertificate :: "bytes list \<Rightarrow> tls_error option"

record Client =
  cl_Conn :: "close_error option option"
  cl_h3 :: "close_error option option"
  cl_transport :: "close_error option option"
  cl_auth :: Authenticator
  cl_serverName :: string
  cl_enableDatagrams :: bool
  cl_udpMaxPacket :: int
  cl_closed :: bool
  cl_closeErr :: "close_error option"

text \<open>The outcome of \<open>quic.DialAddr\<close>: the certificates of the peer, if the connection came about.\<close>

record dial_env =
  de_unicode :: unicode_tables
  de_DialAddr :: "string \<Rightarrow> tls_Config \<Rightarrow> quic_Config option \<Rightarrow> bytes list option"
  de_closeConn :: "close_error option"
  de_closeH3 :: "close_error option"
  de_closeTransport :: "close_error option"

text \<open>One request stream: the random nonce, the clock, and how far the exchange comes; the response
  is its status.\<close>

record stream_env =
  se_unicode :: unicode_tables
  se_nonce :: "bytes option"
  se_now :: instant
  se_open :: bool
  se_send :: bool
  se_response :: "http_request \<Rightarrow> int option"

section \<open>Connecting\<close>

definition VersionTLS13 :: nat where "VersionTLS13 = 0x0304"

definition pinnedClientTLSConfig :: "string \<Rightarrow> string \<Rightarrow> tls_Config option" where
  "pinnedClientTLSConfig serverName fingerprint =
     (case hex_DecodeString (TrimSpace fingerprint) of
        None \<Rightarrow> None
      | Some fp \<Rightarrow>
          if length fp \<noteq> 32 then None
          else Some \<lparr>tl_InsecureSkipVerify = True, tl_ServerName = serverName, tl_MinVersion = VersionTLS13,
                     tl_NextProtos = [''h3''],
                     tl_VerifyPeerCertificate = (\<lambda>rawCerts.
                       case rawCerts of
                         [] \<Rightarrow> Some NoServerCertificate
                       | leaf # _ \<Rightarrow> if sha256 leaf \<noteq> fp then Some FingerprintMismatch else None)\<rparr>)"

definition DialClientWithConfig :: "dial_env \<Rightarrow> ClientConfig \<Rightarrow> client_error + Client" where
  "DialClientWithConfig de cfg0 =
     (case normalizeClientConfig (de_unicode de) cfg0 of
        Inl e \<Rightarrow> Inl (ClientConfigError e)
      | Inr cfg \<Rightarrow>
          (case pinnedClientTLSConfig (cc_ServerName cfg) (cc_CertFingerprint cfg) of
             None \<Rightarrow> Inl InvalidFingerprint
           | Some tlsConfig \<Rightarrow>
               (case de_DialAddr de (cc_ServerAddr cfg) tlsConfig (cc_QUICConfig cfg) of
                  None \<Rightarrow> Inl DialFailed
                | Some _ \<Rightarrow>
                    (case NewAuthenticator [cc_AuthKey cfg] minute 1 of
                       Inl e \<Rightarrow> Inl (ClientAuthError e)
                     | Inr auth \<Rightarrow>
                         Inr \<lparr>cl_Conn = Some (de_closeConn de), cl_h3 = Some (de_closeH3 de), cl_transport = Some (de_closeTransport de),
                              cl_auth = auth, cl_serverName = cc_ServerName cfg, cl_enableDatagrams = cc_EnableDatagrams cfg,
                              cl_udpMaxPacket = cc_UDPMaxPacketSize cfg, cl_closed = False, cl_closeErr = None\<rparr>))))"

text \<open>The configuration has checked the length of the key before.\<close>

lemma no_auth_error: "DialClientWithConfig de cfg \<noteq> Inl (ClientAuthError e)"
  by (auto simp: DialClientWithConfig_def normalizeClientConfig_def NewAuthenticator_def Let_def split: if_splits sum.splits option.splits)

definition Client_Close :: "Client option \<Rightarrow> Client option \<times> close_error option" where
  "Client_Close cp =
     (case cp of
        None \<Rightarrow> (None, None)
      | Some c \<Rightarrow>
          if cl_closed c then (Some c, cl_closeErr c)
          else
            let err1 = (case cl_h3 c of None \<Rightarrow> cl_closeErr c | Some err \<Rightarrow> err);
                err2 = (case cl_transport c of None \<Rightarrow> err1 | Some err \<Rightarrow> if err \<noteq> None \<and> err1 = None then err else err1);
                err3 = (case cl_Conn c of None \<Rightarrow> err2 | Some err \<Rightarrow> if err \<noteq> None \<and> err2 = None then err else err2)
            in (Some (c\<lparr>cl_closed := True, cl_closeErr := err3\<rparr>), err3))"

section \<open>Requests\<close>

definition authorityFromAddress :: "Address option \<Rightarrow> client_error + string" where
  "authorityFromAddress ap =
     (case ap of
        None \<Rightarrow> Inl InvalidTarget
      | Some addr \<Rightarrow>
          if ad_Port addr = 0 then Inl InvalidTarget
          else
            let port = Itoa (unat (ad_Port addr)) in
            if ad_Type addr = AtypDomain then
              (if ad_Domain addr = [] then Inl EmptyDomain else Inr (JoinHostPort (ad_Domain addr) port))
            else if ad_Type addr = AtypIPv4 \<or> ad_Type addr = AtypIPv6 then
              (if ad_IP addr = [] then Inl EmptyIP else Inr (JoinHostPort (IP_String (ad_IP addr)) port))
            else Inl UnsupportedType)"

definition userAgent :: string where
  "userAgent = ''Mozilla/5.0 (Windows NT 10.0; Win64; x64) AppleWebKit/537.36 (KHTML, like Gecko) Chrome/124.0.0.0 Safari/537.36''"

definition connectRequest :: "string \<Rightarrow> Header \<Rightarrow> http_request" where
  "connectRequest authority header =
     \<lparr>rq_Method = MethodConnect, rq_Host = authority, rq_RemoteAddr = [], rq_Header = header\<rparr>"

definition tcpHeader :: "string \<Rightarrow> Header" where
  "tcpHeader authorization = Header_Set ''User-Agent'' userAgent (Header_Set ''Authorization'' authorization [])"

definition udpHeader :: "string \<Rightarrow> Header" where
  "udpHeader authorization =
     Header_Set ''User-Agent'' userAgent
       (Header_Set ''Capsule-Protocol'' ''?1''
         (Header_Set udpHeaderName ''connect-udp'' (Header_Set ''Authorization'' authorization [])))"

text \<open>What was done to a request stream, and to the body of its response.\<close>

record request_stream =
  rst_CancelRead :: bool
  rst_CancelWrite :: bool
  rst_BodyClosed :: bool
  rst_Closed :: bool

definition openStream :: request_stream where
  "openStream = \<lparr>rst_CancelRead = False, rst_CancelWrite = False, rst_BodyClosed = False, rst_Closed = False\<rparr>"

definition cancelStream :: "request_stream \<Rightarrow> request_stream" where
  "cancelStream st = st\<lparr>rst_CancelRead := True, rst_CancelWrite := True\<rparr>"

text \<open>The exchange on the stream, once the request is made; \<open>abandon\<close> is what is done to the stream
  when the answer is a refusal.\<close>

definition exchange :: "(request_stream \<Rightarrow> request_stream) \<Rightarrow> stream_env \<Rightarrow> http_request \<Rightarrow> request_stream \<times> client_error option" where
  "exchange abandon se request =
     (if \<not> se_send se then (cancelStream openStream, Some SendHeaderFailed)
      else case se_response se request of
          None \<Rightarrow> (cancelStream openStream, Some ReadResponseFailed)
        | Some status \<Rightarrow>
            if status < 200 \<or> 300 \<le> status then (abandon (openStream\<lparr>rst_BodyClosed := True\<rparr>), Some (Rejected status))
            else (openStream, None))"

text \<open>The connection that is returned, with the request it was opened with.\<close>

record h3StreamConn =
  hc_RequestStream :: request_stream
  hc_request :: http_request
  hc_once :: bool
  hc_err :: "close_error option"

text \<open>The stream that was opened, if one was, comes back beside the result.\<close>

definition DialTCP :: "stream_env \<Rightarrow> Client \<Rightarrow> Address option \<Rightarrow> request_stream option \<times> (client_error + h3StreamConn)" where
  "DialTCP se c addr =
     (case authorityFromAddress addr of
        Inl e \<Rightarrow> (None, Inl e)
      | Inr authority \<Rightarrow>
          (case Sign (se_unicode se) (cl_auth c) (se_nonce se) MethodConnect authority (cl_serverName c) (se_now se) of
             Inl e \<Rightarrow> (None, Inl (ClientAuthError e))
           | Inr authorization \<Rightarrow>
               if \<not> se_open se then (None, Inl OpenStreamFailed)
               else
                 let request = connectRequest authority (tcpHeader authorization) in
                 case exchange (\<lambda>st. st\<lparr>rst_CancelWrite := True\<rparr>) se request of
                   (st, Some e) \<Rightarrow> (Some st, Inl e)
                 | (st, None) \<Rightarrow>
                     (Some st, Inr \<lparr>hc_RequestStream = st, hc_request = request, hc_once = False, hc_err = None\<rparr>)))"

definition h3StreamConn_Close :: "close_error option \<Rightarrow> h3StreamConn \<Rightarrow> h3StreamConn \<times> close_error option" where
  "h3StreamConn_Close streamClose c =
     (if hc_once c then (c, hc_err c)
      else (c\<lparr>hc_RequestStream := (hc_RequestStream c)\<lparr>rst_CancelRead := True, rst_Closed := True\<rparr>,
              hc_once := True, hc_err := streamClose\<rparr>, streamClose))"

text \<open>\<open>DialUDP\<close> up to the point where it wraps the stream into a \<open>UDPConn\<close> (\<open>Udp_Client\<close>): the
  request and the authority.\<close>

definition openUDP ::
  "stream_env \<Rightarrow> Client option \<Rightarrow> Address option \<Rightarrow> request_stream option \<times> (client_error + http_request \<times> string)" where
  "openUDP se cp addr =
     (case cp of
        None \<Rightarrow> (None, Inl DatagramsDisabled)
      | Some c \<Rightarrow>
          if cl_h3 c = None \<or> \<not> cl_enableDatagrams c then (None, Inl DatagramsDisabled)
          else case authorityFromAddress addr of
              Inl e \<Rightarrow> (None, Inl e)
            | Inr authority \<Rightarrow>
                (case Sign (se_unicode se) (cl_auth c) (se_nonce se) MethodConnect authority (cl_serverName c) (se_now se) of
                   Inl e \<Rightarrow> (None, Inl (ClientAuthError e))
                 | Inr authorization \<Rightarrow>
                     if \<not> se_open se then (None, Inl OpenStreamFailed)
                     else
                       let request = connectRequest authority (udpHeader authorization) in
                       case exchange cancelStream se request of
                         (st, Some e) \<Rightarrow> (Some st, Inl e)
                       | (st, None) \<Rightarrow> (Some st, Inr (request, authority))))"

section \<open>Pinning\<close>

text \<open>C36 (safety). Certificate pinning: whatever name or authority a peer's certificate has, with a
  TLS library that drops a connection when \<open>VerifyPeerCertificate\<close> fails, a client only comes about
  when the first certificate the peer sent has the configured SHA-256 fingerprint; the connection
  uses TLS 1.3 and the HTTP/3 protocol name; and a server's certificate is accepted by the clients
  that are configured with the fingerprint the server reports.\<close>

theorem client_pins_certificate:
  assumes "\<forall>addr tls q chain. de_DialAddr de addr tls q = Some chain \<longrightarrow> tl_VerifyPeerCertificate tls chain = None"
    and "DialClientWithConfig de cfg = Inr c"
  shows "\<exists>tls q leaf rest fp. de_DialAddr de (TrimSpace (cc_ServerAddr cfg)) tls q = Some (leaf # rest)
    \<and> hex_DecodeString (TrimSpace (cc_CertFingerprint cfg)) = Some fp \<and> length fp = 32 \<and> sha256 leaf = fp
    \<and> tl_MinVersion tls = 0x0304 \<and> tl_NextProtos tls = [''h3'']
    \<and> (\<forall>cert. tc_Certificate cert \<noteq> [] \<and> TrimSpace (cc_CertFingerprint cfg) = certificateFingerprint cert
         \<longrightarrow> tl_VerifyPeerCertificate tls (tc_Certificate cert) = None)"
proof -
  from assms(2) obtain cfg' tls chain where norm: "normalizeClientConfig (de_unicode de) cfg = Inr cfg'"
    and tls: "pinnedClientTLSConfig (cc_ServerName cfg') (cc_CertFingerprint cfg') = Some tls"
    and dial: "de_DialAddr de (cc_ServerAddr cfg') tls (cc_QUICConfig cfg') = Some chain"
    by (auto simp: DialClientWithConfig_def split: sum.splits option.splits)
  have same: "cc_CertFingerprint cfg' = cc_CertFingerprint cfg" "cc_ServerAddr cfg' = TrimSpace (cc_ServerAddr cfg)"
    using norm by (auto simp: normalizeClientConfig_def Let_def split: if_splits)
  from tls obtain fp where fp: "hex_DecodeString (TrimSpace (cc_CertFingerprint cfg)) = Some fp" "length fp = 32"
    and cfg: "tl_MinVersion tls = VersionTLS13" "tl_NextProtos tls = [''h3'']"
    and verify: "tl_VerifyPeerCertificate tls = (\<lambda>rawCerts. case rawCerts of [] \<Rightarrow> Some NoServerCertificate
        | leaf # _ \<Rightarrow> if sha256 leaf \<noteq> fp then Some FingerprintMismatch else None)"
    by (auto simp: pinnedClientTLSConfig_def same split: option.splits if_splits)
  have "tl_VerifyPeerCertificate tls chain = None" using assms(1) dial by blast
  then obtain leaf rest where chain: "chain = leaf # rest" "sha256 leaf = fp"
    by (auto simp: verify split: list.splits if_splits)
  have "tl_VerifyPeerCertificate tls (tc_Certificate cert) = None"
    if "tc_Certificate cert \<noteq> []" "TrimSpace (cc_CertFingerprint cfg) = certificateFingerprint cert" for cert
    using that fp(1) by (cases "tc_Certificate cert") (auto simp: verify certificateFingerprint_def)
  with dial fp chain cfg show ?thesis unfolding VersionTLS13_def same by blast
qed

definition ex_fp :: string where
  "ex_fp = hex_EncodeToString (sha256 [1])"

definition ex_client_config :: ClientConfig where
  "ex_client_config = \<lparr>cc_ServerAddr = ''l'', cc_ServerName = ''s'', cc_AuthKey = ex_key, cc_CertFingerprint = ex_fp,
     cc_EnableDatagrams = False, cc_UDPMaxPacketSize = 0, cc_QUICConfig = None\<rparr>"

definition ex_dial_env :: dial_env where
  "ex_dial_env = \<lparr>de_unicode = ex_unicode, de_DialAddr = (\<lambda>_ tls _. if tl_VerifyPeerCertificate tls [[1]] = None then Some [[1]] else None),
     de_closeConn = None, de_closeH3 = None, de_closeTransport = None\<rparr>"

lemma ex_fp_trim: "TrimSpace ex_fp = ex_fp" "ex_fp \<noteq> []"
proof -
  have "plain_char (hex_digit n)" if "n < 16" for n
    using that by (auto simp: plain_char_def hex_digit_def)
  moreover have "unat (b :: byte) div 16 < 16" for b using unat_byte_less [of b] by (simp add: less_mult_imp_div_less)
  ultimately have "plain (hex_EncodeToString bs)" for bs
    by (auto simp: plain_def hex_EncodeToString_def list_all_iff)
  then show "TrimSpace ex_fp = ex_fp" unfolding ex_fp_def by (rule TrimSpace_plain)
  have "hex_DecodeString ex_fp = Some (sha256 [1])" by (simp add: ex_fp_def)
  then show "ex_fp \<noteq> []" using length_sha256 [of "[1]"] hex_Decode_length [of ex_fp "sha256 [1]"] by auto
qed

lemma ex_dial: "\<exists>c. DialClientWithConfig ex_dial_env ex_client_config = Inr c"
proof -
  have "TrimSpace ''l'' = ''l''" "TrimSpace ''s'' = ''s''" "ToLower ex_unicode ''s'' = ''s''"
    by (simp_all add: plain_one plain_char_def ToLower_def isASCII_def ascii_lower_def)
  then obtain cfg where norm: "normalizeClientConfig ex_unicode ex_client_config = Inr cfg" "cc_CertFingerprint cfg = ex_fp" "cc_AuthKey cfg = ex_key"
    by (simp add: normalizeClientConfig_def ex_client_config_def ex_fp_trim ex_key_def Let_def)
  obtain tls where tls: "pinnedClientTLSConfig (cc_ServerName cfg) ex_fp = Some tls" "tl_VerifyPeerCertificate tls [[1]] = None"
    by (simp add: pinnedClientTLSConfig_def ex_fp_trim) (simp add: ex_fp_def)
  show ?thesis using norm tls ex_new by (simp add: DialClientWithConfig_def ex_dial_env_def)
qed

theorem client_pins_certificate_witness:
  "\<exists>c tls q leaf rest. DialClientWithConfig ex_dial_env ex_client_config = Inr c
     \<and> de_DialAddr ex_dial_env ''l'' tls q = Some (leaf # rest) \<and> sha256 leaf = sha256 [1]"
proof -
  have trim: "TrimSpace ''l'' = ''l''" by (simp add: plain_one plain_char_def)
  have dec: "hex_DecodeString ex_fp = Some (sha256 [1])" by (simp add: ex_fp_def)
  obtain c where c: "DialClientWithConfig ex_dial_env ex_client_config = Inr c" using ex_dial by blast
  have "\<forall>addr tls q chain. de_DialAddr ex_dial_env addr tls q = Some chain \<longrightarrow> tl_VerifyPeerCertificate tls chain = None"
    by (simp add: ex_dial_env_def split: if_splits)
  from client_pins_certificate [OF this c] dec trim obtain tls q leaf rest where
    "de_DialAddr ex_dial_env ''l'' tls q = Some (leaf # rest)" "sha256 leaf = sha256 [1]"
    by (auto simp: ex_client_config_def ex_fp_trim)
  with c show ?thesis by blast
qed

section \<open>The authority of an address\<close>

lemma length_Itoa: "0 < k \<Longrightarrow> n < 10 ^ k \<Longrightarrow> length (Itoa n) \<le> k"
proof (induction k arbitrary: n)
  case (Suc k)
  show ?case
  proof (cases "n < 10")
    case False
    with Suc.prems have "n div 10 < 10 ^ k" "0 < k"
      by (auto simp: less_mult_imp_div_less mult.commute intro: gr0I)
    with Suc.IH [of "n div 10"] False show ?thesis by (simp add: Itoa.simps [of n])
  qed (simp add: Itoa.simps [of n])
qed simp

lemma length_joinGroups: "length (joinGroups ip is) \<le> 5 * length is"
proof -
  have "length (concat (map (\<lambda>i. (if i = k then '''' else '':'') @ appendHex (v6u16 ip i)) js)) \<le> 5 * length js" for js k
  proof (induction js)
    case (Cons j js)
    have "length (appendHex (v6u16 ip j)) \<le> 4" using length_appendHex [OF _ v6u16_less] by simp
    with Cons show ?case by auto
  qed simp
  then show ?thesis by (simp add: joinGroups_def)
qed

lemma length_IP_String: "length ip = 4 \<or> length ip = 16 \<Longrightarrow> length (IP_String ip) \<le> 100"
proof -
  assume len: "length ip = 4 \<or> length ip = 16"
  have oct: "length (Itoa (unat b)) \<le> 3" for b :: byte
    using length_Itoa [of 3 "unat b"] unat_byte_less [of b] by simp
  have "length (String4 (To4 ip)) \<le> 15"
    using oct [of "To4 ip ! 0"] oct [of "To4 ip ! 1"] oct [of "To4 ip ! 2"] oct [of "To4 ip ! 3"] by (simp add: String4_def)
  moreover have "length (String6 ip) \<le> 100"
  proof -
    obtain start n where z: "longestZeros ip [0..<8] (255, 0) = (start, n)" by fastforce
    have "n = 0 \<or> 2 \<le> n \<and> start + n \<le> 8 \<and> (\<forall>i. start \<le> i \<and> i < start + n \<longrightarrow> v6u16 ip i = 0)"
      by (rule longestZeros_zero [OF z]) auto
    then show ?thesis
      using length_joinGroups [of ip "[0..<8]"] length_joinGroups [of ip "[0..<start]"] length_joinGroups [of ip "[start + n..<8]"]
      by (auto simp: String6_def z)
  qed
  ultimately show ?thesis using len by (auto simp: IP_String_def)
qed

lemma plain_IP_String: "length ip = 4 \<or> length ip = 16 \<Longrightarrow> plain (IP_String ip)"
  by (auto simp: IP_String_def plain_def plain_char_def list_all_iff dest: String4_chars String6_chars)

lemma IP_String_To16: "length ip = 4 \<or> length ip = 16 \<Longrightarrow> IP_String (To16 ip) = IP_String ip"
  by (auto simp: IP_String_def To16_def To4_def v4InV6Prefix_def)

lemma authority_plain:
  assumes "length ip = 4 \<or> length ip = 16"
  shows "plain (JoinHostPort (IP_String ip) (Itoa port))" "JoinHostPort (IP_String ip) (Itoa port) \<noteq> []"
proof -
  have "plain (Itoa port)" by (auto simp: plain_def plain_char_def list_all_iff dest: Itoa_chars)
  with plain_IP_String [OF assms] show "plain (JoinHostPort (IP_String ip) (Itoa port))"
    by (auto simp: JoinHostPort_def plain_char_def)
  show "JoinHostPort (IP_String ip) (Itoa port) \<noteq> []" by (auto simp: JoinHostPort_def)
qed

text \<open>The authority of an IP address is accepted by the guard as that address.\<close>

lemma resolve_own_authority:
  assumes len: "length ip = 4 \<or> length ip = 16" and ok: "\<not> IsForbiddenIP ip" and port: "0 < port" "port < 2 ^ 16"
  shows "ResolveAndValidateAuthority lookup (JoinHostPort (IP_String ip) (Itoa port)) = Inr (JoinHostPort (IP_String ip) (Itoa port))"
proof -
  let ?a = "JoinHostPort (IP_String ip) (Itoa port)"
  have split: "SplitHostPort ?a = Inr (IP_String ip, Itoa port)"
    by (intro SplitHostPort_JoinHostPort host_chars_ok_IP_String host_chars_ok_Itoa len)
  have ip: "ParseIP (IP_String ip) = To16 ip" by (rule ParseIP_IP_String [OF len])
  have "IP_String ip \<noteq> []"
    using ip len by (cases "IP_String ip") (auto simp: ParseIP_def To16_def)
  moreover have "To16 ip \<noteq> []" using len by (auto simp: To16_def)
  moreover have "\<not> IsForbiddenIP (To16 ip)" using ok by (simp add: IsForbiddenIP_To16 [OF len])
  ultimately show ?thesis
    using port unfolding ResolveAndValidateAuthority_def TrimSpace_plain [OF authority_plain(1) [OF len]] split
    by (simp add: ip ParseUint10_Itoa IP_String_To16 [OF len])
qed

lemma authority_normalizes:
  assumes len: "length ip = 4 \<or> length ip = 16" and port: "port < 2 ^ 16"
    and name: "ToLower U (TrimSpace serverName) \<noteq> []" "length (ToLower U (TrimSpace serverName)) \<le> 65535"
  shows "\<exists>n. normalizeAuthFields U MethodConnect (JoinHostPort (IP_String ip) (Itoa port)) serverName = Inr n"
proof -
  let ?a = "JoinHostPort (IP_String ip) (Itoa port)"
  have trim: "TrimSpace ?a = ?a" by (rule TrimSpace_plain [OF authority_plain(1) [OF len]])
  have m: "TrimSpace MethodConnect = ''CONNECT''"
    unfolding MethodConnect_def by (rule TrimSpace_plain) (simp add: plain_def plain_char_def)
  have "isASCII ?a" using authority_plain(1) [OF len, of port] by (auto simp: isASCII_def plain_def plain_char_def list_all_iff)
  then have low: "ToLower U ?a = map ascii_lower ?a" by (simp add: ToLower_def)
  have "length (Itoa port) \<le> 5" using length_Itoa [of 5 port] port by simp
  then have "length ?a \<le> 65535" using length_IP_String [OF len] by (simp add: JoinHostPort_def)
  then show ?thesis
    using name authority_plain(2) [OF len, of port]
    by (simp add: normalizeAuthFields_def trim m low Let_def ToUpper_def isASCII_def ascii_upper_def)
qed

end
