(* ===== verification/Udp_Client.thy ===== *)
theory Udp_Client
  imports Client
begin

text \<open>
  The client's UDP association (\<open>internal/quicx/udp_client.go\<close>).

  The stream is an argument: what \<open>ReceiveDatagram\<close> returns from now on is a list of results, and
  a \<open>ReadFrom\<close> that uses them up without completing a packet has not returned (\<open>None\<close>). A
  deadline that is Go's zero time is \<open>None\<close>. \<open>LocalAddr\<close> and \<open>RemoteAddr\<close> are not modelled: they
  return what they were given.

  Lemmas: what is written on one side is read on the other (\<open>deliver_frames\<close>), for the server's
  session and for this connection alike.
\<close>

section \<open>The association\<close>

datatype udp_conn_error =
    ErrClosed | ErrDeadlineExceeded | ReceiveError | DecodeError udp_error
  | EmptyDatagram | DatagramTooLarge | SetDeadlineError | EncodeError udp_error | SendError

record UDPConn =
  uc_stream :: "request_stream option"
  uc_target :: string
  uc_maxPacket :: int
  uc_cancelled :: bool
  uc_encoder :: udpFragmentEncoder
  uc_decoder :: udpFragmentDecoder
  uc_readDeadline :: "instant option"
  uc_writeDeadline :: "instant option"
  uc_closed :: bool
  uc_closeErr :: "close_error option"

definition newUDPConn :: "request_stream option \<Rightarrow> string \<Rightarrow> int \<Rightarrow> UDPConn" where
  "newUDPConn stream target maxPacket0 =
     (let maxPacket = (if maxPacket0 \<le> 0 then defaultUDPMaxPacketSize else maxPacket0) in
      \<lparr>uc_stream = stream, uc_target = target, uc_maxPacket = maxPacket, uc_cancelled = False,
       uc_encoder = newUDPFragmentEncoder maxPacket, uc_decoder = newUDPFragmentDecoder maxPacket,
       uc_readDeadline = None, uc_writeDeadline = None, uc_closed = False, uc_closeErr = None\<rparr>)"

definition DialUDP :: "stream_env \<Rightarrow> Client option \<Rightarrow> Address option \<Rightarrow> request_stream option \<times> (client_error + UDPConn)" where
  "DialUDP se cp addr =
     (case openUDP se cp addr of
        (st, Inl e) \<Rightarrow> (st, Inl e)
      | (st, Inr (_, authority)) \<Rightarrow>
          (st, case cp of None \<Rightarrow> Inl DatagramsDisabled | Some c \<Rightarrow> Inr (newUDPConn st authority (cl_udpMaxPacket c))))"

text \<open>The context of \<open>ReadFrom\<close>: when it expires, if it has a deadline.\<close>

definition readContext :: "UDPConn \<Rightarrow> instant option" where
  "readContext c = (case uc_readDeadline c of None \<Rightarrow> None | Some deadline \<Rightarrow> Some deadline)"

definition getWriteDeadline :: "UDPConn \<Rightarrow> instant option" where
  "getWriteDeadline c = uc_writeDeadline c"

text \<open>A result of \<open>ReceiveDatagram\<close>: an error (and whether the context's deadline passed) or a frame,
  with the clock and the visiting order for \<open>Decode\<close>.\<close>

datatype receive = ReceiveFails bool | Received "32 word list" instant bytes

text \<open>The loop of \<open>ReadFrom\<close>: the packet, and the results that are left.\<close>

fun readLoop :: "nat \<Rightarrow> receive list \<Rightarrow> UDPConn \<Rightarrow> (UDPConn \<times> (udp_conn_error + bytes \<times> string) \<times> receive list) option" where
  "readLoop bufLen [] c = None"
| "readLoop bufLen (ReceiveFails deadline # rs) c =
     Some (c, Inl (if deadline then ErrDeadlineExceeded else ReceiveError), rs)"
| "readLoop bufLen (Received it now data # rs) c =
     (case Decode it now data (uc_decoder c) of
        (d, Inl e) \<Rightarrow> Some (c\<lparr>uc_decoder := d\<rparr>, Inl (DecodeError e), rs)
      | (d, Inr None) \<Rightarrow> readLoop bufLen rs (c\<lparr>uc_decoder := d\<rparr>)
      | (d, Inr (Some packet)) \<Rightarrow> Some (c\<lparr>uc_decoder := d\<rparr>, Inr (take bufLen packet, uc_target c), rs))"

text \<open>\<open>bufLen\<close> is the length of the caller's buffer.\<close>

definition ReadFrom ::
  "nat \<Rightarrow> receive list \<Rightarrow> UDPConn option \<Rightarrow> (UDPConn option \<times> (udp_conn_error + bytes \<times> string) \<times> receive list) option" where
  "ReadFrom bufLen rs cp =
     (case cp of
        None \<Rightarrow> Some (None, Inl ErrClosed, rs)
      | Some c \<Rightarrow>
          if uc_stream c = None then Some (Some c, Inl ErrClosed, rs)
          else map_option (\<lambda>(c', r, rs'). (Some c', r, rs')) (readLoop bufLen rs c))"

text \<open>\<open>setOk\<close>: \<open>SetWriteDeadline\<close> succeeds; \<open>failing\<close>: the \<open>SendDatagram\<close> that fails. The frames that were
  sent come back with the result.\<close>

definition WriteTo ::
  "instant \<Rightarrow> bool \<Rightarrow> nat option \<Rightarrow> bytes \<Rightarrow> UDPConn option \<Rightarrow> UDPConn option \<times> bytes list \<times> (udp_conn_error + nat)" where
  "WriteTo now setOk failing p cp =
     (case cp of
        None \<Rightarrow> (None, [], Inl ErrClosed)
      | Some c \<Rightarrow>
          if uc_stream c = None then (Some c, [], Inl ErrClosed)
          else if length p = 0 then (Some c, [], Inl EmptyDatagram)
          else if uc_maxPacket c < int (length p) then (Some c, [], Inl DatagramTooLarge)
          else if (case getWriteDeadline c of None \<Rightarrow> False | Some deadline \<Rightarrow> deadline < now) then (Some c, [], Inl ErrDeadlineExceeded)
          else if \<not> setOk then (Some c, [], Inl SetDeadlineError)
          else case Encode p (uc_encoder c) of
              (e, Inl err) \<Rightarrow> (Some (c\<lparr>uc_encoder := e\<rparr>), [], Inl (EncodeError err))
            | (e, Inr frames) \<Rightarrow>
                (case failing of
                   Some k \<Rightarrow>
                     if k < length frames then (Some (c\<lparr>uc_encoder := e\<rparr>), take k frames, Inl SendError)
                     else (Some (c\<lparr>uc_encoder := e\<rparr>), frames, Inr (length p))
                 | None \<Rightarrow> (Some (c\<lparr>uc_encoder := e\<rparr>), frames, Inr (length p))))"

definition UDPConn_Close :: "close_error option \<Rightarrow> UDPConn option \<Rightarrow> UDPConn option \<times> close_error option" where
  "UDPConn_Close streamClose cp =
     (case cp of
        None \<Rightarrow> (None, None)
      | Some c \<Rightarrow>
          if uc_closed c then (Some c, uc_closeErr c)
          else
            let err = (if uc_stream c = None then uc_closeErr c else streamClose);
                stream = map_option (\<lambda>st. (cancelStream st)\<lparr>rst_Closed := True\<rparr>) (uc_stream c)
            in (Some (c\<lparr>uc_stream := stream, uc_cancelled := True, uc_closed := True, uc_closeErr := err\<rparr>), err))"

text \<open>The deadlines; \<open>streamErr\<close> is what the stream's own method returns.\<close>

definition SetDeadline :: "instant option \<Rightarrow> udp_conn_error option \<Rightarrow> UDPConn \<Rightarrow> UDPConn \<times> udp_conn_error option" where
  "SetDeadline deadline streamErr c =
     (let c' = c\<lparr>uc_readDeadline := deadline, uc_writeDeadline := deadline\<rparr> in
      (c', if uc_stream c' = None then Some ErrClosed else streamErr))"

definition SetReadDeadline :: "instant option \<Rightarrow> udp_conn_error option \<Rightarrow> UDPConn \<Rightarrow> UDPConn \<times> udp_conn_error option" where
  "SetReadDeadline deadline streamErr c =
     (let c' = c\<lparr>uc_readDeadline := deadline\<rparr> in (c', if uc_stream c' = None then Some ErrClosed else streamErr))"

definition SetWriteDeadline :: "instant option \<Rightarrow> udp_conn_error option \<Rightarrow> UDPConn \<Rightarrow> UDPConn \<times> udp_conn_error option" where
  "SetWriteDeadline deadline streamErr c =
     (let c' = c\<lparr>uc_writeDeadline := deadline\<rparr> in (c', if uc_stream c' = None then Some ErrClosed else streamErr))"

section \<open>Delivery\<close>

definition packetsOf :: "(udp_error + bytes option) list \<Rightarrow> bytes list" where
  "packetsOf rs = concat (map (\<lambda>r. case r of Inr (Some p) \<Rightarrow> [p] | _ \<Rightarrow> []) rs)"

fun callOf :: "session_event \<Rightarrow> decode_call" where
  "callOf (FromClient it now f ok) = (it, now, f)"
| "callOf _ = ([], 0, [])"

definition all_sent :: "session_event \<Rightarrow> bool" where
  "all_sent ev \<longleftrightarrow> (case ev of FromClient it now f ok \<Rightarrow> ok | _ \<Rightarrow> False)"

text \<open>A session that only gets frames from its client is its decoder, with the packets sent on.\<close>

lemma session_decodes:
  assumes "session_run u0 evs u" and "list_all all_sent evs"
  shows "\<exists>rs. decode_run (map callOf evs) (us_fromClient u0) = (us_fromClient u, rs)
    \<and> us_target u = us_target u0 \<and> us_sent u = us_sent u0 @ map (\<lambda>p. (p, us_target u0)) (packetsOf rs)"
  using assms
proof (induction rule: session_run.induct)
  case start
  then show ?case by (simp add: packetsOf_def)
next
  case (step evs u ev u')
  then obtain it now f where ev: "ev = FromClient it now f True"
    by (cases ev) (auto simp: all_sent_def)
  from step obtain rs where IH: "decode_run (map callOf evs) (us_fromClient u0) = (us_fromClient u, rs)" "us_target u = us_target u0"
      "us_sent u = us_sent u0 @ map (\<lambda>p. (p, us_target u0)) (packetsOf rs)"
    by auto
  obtain d r where dec: "Decode it now f (us_fromClient u) = (d, r)" by fastforce
  have u': "u' = clientDatagram it now f True u" using step.hyps(2) by (auto simp: ev split: if_splits)
  have "decode_run (map callOf (evs @ [ev])) (us_fromClient u0) = (d, rs @ [r])"
    using IH(1) dec by (simp add: ev decode_run_snoc)
  moreover have "us_fromClient u' = d" "us_target u' = us_target u0"
      "us_sent u' = us_sent u0 @ map (\<lambda>p. (p, us_target u0)) (packetsOf (rs @ [r]))"
    using dec IH by (auto simp: u' clientDatagram_def readerFails_def packetsOf_def Let_def split: sum.split option.split)
  ultimately show ?case by blast
qed

text \<open>The frames of one packet, each once, in any order.\<close>

lemma deliver_frames:
  assumes enc: "Encode p e = (e', Inr frames)" and len: "int (length p) \<le> ud_maxPacket d" and fresh: "ud_pending d = []"
    and times: "\<forall>(it, now, f) \<in> set calls. t \<le> now \<and> now < t + udpFragmentAssemblyTTL"
    and once: "(snd \<circ> snd) ` set calls = set frames" "length calls = length frames"
    and run: "decode_run calls d = (d', rs)"
  shows "\<exists>k. rs = replicate k (Inr None) @ [Inr (Some p)]"
proof -
  have frames: "frames = map (fragmentOf (ue_nextSeq e) p) [0..<fragCount p]" "p \<noteq> []" "fragCount p \<le> 64"
    using enc by (auto simp: Encode_Inr)
  have "inj_on (fragmentOf (ue_nextSeq e) p) {0..<fragCount p}"
    using fragmentOf_inj frames(3) by (fastforce intro!: inj_onI)
  then have dist: "distinct frames" by (simp add: frames(1) distinct_map)
  have "0 < length frames" using frames(2) fragCount_less [of 0 p] by (simp add: frames(1))
  then obtain pre final where calls: "calls = pre @ [final]" using once(2) by (metis length_0_conv less_numeral_extra(3) rev_exhaust)
  have "\<not> set frames \<subseteq> (snd \<circ> snd) ` set pre"
  proof
    assume "set frames \<subseteq> (snd \<circ> snd) ` set pre"
    then have "card (set frames) \<le> length pre"
      by (meson card_image_le card_length card_mono finite_imageI finite_set order_trans)
    then show False using dist once(2) by (simp add: calls distinct_card)
  qed
  moreover have "room_for (ue_nextSeq e) {} d" using fresh by (simp add: room_for_def)
  moreover have "\<forall>(it, now, f) \<in> set (pre @ [final]). t \<le> now \<and> now < t + udpFragmentAssemblyTTL
      \<and> (f \<in> set frames \<or> (\<forall>s i n b. parseFrame f = Inr (s, i, n, b) \<longrightarrow> s \<in> {}))"
    using times once(1) by (force simp: calls)
  ultimately have res: "last rs = Inr (Some p)" "\<forall>k < length pre. snd (snd (pre ! k)) \<in> set frames \<longrightarrow> rs ! k = Inr None"
    using reassembly [OF enc len, of "{}" pre final t d' rs] fresh once(1) run by (auto simp: calls)
  have "length rs = length calls" using run
  proof (induction calls arbitrary: d rs)
    case (Cons c calls)
    then show ?case by (cases c) (auto split: prod.splits)
  qed simp
  then obtain rs0 where rs: "rs = rs0 @ [Inr (Some p)]" "length rs0 = length pre"
    using res(1) calls by (cases rs rule: rev_cases) auto
  have "rs0 ! k = Inr None" if "k < length pre" for k
  proof -
    have "snd (snd (pre ! k)) \<in> (snd \<circ> snd) ` set calls" using that by (auto simp: calls)
    with once(1) res(2) that rs show ?thesis by (auto simp: nth_append)
  qed
  then have "rs0 = replicate (length pre) (Inr None)" by (intro nth_equalityI) (use rs(2) in auto)
  with rs(1) show ?thesis by blast
qed

lemma packetsOf_last [simp]: "packetsOf (replicate k (Inr None) @ [Inr (Some p)]) = [p]"
  by (induction k) (simp_all add: packetsOf_def)

definition receiveOf :: "decode_call \<Rightarrow> receive" where
  "receiveOf c = (case c of (it, now, f) \<Rightarrow> Received it now f)"

lemma readLoop_delivers:
  "decode_run calls (uc_decoder c) = (d, replicate k (Inr None) @ [Inr (Some p)]) \<Longrightarrow>
   readLoop bufLen (map receiveOf calls) c = Some (c\<lparr>uc_decoder := d\<rparr>, Inr (take bufLen p, uc_target c), [])"
proof (induction calls arbitrary: c k)
  case (Cons call calls)
  obtain it now f where call: "call = (it, now, f)" by (cases call)
  obtain d1 r where dec: "Decode it now f (uc_decoder c) = (d1, r)" by fastforce
  obtain d2 rs where run: "decode_run calls d1 = (d2, rs)" by fastforce
  with Cons.prems dec have d: "d2 = d" "r # rs = replicate k (Inr None) @ [Inr (Some p)]" by (auto simp: call)
  show ?case
  proof (cases k)
    case 0
    then have "rs = []" "r = Inr (Some p)" using d(2) by auto
    moreover have "calls = []" using run \<open>rs = []\<close> by (cases calls) (auto split: prod.splits)
    ultimately show ?thesis using dec run d(1) by (simp add: call receiveOf_def)
  next
    case (Suc k')
    then have "r = Inr None" "rs = replicate k' (Inr None) @ [Inr (Some p)]" using d(2) by auto
    then show ?thesis using dec run d(1) Cons.IH [of "c\<lparr>uc_decoder := d1\<rparr>" k'] by (simp add: call receiveOf_def)
  qed
qed simp

end
