(* ===== verification/Padstream.thy ===== *)
theory Padstream
  imports Wire
begin

text \<open>
  The padding layer (\<open>internal/padstream/padstream.go\<close>): a connection that cuts what is written
  into frames with random padding and strips the padding when reading.

  \<^item> The system's random source is the tape \<open>pc_rand\<close>, of which every round takes one set of draws
    (the padding length before its reduction to the range, the keep-alive dice, the padding
    bytes). The theorems hold for every tape.
  \<^item> The raw connection is an argument too, by its \<open>read\<close> and \<open>wr\<close> functions.
  \<^item> \<open>Conn_Write\<close> and \<open>Conn_Read\<close> are \<open>None\<close> when the loop never ends.
  \<^item> A write under \<open>writeMu\<close> is one atomic step.

  Lemmas: \<open>deframe\<close> says what the bytes of a framed stream mean. \<open>Conn\<close> keeps the contracts
  \<open>byte_sink\<close> and \<open>byte_source\<close> of \<open>Go_Io\<close> again, so the session protocol runs over it as it runs
  over a raw connection.
\<close>

section \<open>Types\<close>

definition FramePaddingOnly :: byte where "FramePaddingOnly = 0x00"
definition FrameDataWithPad :: byte where "FrameDataWithPad = 0x01"
definition FrameDataNoPad :: byte where "FrameDataNoPad = 0x02"

record Policy =
  MaxPadding :: "16 word"
  InitialFrames :: int
  InitialMax :: "16 word"
  KeepAliveChance :: int

definition DefaultPolicy :: Policy where
  "DefaultPolicy = \<lparr>MaxPadding = 64, InitialFrames = 8, InitialMax = 255, KeepAliveChance = 20\<rparr>"

text \<open>One set of draws: \<open>rand.Int\<close> reduced to its range reaches every value of the range.\<close>

record dice =
  d_len :: nat
  d_chance :: nat
  d_pad :: "nat \<Rightarrow> byte"

definition randInt :: "nat \<Rightarrow> 16 word \<Rightarrow> 16 word" where
  "randInt draw limit = (if limit = 0 then 0 else of_nat (draw mod (unat limit + 1)))"

definition shouldKeepAlive :: "nat \<Rightarrow> int \<Rightarrow> bool" where
  "shouldKeepAlive draw chance = (if chance \<le> 0 then False else int (draw mod 100) < chance)"

record 'raw Conn =
  pc_raw :: 'raw
  pc_policy :: Policy
  pc_framesSent :: int
  pc_readBuf :: bytes
  pc_readStage :: nat
  pc_readPayloadLen :: "16 word"
  pc_readPadLen :: "16 word"
  pc_readPadSkip :: int
  pc_rand :: "nat \<Rightarrow> dice"

definition New :: "(nat \<Rightarrow> dice) \<Rightarrow> 'raw \<Rightarrow> Policy \<Rightarrow> 'raw Conn" where
  "New tape raw p =
     \<lparr>pc_raw = raw,
      pc_policy = p\<lparr>InitialFrames := (if InitialFrames p \<le> 0 then 8 else InitialFrames p),
                    InitialMax := (if InitialMax p = 0 then 255 else InitialMax p)\<rparr>,
      pc_framesSent = 0, pc_readBuf = [], pc_readStage = 0,
      pc_readPayloadLen = 0, pc_readPadLen = 0, pc_readPadSkip = 0, pc_rand = tape\<rparr>"

definition nextDraw :: "'raw Conn \<Rightarrow> 'raw Conn" where
  "nextDraw c = c\<lparr>pc_rand := (\<lambda>i. pc_rand c (i + 1))\<rparr>"

section \<open>Writing\<close>

definition frameHeader :: "byte \<Rightarrow> 16 word \<Rightarrow> 16 word \<Rightarrow> bytes" where
  "frameHeader frameType payloadLen padLen = [frameType] @ PutUint16 payloadLen @ PutUint16 padLen"

definition chooseFrame :: "dice \<Rightarrow> 'raw Conn \<Rightarrow> byte \<times> 16 word" where
  "chooseFrame d c =
     (if pc_framesSent c < InitialFrames (pc_policy c)
      then (FrameDataWithPad, randInt (d_len d) (InitialMax (pc_policy c)))
      else let padLen = randInt (d_len d) (MaxPadding (pc_policy c)) in
           (if 0 < padLen then FrameDataWithPad else FrameDataNoPad, padLen))"

definition padBytes :: "dice \<Rightarrow> 16 word \<Rightarrow> bytes" where
  "padBytes d padLen = map (d_pad d) [0..<unat padLen]"

text \<open>One round of the loop of \<open>Write\<close>: the header, the padding if any, the chunk. The result is the
  number of payload bytes taken and the error.\<close>

definition writeFrame :: "'raw writer \<Rightarrow> bytes \<Rightarrow> 'raw Conn \<Rightarrow> ('raw Conn \<times> nat \<times> io_error option) option" where
  "writeFrame wr chunk c0 =
     (let d = pc_rand c0 0; c = nextDraw c0; (frameType, padLen) = chooseFrame d c in
      Option.bind (wr (frameHeader frameType (of_nat (length chunk)) padLen) (pc_raw c)) (\<lambda>(raw1, _, err1).
      case err1 of
        Some e \<Rightarrow> Some (c\<lparr>pc_raw := raw1\<rparr>, 0, Some e)
      | None \<Rightarrow>
          Option.bind (if 0 < padLen then wr (padBytes d padLen) raw1 else Some (raw1, 0, None)) (\<lambda>(raw2, _, err2).
          case err2 of
            Some e \<Rightarrow> Some (c\<lparr>pc_raw := raw2\<rparr>, 0, Some e)
          | None \<Rightarrow>
              Option.bind (wr chunk raw2) (\<lambda>(raw3, n, err3).
              case err3 of
                Some e \<Rightarrow> Some (c\<lparr>pc_raw := raw3\<rparr>, n, Some e)
              | None \<Rightarrow> Some (c\<lparr>pc_raw := raw3, pc_framesSent := pc_framesSent c + 1\<rparr>, n, None)))))"

partial_function (option) Conn_Write ::
  "'raw writer \<Rightarrow> bytes \<Rightarrow> 'raw Conn \<Rightarrow> ('raw Conn \<times> nat \<times> io_error option) option" where
  "Conn_Write wr b c =
     (if b = [] then Some (c, 0, None)
      else
        Option.bind (writeFrame wr (take 65535 b) c) (\<lambda>(c', n, err).
        case err of
          Some e \<Rightarrow> Some (c', n, Some e)
        | None \<Rightarrow>
            Option.bind (Conn_Write wr (drop n b) c') (\<lambda>(c'', m, err').
              Some (c'', n + m, err'))))"

definition maybeKeepAlive :: "'raw writer \<Rightarrow> 'raw Conn \<Rightarrow> 'raw Conn option" where
  "maybeKeepAlive wr c0 =
     (let d = pc_rand c0 0; c = nextDraw c0 in
      if shouldKeepAlive (d_chance d) (KeepAliveChance (pc_policy c)) then
        if pc_framesSent c = 0 then Some c
        else
          let padLen = randInt (d_len d) (MaxPadding (pc_policy c)) in
          Option.bind (wr (frameHeader FramePaddingOnly 0 padLen) (pc_raw c)) (\<lambda>(raw1, _, _).
          Option.bind (if 0 < padLen then wr (padBytes d padLen) raw1 else Some (raw1, 0, None)) (\<lambda>(raw2, _, _).
          Some (c\<lparr>pc_raw := raw2\<rparr>)))
      else Some c)"

section \<open>Reading\<close>

text \<open>The three stages: header, padding, payload. \<open>Inl\<close> is an error that \<open>Read\<close> returns.\<close>

definition readFrameStage :: "'raw reader \<Rightarrow> 'raw Conn \<Rightarrow> ('raw Conn \<times> io_error option) option" where
  "readFrameStage read c =
     (if pc_readStage c = 0 then
        Option.bind (ReadFull read 5 (pc_raw c)) (\<lambda>(raw, res). case res of
            Inl e \<Rightarrow> Some (c\<lparr>pc_raw := raw\<rparr>, Some e)
          | Inr header \<Rightarrow>
              let payloadLen = Uint16 (take 2 (drop 1 header)); padLen = Uint16 (take 2 (drop 3 header)) in
              Some (c\<lparr>pc_raw := raw, pc_readPayloadLen := payloadLen, pc_readPadLen := padLen, pc_readPadSkip := 0,
                      pc_readStage := (if 0 < padLen then 1 else if 0 < payloadLen then 2 else 0)\<rparr>, None))
      else if pc_readStage c = 1 then
        Option.bind (ReadFull read (unat (pc_readPadLen c)) (pc_raw c)) (\<lambda>(raw, res). case res of
            Inl e \<Rightarrow> Some (c\<lparr>pc_raw := raw\<rparr>, Some e)
          | Inr buf \<Rightarrow> Some (c\<lparr>pc_raw := raw, pc_readStage := (if 0 < pc_readPayloadLen c then 2 else 0)\<rparr>, None))
      else if pc_readStage c = 2 then
        Option.bind (ReadFull read (unat (pc_readPayloadLen c)) (pc_raw c)) (\<lambda>(raw, res). case res of
            Inl e \<Rightarrow> Some (c\<lparr>pc_raw := raw\<rparr>, Some e)
          | Inr payload \<Rightarrow> Some (c\<lparr>pc_raw := raw, pc_readBuf := payload, pc_readStage := 0\<rparr>, None))
      else Some (c, None))"

partial_function (option) Conn_Read ::
  "'raw reader \<Rightarrow> 'raw writer \<Rightarrow> nat \<Rightarrow> 'raw Conn \<Rightarrow> ('raw Conn \<times> bytes \<times> io_error option) option" where
  "Conn_Read read wr n c =
     Option.bind (if pc_readStage c = 0 \<and> pc_readBuf c = [] \<and> pc_readPayloadLen c = 0 \<and> pc_readPadLen c = 0
                  then maybeKeepAlive wr c else Some c) (\<lambda>c1.
       if pc_readBuf c1 \<noteq> []
       then Some (c1\<lparr>pc_readBuf := drop n (pc_readBuf c1)\<rparr>, take n (pc_readBuf c1), None)
       else Option.bind (readFrameStage read c1) (\<lambda>(c2, err). case err of
           Some e \<Rightarrow> Some (c2, [], Some e)
         | None \<Rightarrow> Conn_Read read wr n c2))"

definition Conn_Close :: "('raw \<Rightarrow> 'raw \<times> io_error option) \<Rightarrow> 'raw Conn \<Rightarrow> 'raw Conn \<times> io_error option" where
  "Conn_Close raw_Close c = (let (raw, err) = raw_Close (pc_raw c) in (c\<lparr>pc_raw := raw\<rparr>, err))"

section \<open>The meaning of a framed stream\<close>

definition hdrPayload :: "bytes \<Rightarrow> nat" where "hdrPayload bs = unat (Uint16 (take 2 (drop 1 bs)))"
definition hdrPad :: "bytes \<Rightarrow> nat" where "hdrPad bs = unat (Uint16 (take 2 (drop 3 bs)))"
definition frameLen :: "bytes \<Rightarrow> nat" where "frameLen bs = 5 + hdrPad bs + hdrPayload bs"

text \<open>The payload bytes of a stream, of its last frame as far as it goes; and whether the stream ends
  at the end of a frame.\<close>

function deframe :: "bytes \<Rightarrow> bytes" where
  "deframe bs = (if length bs < 5 then []
     else take (hdrPayload bs) (drop (5 + hdrPad bs) bs) @ deframe (drop (frameLen bs) bs))"
  by pat_completeness auto
termination
  by (relation "measure length") (auto simp: frameLen_def)

function framed :: "bytes \<Rightarrow> bool" where
  "framed bs = (if bs = [] then True else if length bs < 5 then False
     else if length bs < frameLen bs then False else framed (drop (frameLen bs) bs))"
  by pat_completeness auto
termination
  by (relation "measure length") (auto simp: frameLen_def)

declare deframe.simps [simp del] framed.simps [simp del]

lemma deframe_Nil [simp]: "deframe [] = []"
  by (simp add: deframe.simps)

lemma framed_Nil [simp]: "framed []"
  by (subst framed.simps) simp

lemma hdr_append: "5 \<le> length bs \<Longrightarrow> hdrPayload (bs @ cs) = hdrPayload bs \<and> hdrPad (bs @ cs) = hdrPad bs \<and> frameLen (bs @ cs) = frameLen bs"
  by (simp add: hdrPayload_def hdrPad_def frameLen_def)

lemma framed_append: "framed bs \<Longrightarrow> framed (bs @ cs) = framed cs \<and> deframe (bs @ cs) = deframe bs @ deframe cs"
proof (induction bs rule: framed.induct)
  case (1 bs)
  show ?case
  proof (cases "bs = []")
    case False
    with 1(2) have bs: "5 \<le> length bs" "frameLen bs \<le> length bs" "framed (drop (frameLen bs) bs)"
      by (auto simp: framed.simps [of bs] not_less split: if_splits)
    note IH = 1(1) [OF False _ _ bs(3)]
    have pay: "take (hdrPayload bs) (drop (5 + hdrPad bs) (bs @ cs)) = take (hdrPayload bs) (drop (5 + hdrPad bs) bs)"
      using bs by (simp add: frameLen_def)
    have "framed (bs @ cs) = framed (drop (frameLen bs) bs @ cs)"
      using bs hdr_append [OF bs(1), of cs] by (subst framed.simps) simp
    moreover have "deframe (bs @ cs) = take (hdrPayload bs) (drop (5 + hdrPad bs) bs) @ deframe (drop (frameLen bs) bs @ cs)"
      using bs hdr_append [OF bs(1), of cs] pay by (subst deframe.simps) simp
    moreover have "deframe bs = take (hdrPayload bs) (drop (5 + hdrPad bs) bs) @ deframe (drop (frameLen bs) bs)"
      using bs by (subst deframe.simps) simp
    ultimately show ?thesis using IH bs by simp
  qed simp
qed

text \<open>One frame, whole or cut off.\<close>

lemma length_frameHeader [simp]: "length (frameHeader t pl pd) = 5"
  by (simp add: frameHeader_def)

lemma hdr_frameHeader:
  "hdrPayload (frameHeader t pl pd @ rest) = unat pl" "hdrPad (frameHeader t pl pd @ rest) = unat pd"
  by (simp_all add: hdrPayload_def hdrPad_def frameHeader_def)

lemma deframe_frame:
  assumes "length pad = unat pd" and "length payload = unat pl"
  shows "deframe (take k (frameHeader t pl pd @ pad @ payload)) = take (k - (5 + unat pd)) payload"
    and "framed (frameHeader t pl pd @ pad @ payload)"
proof -
  let ?f = "frameHeader t pl pd @ pad @ payload"
  show "deframe (take k ?f) = take (k - (5 + unat pd)) payload"
  proof (cases "k < 5")
    case True
    then show ?thesis by (subst deframe.simps) simp
  next
    case False
    then have "take k ?f = frameHeader t pl pd @ take (k - 5) (pad @ payload)"
      by simp
    then have "deframe (take k ?f) = take (unat pl) (drop (5 + unat pd) (take k ?f)) @ deframe (drop (5 + unat pd + unat pl) (take k ?f))"
      using False by (subst deframe.simps) (simp add: frameLen_def hdr_frameHeader)
    moreover have "drop (5 + unat pd + unat pl) (take k ?f) = []"
      using assms by simp
    moreover have "take (unat pl) (drop (5 + unat pd) (take k ?f)) = take (k - (5 + unat pd)) payload"
    proof -
      have "drop (5 + unat pd) ?f = payload" using assms by simp
      then have "drop (5 + unat pd) (take k ?f) = take (k - (5 + unat pd)) payload"
        by (simp only: drop_take)
      then show ?thesis using assms by (simp add: min_def)
    qed
    ultimately show ?thesis by simp
  qed
  show "framed ?f"
    using assms by (subst framed.simps) (simp add: frameLen_def hdr_frameHeader)
qed

lemma unat_of_nat16: "n \<le> 65535 \<Longrightarrow> unat (of_nat n :: 16 word) = n"
  by (simp add: unsigned_of_nat take_bit_nat_eq_self)

lemma length_padBytes [simp]: "length (padBytes d padLen) = unat padLen"
  by (simp add: padBytes_def)

section \<open>Writing keeps the contract of a writer\<close>

context byte_sink
begin

definition conn_sent :: "'w Conn \<Rightarrow> bytes" where
  "conn_sent c = deframe (sent (pc_raw c))"

definition conn_writable :: "'w Conn \<Rightarrow> bool" where
  "conn_writable c \<longleftrightarrow> writable (pc_raw c) \<and> framed (sent (pc_raw c))"

text \<open>Three writes in a row, stopping at the first error, are one write of the concatenation as far as
  what reaches the connection is concerned.\<close>

lemma writeFrame_spec:
  assumes c: "conn_writable c" and chunk: "length chunk \<le> 65535"
  shows "\<exists>c' n err. writeFrame wr chunk c = Some (c', n, err) \<and> n \<le> length chunk
    \<and> conn_sent c' = conn_sent c @ take n chunk \<and> (err = None \<longrightarrow> n = length chunk \<and> conn_writable c')"
proof -
  define d where "d = pc_rand c 0"
  obtain t pd where ch: "chooseFrame d (nextDraw c) = (t, pd)" by fastforce
  define hdr where "hdr = frameHeader t (of_nat (length chunk)) pd"
  define pad where "pad = padBytes d pd"
  have raw: "pc_raw (nextDraw c) = pc_raw c" by (simp add: nextDraw_def)
  have w: "writable (pc_raw c)" and fr: "framed (sent (pc_raw c))"
    using c by (auto simp: conn_writable_def)
  have pl: "length chunk = unat (of_nat (length chunk) :: 16 word)"
    using chunk by (simp add: unat_of_nat16)
  have cut: "deframe (sent (pc_raw c) @ take k (hdr @ pad @ chunk)) = conn_sent c @ take (k - (5 + unat pd)) chunk" for k
    using deframe_frame(1) [OF _ pl, of pad pd k t] framed_append [OF fr]
    by (simp add: conn_sent_def hdr_def pad_def)
  have whole: "framed (sent (pc_raw c) @ hdr @ pad @ chunk)"
    using deframe_frame(2) [OF _ pl, of pad pd t] framed_append [OF fr] by (simp add: hdr_def pad_def)
  note unf = writeFrame_def d_def [symmetric] ch raw hdr_def [symmetric] pad_def [symmetric]
  obtain r1 n1 e1 where s1: "wr hdr (pc_raw c) = Some (r1, n1, e1)" "n1 \<le> 5" "sent r1 = sent (pc_raw c) @ take n1 hdr"
      "e1 = None \<longrightarrow> n1 = 5 \<and> writable r1"
    using write_takes [OF w, of hdr] by (auto simp: hdr_def)
  show ?thesis
  proof (cases e1)
    case (Some e)
    have "conn_sent c = deframe (sent (pc_raw c) @ take n1 hdr)"
      using cut [of n1] s1(2) by (simp add: hdr_def)
    with Some s1 show ?thesis by (simp add: unf conn_sent_def Let_def)
  next
    case None
    have len: "length hdr = 5" "length pad = unat pd" by (simp_all add: hdr_def pad_def)
    with s1 None have r1: "sent r1 = sent (pc_raw c) @ hdr" "writable r1" by auto
    obtain r2 n2 e2 where s2: "(if 0 < pd then wr pad r1 else Some (r1, 0, None)) = Some (r2, n2, e2)"
        "n2 \<le> unat pd" "sent r2 = sent r1 @ take n2 pad" "e2 = None \<longrightarrow> n2 = unat pd \<and> writable r2"
    proof (cases "0 < pd")
      case True
      with write_takes [OF r1(2), of pad] len that show ?thesis by auto
    next
      case False
      then have "pd = 0" by (simp add: word_gt_0)
      with that [of r1 0 None] r1(2) show ?thesis by simp
    qed
    show ?thesis
    proof (cases e2)
      case (Some e)
      have "conn_sent c = deframe (sent r2)"
        using cut [of "5 + n2"] s2(2,3) r1(1) len by simp
      moreover have "writeFrame wr chunk c = Some ((nextDraw c)\<lparr>pc_raw := r2\<rparr>, 0, Some e)"
        by (simp add: unf Let_def s1(1) None s2(1) [unfolded pad_def] Some split del: if_split)
      ultimately show ?thesis by (simp add: conn_sent_def)
    next
      case None2: None
      with s2 len r1 have r2: "sent r2 = sent (pc_raw c) @ hdr @ pad" "writable r2" by auto
      obtain r3 n3 e3 where s3: "wr chunk r2 = Some (r3, n3, e3)" "n3 \<le> length chunk" "sent r3 = sent r2 @ take n3 chunk"
          "e3 = None \<longrightarrow> n3 = length chunk \<and> writable r3"
        using write_takes [OF r2(2), of chunk] by auto
      have "deframe (sent r3) = conn_sent c @ take n3 chunk"
        using cut [of "5 + unat pd + n3"] s3(3) r2(1) len by simp
      moreover have "e3 = None \<Longrightarrow> framed (sent r3)"
        using whole s3 r2 by simp
      moreover have "writeFrame wr chunk c = (case e3 of
            Some e \<Rightarrow> Some ((nextDraw c)\<lparr>pc_raw := r3\<rparr>, n3, Some e)
          | None \<Rightarrow> Some ((nextDraw c)\<lparr>pc_raw := r3, pc_framesSent := pc_framesSent (nextDraw c) + 1\<rparr>, n3, None))"
        by (simp add: unf Let_def s1(1) None s2(1) [unfolded pad_def] None2 s3(1) split del: if_split)
      ultimately show ?thesis
        using s3 by (cases e3) (simp_all add: conn_sent_def conn_writable_def)
    qed
  qed
qed

lemma Conn_Write_spec:
  assumes "conn_writable c"
  shows "\<exists>c' n err. Conn_Write wr b c = Some (c', n, err) \<and> n \<le> length b
    \<and> conn_sent c' = conn_sent c @ take n b \<and> (err = None \<longrightarrow> n = length b \<and> conn_writable c')"
  using assms
proof (induction "length b" arbitrary: b c rule: less_induct)
  case less
  show ?case
  proof (cases "b = []")
    case True
    with less.prems show ?thesis by (simp add: Conn_Write.simps)
  next
    case False
    obtain c1 n err where f: "writeFrame wr (take 65535 b) c = Some (c1, n, err)" "n \<le> length (take 65535 b)"
        "conn_sent c1 = conn_sent c @ take n (take 65535 b)" "err = None \<longrightarrow> n = length (take 65535 b) \<and> conn_writable c1"
      using writeFrame_spec [OF less.prems, of "take 65535 b"] by auto
    then have n: "n \<le> length b" and sent1: "conn_sent c1 = conn_sent c @ take n b"
      by (auto simp: min_def split: if_splits)
    show ?thesis
    proof (cases err)
      case (Some e)
      with f(1) False n sent1 show ?thesis by (simp add: Conn_Write.simps [of wr b])
    next
      case None
      with f(4) False have shorter: "length (drop n b) < length b" and c1: "conn_writable c1"
        by auto
      obtain c2 m err' where r: "Conn_Write wr (drop n b) c1 = Some (c2, m, err')" "m \<le> length (drop n b)"
          "conn_sent c2 = conn_sent c1 @ take m (drop n b)" "err' = None \<longrightarrow> m = length (drop n b) \<and> conn_writable c2"
        using less.hyps [OF shorter c1] by auto
      have "Conn_Write wr b c = Some (c2, n + m, err')"
        using f(1) None r(1) False by (simp add: Conn_Write.simps [of wr b])
      with r n sent1 show ?thesis by (auto simp: take_add)
    qed
  qed
qed

end

section \<open>Reading keeps the contract of a reader\<close>

context duplex
begin

text \<open>What is left of the frame that is being read, by stage: padding and payload bytes.\<close>

definition inFrame :: "'c Conn \<Rightarrow> nat \<times> nat" where
  "inFrame c = (if pc_readStage c = 1 then (unat (pc_readPadLen c), unat (pc_readPayloadLen c))
     else if pc_readStage c = 2 then (0, unat (pc_readPayloadLen c)) else (0, 0))"

definition conn_content :: "'c Conn \<Rightarrow> bytes" where
  "conn_content c = (let (pd, pl) = inFrame c; bs = content (pc_raw c) in
     pc_readBuf c @ take pl (drop pd bs) @ deframe (drop (pd + pl) bs))"

definition conn_readable :: "'c Conn \<Rightarrow> bool" where
  "conn_readable c \<longleftrightarrow> (let (pd, pl) = inFrame c; bs = content (pc_raw c) in
     readable (pc_raw c) \<and> pc_readStage c \<le> 2
     \<and> (pc_readBuf c \<noteq> [] \<longrightarrow> pc_readStage c = 0)
     \<and> (pc_readStage c = 1 \<longrightarrow> 0 < pd) \<and> (pc_readStage c = 2 \<longrightarrow> 0 < pl)
     \<and> pd + pl \<le> length bs \<and> framed (drop (pd + pl) bs))"

lemma ReadFull_keeps_output: "ReadFull read k r = Some (r', res) \<Longrightarrow> sent r' = sent r"
  by (rule ReadFull_rel [of read "\<lambda>r r'. sent r' = sent r"]) (auto dest: read_keeps_output)

lemma readFrameStage_keeps_output:
  assumes "readFrameStage read c = Some (c', err)"
  shows "sent (pc_raw c') = sent (pc_raw c)"
proof -
  let ?k = "if pc_readStage c = 0 then 5 else if pc_readStage c = 1 then unat (pc_readPadLen c) else unat (pc_readPayloadLen c)"
  show ?thesis
  proof (cases "ReadFull read ?k (pc_raw c)")
    case None
    with assms show ?thesis by (auto simp: readFrameStage_def split: if_split_asm)
  next
    case (Some rr)
    then obtain raw res where "ReadFull read ?k (pc_raw c) = Some (raw, res)" by (cases rr) auto
    with ReadFull_keeps_output [OF this] assms show ?thesis
      by (cases res) (auto simp: readFrameStage_def Let_def split: if_split_asm)
  qed
qed

lemma maybeKeepAlive_spec:
  "\<exists>raw'. maybeKeepAlive wr c = Some ((nextDraw c)\<lparr>pc_raw := raw'\<rparr>)
     \<and> content raw' = content (pc_raw c) \<and> readable raw' = readable (pc_raw c)"
proof -
  define d where "d = pc_rand c 0"
  define padLen where "padLen = randInt (d_len d) (MaxPadding (pc_policy c))"
  have adv: "pc_raw (nextDraw c) = pc_raw c" "pc_policy (nextDraw c) = pc_policy c" "pc_framesSent (nextDraw c) = pc_framesSent c"
    by (simp_all add: nextDraw_def)
  have self: "(nextDraw c)\<lparr>pc_raw := pc_raw c\<rparr> = nextDraw c"
    by (simp add: nextDraw_def)
  obtain r1 n1 e1 where w1: "wr (frameHeader FramePaddingOnly 0 padLen) (pc_raw c) = Some (r1, n1, e1)"
    using write_returns by blast
  obtain r2 n2 e2 where w2: "wr (padBytes d padLen) r1 = Some (r2, n2, e2)"
    using write_returns by blast
  note keeps = write_keeps_input [OF w1] write_keeps_input [OF w2]
  show ?thesis
    using w1 w2 keeps self
    by (cases "0 < padLen")
       (auto simp: maybeKeepAlive_def Let_def adv padLen_def [symmetric] d_def [symmetric]
         intro: exI [of _ "pc_raw c"])
qed

text \<open>One stage of the loop consumes bytes of the raw stream and keeps what is left to deliver.\<close>

definition stage_ok :: "'c Conn \<Rightarrow> 'c Conn \<Rightarrow> bool" where
  "stage_ok c c' \<longleftrightarrow> conn_readable c' \<and> conn_content c' = conn_content c
     \<and> length (content (pc_raw c')) < length (content (pc_raw c))"

lemma readFrameStage_header:
  assumes c: "conn_readable c" and buf: "pc_readBuf c = []" and more: "content (pc_raw c) \<noteq> []" and header: "pc_readStage c = 0"
  shows "\<exists>c'. readFrameStage read c = Some (c', None) \<and> stage_ok c c'"
proof -
  let ?bs = "content (pc_raw c)"
  have r: "readable (pc_raw c)" using c by (auto simp: conn_readable_def Let_def split: prod.splits)
  have fr: "framed ?bs" using c header by (simp add: conn_readable_def inFrame_def)
  then have len: "5 \<le> length ?bs" "frameLen ?bs \<le> length ?bs" "framed (drop (frameLen ?bs) ?bs)"
    using more by (auto simp: framed.simps [of ?bs] not_less split: if_splits)
  obtain raw where raw: "ReadFull read 5 (pc_raw c) = Some (raw, Inr (take 5 ?bs))" "content raw = drop 5 ?bs" "readable raw"
    using ReadFull_ok [OF r len(1)] by blast
  have hdr: "unat (Uint16 (take 2 (drop 1 (take 5 ?bs)))) = hdrPayload ?bs" "unat (Uint16 (take 2 (drop 3 (take 5 ?bs)))) = hdrPad ?bs"
    by (simp_all add: hdrPayload_def hdrPad_def drop_take)
  define pl where "pl = Uint16 (take 2 (drop 1 (take 5 ?bs)))"
  define pd where "pd = Uint16 (take 2 (drop 3 (take 5 ?bs)))"
  define c' where "c' = c\<lparr>pc_raw := raw, pc_readPayloadLen := pl, pc_readPadLen := pd, pc_readPadSkip := 0,
      pc_readStage := (if 0 < pd then 1 else if 0 < pl then 2 else 0)\<rparr>"
  have step: "readFrameStage read c = Some (c', None)"
    using header raw(1) by (simp add: readFrameStage_def c'_def pl_def pd_def Let_def)
  have inF: "inFrame c' = (unat pd, unat pl)" and inC: "inFrame c = (0, 0)"
    using header by (auto simp: inFrame_def c'_def word_gt_0)
  have fl: "frameLen ?bs = 5 + (unat pd + unat pl)"
    using hdr by (simp add: frameLen_def pl_def pd_def)
  have df: "deframe ?bs = take (unat pl) (drop (5 + unat pd) ?bs) @ deframe (drop (frameLen ?bs) ?bs)"
    using len(1) hdr by (subst deframe.simps) (simp add: pl_def pd_def)
  have rest: "drop (unat pd + unat pl) (content raw) = drop (frameLen ?bs) ?bs"
    by (simp add: raw(2) fl add.commute)
  have fields: "pc_raw c' = raw" "pc_readBuf c' = []" "pc_readStage c' \<le> 2"
    "pc_readStage c' = 1 \<longrightarrow> 0 < unat pd" "pc_readStage c' = 2 \<longrightarrow> 0 < unat pl"
    using buf by (auto simp: c'_def unat_gt_0 word_gt_0)
  have "conn_readable c'"
    unfolding conn_readable_def inF Let_def prod.case fields(1) rest
    using fields raw(2,3) len fl by simp
  moreover have "conn_content c' = conn_content c"
    unfolding conn_content_def inF inC Let_def prod.case fields(1) rest
    using fields(2) buf df by (simp add: raw(2) add.commute)
  moreover have "length (content (pc_raw c')) < length ?bs"
    using len(1) by (simp add: fields(1) raw(2))
  ultimately show ?thesis
    using step unfolding stage_ok_def by blast
qed

lemma readFrameStage_pad:
  assumes c: "conn_readable c" and buf: "pc_readBuf c = []" and more: "content (pc_raw c) \<noteq> []" and pad: "pc_readStage c = 1"
  shows "\<exists>c'. readFrameStage read c = Some (c', None) \<and> stage_ok c c'"
proof -
  let ?bs = "content (pc_raw c)"
  have r: "readable (pc_raw c)" using c by (auto simp: conn_readable_def Let_def split: prod.splits)
  let ?pd = "unat (pc_readPadLen c)" and ?pl = "unat (pc_readPayloadLen c)"
  have len: "0 < ?pd" "?pd + ?pl \<le> length ?bs" "framed (drop (?pd + ?pl) ?bs)"
    using c pad by (simp_all add: conn_readable_def inFrame_def Let_def)
  obtain raw where raw: "ReadFull read ?pd (pc_raw c) = Some (raw, Inr (take ?pd ?bs))" "content raw = drop ?pd ?bs" "readable raw"
    using ReadFull_ok [OF r, of ?pd] len by auto
  have "readFrameStage read c = Some (c\<lparr>pc_raw := raw, pc_readStage := (if 0 < pc_readPayloadLen c then 2 else 0)\<rparr>, None)"
    using pad raw(1) by (simp add: readFrameStage_def)
  then show ?thesis
    using raw len buf pad more
    by (auto simp: stage_ok_def conn_readable_def conn_content_def inFrame_def word_gt_0 unat_gt_0 algebra_simps Let_def)
qed

lemma readFrameStage_payload:
  assumes c: "conn_readable c" and buf: "pc_readBuf c = []" and more: "content (pc_raw c) \<noteq> []" and payload: "pc_readStage c = 2"
  shows "\<exists>c'. readFrameStage read c = Some (c', None) \<and> stage_ok c c'"
proof -
  let ?bs = "content (pc_raw c)"
  have r: "readable (pc_raw c)" using c by (auto simp: conn_readable_def Let_def split: prod.splits)
  let ?pl = "unat (pc_readPayloadLen c)"
  have len: "0 < ?pl" "?pl \<le> length ?bs" "framed (drop ?pl ?bs)"
    using c payload by (simp_all add: conn_readable_def inFrame_def Let_def)
  obtain raw where raw: "ReadFull read ?pl (pc_raw c) = Some (raw, Inr (take ?pl ?bs))" "content raw = drop ?pl ?bs" "readable raw"
    using ReadFull_ok [OF r, of ?pl] len by auto
  have "readFrameStage read c = Some (c\<lparr>pc_raw := raw, pc_readBuf := take ?pl ?bs, pc_readStage := 0\<rparr>, None)"
    using payload raw(1) by (simp add: readFrameStage_def)
  then show ?thesis
    using raw len buf payload more by (auto simp: stage_ok_def conn_readable_def conn_content_def inFrame_def Let_def)
qed

lemma readFrameStage_spec:
  assumes c: "conn_readable c" and buf: "pc_readBuf c = []" and more: "content (pc_raw c) \<noteq> []"
  shows "\<exists>c'. readFrameStage read c = Some (c', None) \<and> conn_readable c' \<and> conn_content c' = conn_content c
    \<and> length (content (pc_raw c')) < length (content (pc_raw c))"
proof -
  have "pc_readStage c \<le> 2" using c by (auto simp: conn_readable_def Let_def split: prod.splits)
  then consider "pc_readStage c = 0" | "pc_readStage c = 1" | "pc_readStage c = 2" by linarith
  then show ?thesis
    using readFrameStage_header [OF assms] readFrameStage_pad [OF assms] readFrameStage_payload [OF assms]
    unfolding stage_ok_def by cases blast+
qed

lemma conn_nextDraw:
  assumes "content raw' = content (pc_raw c)" and "readable raw' = readable (pc_raw c)"
  shows "conn_content ((nextDraw c)\<lparr>pc_raw := raw'\<rparr>) = conn_content c"
    and "conn_readable ((nextDraw c)\<lparr>pc_raw := raw'\<rparr>) = conn_readable c"
  using assms by (simp_all add: conn_content_def conn_readable_def inFrame_def nextDraw_def)

lemma readFrameStage_eof:
  assumes c: "conn_readable c" and buf: "pc_readBuf c = []" and none: "content (pc_raw c) = []"
  shows "conn_content c = [] \<and> (\<exists>c'. readFrameStage read c = Some (c', Some EOF) \<and> conn_readable c' \<and> conn_content c' = [])"
proof -
  have st: "pc_readStage c = 0" "readable (pc_raw c)"
    using c none by (auto simp: conn_readable_def inFrame_def Let_def split: if_splits)
  obtain raw where "ReadFull read 5 (pc_raw c) = Some (raw, Inl EOF)" "content raw = []" "readable raw"
    using ReadFull_short [OF st(2), of 5] none by auto
  then show ?thesis
    using st buf none by (simp add: readFrameStage_def conn_content_def conn_readable_def inFrame_def)
qed

lemma Conn_Read_spec:
  assumes "conn_readable c" and "0 < n"
  shows "\<exists>c' bs err. Conn_Read read wr n c = Some (c', bs, err) \<and> conn_readable c'
    \<and> (if conn_content c = [] then bs = [] \<and> err = Some EOF \<and> conn_content c' = []
       else err = None \<and> bs \<noteq> [] \<and> length bs \<le> n \<and> conn_content c = bs @ conn_content c')"
  using assms(1)
proof (induction "length (content (pc_raw c))" arbitrary: c rule: less_induct)
  case less
  let ?idle = "pc_readStage c = 0 \<and> pc_readBuf c = [] \<and> pc_readPayloadLen c = 0 \<and> pc_readPadLen c = 0"
  obtain c1 where ka: "(if ?idle then maybeKeepAlive wr c else Some c) = Some c1"
      and same: "conn_content c1 = conn_content c" "conn_readable c1" "content (pc_raw c1) = content (pc_raw c)"
    using maybeKeepAlive_spec [of c] less.prems conn_nextDraw by (cases ?idle) auto
  note unf = Conn_Read.simps [of read wr n c] ka
  show ?case
  proof (cases "pc_readBuf c1 = []")
    case False
    then have "pc_readStage c1 = 0" using same(2) by (auto simp: conn_readable_def Let_def split: prod.splits)
    then have "conn_content c1 = take n (pc_readBuf c1) @ conn_content (c1\<lparr>pc_readBuf := drop n (pc_readBuf c1)\<rparr>)"
        "conn_readable (c1\<lparr>pc_readBuf := drop n (pc_readBuf c1)\<rparr>)" "conn_content c1 \<noteq> []"
      using same(2) False by (auto simp: conn_content_def conn_readable_def inFrame_def)
    with False same(1) \<open>0 < n\<close> show ?thesis by (simp add: unf)
  next
    case buf: True
    show ?thesis
    proof (cases "content (pc_raw c1) = []")
      case True
      from readFrameStage_eof [OF same(2) buf True] same(1) buf show ?thesis by (auto simp: unf)
    next
      case False
      obtain c2 where step: "readFrameStage read c1 = Some (c2, None)" "conn_readable c2" "conn_content c2 = conn_content c1"
          "length (content (pc_raw c2)) < length (content (pc_raw c1))"
        using readFrameStage_spec [OF same(2) buf False] by blast
      have eq: "Conn_Read read wr n c = Conn_Read read wr n c2"
        using step(1) buf by (simp add: unf)
      have cc: "conn_content c2 = conn_content c" and lt: "length (content (pc_raw c2)) < length (content (pc_raw c))"
        using step(3,4) same(1,3) by simp_all
      show ?thesis
        using less.hyps [OF lt step(2)] unfolding eq cc .
    qed
  qed
qed

end

section \<open>Reading returns, whatever bytes arrive\<close>

context duplex
begin

text \<open>A connection between two reads, at any point of a frame, whatever bytes follow.\<close>

definition conn_live :: "'c Conn \<Rightarrow> bool" where
  "conn_live c \<longleftrightarrow> readable (pc_raw c) \<and> pc_readStage c \<le> 2
     \<and> (pc_readStage c = 1 \<longrightarrow> 0 < pc_readPadLen c) \<and> (pc_readStage c = 2 \<longrightarrow> 0 < pc_readPayloadLen c)"

lemma readFrameStage_returns:
  assumes "conn_live c"
  shows "\<exists>c' err. readFrameStage read c = Some (c', err) \<and> conn_live c'
    \<and> (err = None \<longrightarrow> length (content (pc_raw c')) < length (content (pc_raw c)))"
proof -
  have raw: "readable (pc_raw c)" using assms by (simp add: conn_live_def)
  define n where "n = (if pc_readStage c = 0 then 5 else if pc_readStage c = 1 then unat (pc_readPadLen c) else unat (pc_readPayloadLen c))"
  have n: "0 < n" using assms by (auto simp: n_def conn_live_def unat_gt_0 word_gt_0)
  obtain raw' where raw': "ReadFull read n (pc_raw c) = Some (raw', read_outcome n (content (pc_raw c)))"
      "content raw' = drop n (content (pc_raw c))" "readable raw'"
    using ReadFull_outcome [OF raw] by blast
  have shorter: "read_outcome n (content (pc_raw c)) = Inr x \<Longrightarrow> length (content raw') < length (content (pc_raw c))" for x
    using n by (auto simp: raw'(2) read_outcome_def split: if_splits)
  consider "pc_readStage c = 0" | "pc_readStage c = 1" | "pc_readStage c = 2" using assms by (fastforce simp: conn_live_def)
  then show ?thesis
    using raw' shorter assms
    by cases (cases "read_outcome n (content (pc_raw c))"; force simp: n_def readFrameStage_def conn_live_def Let_def)+
qed

lemma Conn_Read_returns:
  assumes "conn_live c" and "0 < n"
  shows "\<exists>c' bs err. Conn_Read read wr n c = Some (c', bs, err) \<and> conn_live c' \<and> (err = None \<longrightarrow> bs \<noteq> [])"
  using assms(1)
proof (induction "length (content (pc_raw c))" arbitrary: c rule: less_induct)
  case less
  let ?idle = "pc_readStage c = 0 \<and> pc_readBuf c = [] \<and> pc_readPayloadLen c = 0 \<and> pc_readPadLen c = 0"
  obtain c1 where ka: "(if ?idle then maybeKeepAlive wr c else Some c) = Some c1" "conn_live c1" "content (pc_raw c1) = content (pc_raw c)"
    using maybeKeepAlive_spec [of c] less.prems by (cases ?idle) (auto simp: conn_live_def nextDraw_def)
  note unf = Conn_Read.simps [of read wr n c] ka(1)
  show ?case
  proof (cases "pc_readBuf c1 = []")
    case False
    with ka(2) assms(2) show ?thesis unfolding unf by (simp add: conn_live_def)
  next
    case True
    obtain c2 err where c2: "readFrameStage read c1 = Some (c2, err)" "conn_live c2"
        "err = None \<longrightarrow> length (content (pc_raw c2)) < length (content (pc_raw c1))"
      using readFrameStage_returns [OF ka(2)] by blast
    show ?thesis
    proof (cases err)
      case None
      with less.hyps [of c2] c2 ka(3) True show ?thesis unfolding unf by simp
    next
      case (Some e)
      with c2 True show ?thesis unfolding unf by simp
    qed
  qed
qed

end

locale padded_conn = duplex read content readable wr sent writable
  for read :: "'c reader" and content :: "'c \<Rightarrow> bytes" and readable :: "'c \<Rightarrow> bool"
    and wr :: "'c writer" and sent :: "'c \<Rightarrow> bytes" and writable :: "'c \<Rightarrow> bool"

sublocale padded_conn \<subseteq> conn_out: byte_sink "Conn_Write wr" conn_sent conn_writable
  by unfold_locales (rule Conn_Write_spec)

sublocale padded_conn \<subseteq> conn_in: byte_source "Conn_Read read wr" conn_content conn_readable
proof unfold_locales
  fix c :: "'c Conn" and n :: nat
  assume c: "conn_readable c" "0 < n"
  show "\<exists>c' bs. Conn_Read read wr n c = Some (c', bs, None) \<and> bs \<noteq> [] \<and> length bs \<le> n
      \<and> conn_content c = bs @ conn_content c' \<and> conn_readable c'" if "conn_content c \<noteq> []"
    using Conn_Read_spec [OF c] that by auto
  show "\<exists>c'. Conn_Read read wr n c = Some (c', [], Some EOF) \<and> conn_content c' = [] \<and> conn_readable c'"
    if "conn_content c = []"
    using Conn_Read_spec [OF c] that by auto
qed

interpretation padded: padded_conn stream_read stream_content stream_readable stream_write st_sent "\<lambda>_. True"
  by unfold_locales

section \<open>What reading sends\<close>

lemma Conn_Read_rel:
  assumes keep: "\<And>c c'. pc_readPayloadLen c = 0 \<Longrightarrow> pc_readPadLen c = 0 \<Longrightarrow> maybeKeepAlive wr c = Some c' \<Longrightarrow> R c c'"
    and stage: "\<And>c c' err. readFrameStage read c = Some (c', err) \<Longrightarrow> R c c'"
    and buf: "\<And>c b. R c (c\<lparr>pc_readBuf := b\<rparr>)" and trans: "\<And>a b c. R a b \<Longrightarrow> R b c \<Longrightarrow> R a c"
  shows "Conn_Read read wr n c = Some (c', bs, err) \<Longrightarrow> R c c'"
proof -
  have refl: "R c c" for c using buf [of c "pc_readBuf c"] by simp
  have "Conn_Read rd w n c = Some y \<Longrightarrow> rd = read \<and> w = wr \<longrightarrow> R c (fst y)" for rd w n c y
  proof (erule Conn_Read.raw_induct [where P = "\<lambda>rd w n c y. rd = read \<and> w = wr \<longrightarrow> R c (fst y)", rotated], goal_cases)
    case (1 F rd w n c y)
    show ?case
    proof (intro impI)
      assume eq: "rd = read \<and> w = wr"
      let ?keep = "if pc_readStage c = 0 \<and> pc_readBuf c = [] \<and> pc_readPayloadLen c = 0 \<and> pc_readPadLen c = 0 then maybeKeepAlive wr c else Some c"
      from 1(2) eq obtain c1 where pre: "?keep = Some c1" and rest: "(if pc_readBuf c1 \<noteq> []
          then Some (c1\<lparr>pc_readBuf := drop n (pc_readBuf c1)\<rparr>, take n (pc_readBuf c1), None)
          else Option.bind (readFrameStage read c1) (\<lambda>(c2, err). case err of Some e \<Rightarrow> Some (c2, [], Some e) | None \<Rightarrow> F read wr n c2)) = Some y"
        by (simp only: bind_eq_Some_conv) blast
      from pre have c1: "R c c1" by (auto intro: refl keep split: if_split_asm)
      have "R c1 (fst y)"
      proof (cases "pc_readBuf c1 = []")
        case False
        with rest buf show ?thesis by auto
      next
        case True
        with rest obtain c2 e2 where c2: "readFrameStage read c1 = Some (c2, e2)"
          and y: "(case e2 of Some e \<Rightarrow> Some (c2, [], Some e) | None \<Rightarrow> F read wr n c2) = Some y"
          by (auto simp: bind_eq_Some_conv)
        have "R c2 (fst y)" using 1(1) [of read wr n c2 y] y refl by (cases e2) auto
        with stage [OF c2] show ?thesis by (rule trans)
      qed
      with c1 show "R c (fst y)" by (rule trans)
    qed
  qed
  from this [of read wr n c "(c', bs, err)"] show "Conn_Read read wr n c = Some (c', bs, err) \<Longrightarrow> R c c'" by simp
qed

text \<open>On a connection that takes everything, reading sends nothing but whole frames without payload.\<close>

definition only_padding :: "stream Conn \<Rightarrow> stream Conn \<Rightarrow> bool" where
  "only_padding c c' \<longleftrightarrow> (st_room (pc_raw c) = None \<longrightarrow> st_room (pc_raw c') = None
     \<and> (\<exists>pads. st_sent (pc_raw c') = st_sent (pc_raw c) @ pads \<and> framed pads \<and> deframe pads = []))"

lemma only_padding_trans: "only_padding a b \<Longrightarrow> only_padding b c \<Longrightarrow> only_padding a c"
proof -
  assume ab: "only_padding a b" and bc: "only_padding b c"
  show "only_padding a c"
    unfolding only_padding_def
  proof
    assume "st_room (pc_raw a) = None"
    with ab obtain p1 where p1: "st_room (pc_raw b) = None" "st_sent (pc_raw b) = st_sent (pc_raw a) @ p1" "framed p1" "deframe p1 = []"
      by (auto simp: only_padding_def)
    with bc obtain p2 where p2: "st_room (pc_raw c) = None" "st_sent (pc_raw c) = st_sent (pc_raw b) @ p2" "framed p2" "deframe p2 = []"
      by (auto simp: only_padding_def)
    have "framed (p1 @ p2)" "deframe (p1 @ p2) = []" using framed_append [OF p1(3)] p1(4) p2(3,4) by simp_all
    with p1(2) p2(1,2) show "st_room (pc_raw c) = None
        \<and> (\<exists>pads. st_sent (pc_raw c) = st_sent (pc_raw a) @ pads \<and> framed pads \<and> deframe pads = [])"
      by (metis append_assoc)
  qed
qed

lemma readFrameStage_keeps:
  "readFrameStage stream_read c = Some (c', err) \<Longrightarrow> st_sent (pc_raw c') = st_sent (pc_raw c) \<and> st_room (pc_raw c') = st_room (pc_raw c)
    \<and> pc_rand c' = pc_rand c \<and> pc_policy c' = pc_policy c \<and> pc_framesSent c' = pc_framesSent c"
proof -
  assume run: "readFrameStage stream_read c = Some (c', err)"
  let ?k = "if pc_readStage c = 0 then 5 else if pc_readStage c = 1 then unat (pc_readPadLen c) else unat (pc_readPayloadLen c)"
  show "st_sent (pc_raw c') = st_sent (pc_raw c) \<and> st_room (pc_raw c') = st_room (pc_raw c)
    \<and> pc_rand c' = pc_rand c \<and> pc_policy c' = pc_policy c \<and> pc_framesSent c' = pc_framesSent c"
  proof (cases "pc_readStage c \<le> 2")
    case False
    with run show ?thesis by (simp add: readFrameStage_def)
  next
    case True
    with run obtain raw res where full: "ReadFull stream_read ?k (pc_raw c) = Some (raw, res)"
      by (cases "ReadFull stream_read ?k (pc_raw c)") (auto simp: readFrameStage_def split: if_split_asm)
    from stream_ReadFull_keeps [OF full] full run show ?thesis
      by (cases res) (auto simp: readFrameStage_def Let_def split: if_split_asm)
  qed
qed

lemma maybeKeepAlive_only_padding: "maybeKeepAlive stream_write c = Some c' \<Longrightarrow> only_padding c c'"
proof -
  assume run: "maybeKeepAlive stream_write c = Some c'"
  define d where "d = pc_rand c 0"
  define pl where "pl = randInt (d_len d) (MaxPadding (pc_policy c))"
  have "framed (frameHeader FramePaddingOnly 0 pl @ padBytes d pl)" "deframe (frameHeader FramePaddingOnly 0 pl @ padBytes d pl) = []"
    using deframe_frame(2) [of "padBytes d pl" pl "[]" 0 FramePaddingOnly]
      deframe_frame(1) [of "padBytes d pl" pl "[]" 0 "5 + unat pl" FramePaddingOnly] by simp_all
  moreover have "pl = 0 \<Longrightarrow> padBytes d pl = []" by (simp add: padBytes_def)
  moreover have "st_room (pc_raw c) = None \<Longrightarrow> st_room (pc_raw c') = None \<and>
      (st_sent (pc_raw c') = st_sent (pc_raw c) \<or> st_sent (pc_raw c') = st_sent (pc_raw c) @ frameHeader FramePaddingOnly 0 pl @ (if 0 < pl then padBytes d pl else []))"
    using run by (auto simp: maybeKeepAlive_def Let_def d_def [symmetric] pl_def nextDraw_def stream_write_def split: if_splits)
  ultimately show "only_padding c c'"
    unfolding only_padding_def by (auto simp: word_gt_0 intro: exI [of _ "[]"])
qed

lemma Conn_Read_only_padding: "Conn_Read stream_read stream_write n c = Some (c', bs, err) \<Longrightarrow> only_padding c c'"
  by (rule Conn_Read_rel [of stream_write only_padding stream_read])
     (erule maybeKeepAlive_only_padding, drule readFrameStage_keeps, simp add: only_padding_def,
      simp add: only_padding_def, erule only_padding_trans, assumption)

lemma only_padding_refl: "only_padding c c"
  by (simp add: only_padding_def)

lemma readers_only_padding:
  "ReadSessionResponse (Conn_Read stream_read stream_write) c = Some (c', h) \<Longrightarrow> only_padding c c'"
  "ReadTargetConnect (Conn_Read stream_read stream_write) c = Some (c', ta) \<Longrightarrow> only_padding c c'"
proof -
  note rel = readers_rel [of "Conn_Read stream_read stream_write" only_padding]
  show "ReadSessionResponse (Conn_Read stream_read stream_write) c = Some (c', h) \<Longrightarrow> only_padding c c'"
    by (rule rel(2)) (erule Conn_Read_only_padding, rule only_padding_refl, erule only_padding_trans, assumption+)
  show "ReadTargetConnect (Conn_Read stream_read stream_write) c = Some (c', ta) \<Longrightarrow> only_padding c c'"
    by (rule rel(4)) (erule Conn_Read_only_padding, rule only_padding_refl, erule only_padding_trans, assumption+)
qed










section \<open>Properties\<close>

text \<open>A new connection.\<close>

lemma New_simps:
  "pc_raw (New tape raw p) = raw" "pc_readBuf (New tape raw p) = []" "pc_readStage (New tape raw p) = 0"
  "stream_io.inFrame (New tape s p) = (0, 0)"
  by (simp_all add: New_def stream_io.inFrame_def)

lemma New_content: "stream_io.conn_content (New tape s p) = deframe (stream_content s)"
  by (simp add: stream_io.conn_content_def New_simps)

lemma New_readable: "stream_readable s \<Longrightarrow> framed (stream_content s) \<Longrightarrow> stream_io.conn_readable (New tape s p)"
  by (simp add: stream_io.conn_readable_def New_simps)

text \<open>A connection without a limit takes everything; what goes out are whole frames with that payload.\<close>

definition sentFrames :: "bytes \<Rightarrow> int \<Rightarrow> (nat \<Rightarrow> dice) \<Rightarrow> stream Conn \<Rightarrow> stream Conn" where
  "sentFrames out frames tape c =
     c\<lparr>pc_raw := (pc_raw c)\<lparr>st_sent := st_sent (pc_raw c) @ out\<rparr>, pc_framesSent := frames, pc_rand := tape\<rparr>"

lemma writeFrame_unlimited:
  assumes "st_room (pc_raw c) = None" and "length chunk \<le> 65535"
  shows "\<exists>out f t. writeFrame stream_write chunk c = Some (sentFrames out f t c, length chunk, None) \<and> framed out \<and> deframe out = chunk"
proof -
  define d where "d = pc_rand c 0"
  obtain t pd where ch: "chooseFrame d (nextDraw c) = (t, pd)" by fastforce
  let ?hdr = "frameHeader t (of_nat (length chunk)) pd" and ?pad = "padBytes d pd"
  have len: "length chunk = unat (of_nat (length chunk) :: 16 word)" using assms(2) by (simp add: unat_of_nat16)
  have "framed (?hdr @ ?pad @ chunk)" by (rule deframe_frame(2) [OF _ len]) simp
  moreover have "deframe (?hdr @ ?pad @ chunk) = chunk"
    using deframe_frame(1) [OF _ len, of ?pad pd "5 + unat pd + length chunk" t] by simp
  moreover have "pd = 0 \<Longrightarrow> ?pad = []" by (simp add: padBytes_def)
  then have "writeFrame stream_write chunk c = Some (sentFrames (?hdr @ ?pad @ chunk) (pc_framesSent c + 1) (\<lambda>i. pc_rand c (i + 1)) c, length chunk, None)"
    using assms(1) ch by (auto simp: writeFrame_def stream_write_def nextDraw_def sentFrames_def word_gt_0 d_def Let_def)
  ultimately show ?thesis by blast
qed

lemma sentFrames_simps [simp]:
  "st_room (pc_raw (sentFrames out f t c)) = st_room (pc_raw c)" "st_sent (pc_raw (sentFrames out f t c)) = st_sent (pc_raw c) @ out"
  "stream_content (pc_raw (sentFrames out f t c)) = stream_content (pc_raw c)"
  "sentFrames out2 f2 t2 (sentFrames out f t c) = sentFrames (out @ out2) f2 t2 c"
  by (simp_all add: sentFrames_def stream_content_def)

lemma sentFrames_reading:
  "stream_io.conn_content (sentFrames out f t c) = stream_io.conn_content c"
  "stream_io.conn_readable (sentFrames out f t c) = stream_io.conn_readable c"
  by (simp_all add: sentFrames_def stream_io.conn_content_def stream_io.conn_readable_def stream_io.inFrame_def
      stream_content_def stream_readable_def)

lemma Conn_Write_frames:
  "st_room (pc_raw c) = None \<Longrightarrow>
   \<exists>out f t. Conn_Write stream_write b c = Some (sentFrames out f t c, length b, None) \<and> framed out \<and> deframe out = b"
proof (induction "length b" arbitrary: b c rule: less_induct)
  case less
  show ?case
  proof (cases "b = []")
    case True
    have "sentFrames [] (pc_framesSent c) (pc_rand c) c = c" by (simp add: sentFrames_def)
    with True show ?thesis
      by (intro exI [of _ "[]"] exI [of _ "pc_framesSent c"] exI [of _ "pc_rand c"]) (simp add: Conn_Write.simps)
  next
    case False
    let ?n = "length (take 65535 b)"
    obtain o1 f1 t1 where f: "writeFrame stream_write (take 65535 b) c = Some (sentFrames o1 f1 t1 c, ?n, None)" "framed o1" "deframe o1 = take 65535 b"
      using writeFrame_unlimited [OF less.prems, of "take 65535 b"] by auto
    have "length (drop ?n b) < length b" using False by simp
    from less.hyps [OF this, of "sentFrames o1 f1 t1 c"] less.prems obtain o2 f2 t2 where
      r: "Conn_Write stream_write (drop ?n b) (sentFrames o1 f1 t1 c) = Some (sentFrames (o1 @ o2) f2 t2 c, length (drop ?n b), None)"
        "framed o2" "deframe o2 = drop ?n b"
      by auto
    have "Conn_Write stream_write b c = Some (sentFrames (o1 @ o2) f2 t2 c, ?n + length (drop ?n b), None)"
      using f(1) r(1) False by (subst Conn_Write.simps) simp
    moreover have "framed (o1 @ o2)" "deframe (o1 @ o2) = b"
      using framed_append [OF f(2)] f(3) r(2,3) by (simp_all add: min_def)
    ultimately show ?thesis by (intro exI conjI) auto
  qed
qed

lemma Conn_Write_unlimited:
  assumes "st_room (pc_raw c) = None"
  shows "\<exists>c'. Conn_Write stream_write b c = Some (c', length b, None) \<and> st_room (pc_raw c') = None"
  using Conn_Write_frames [OF assms, of b] assms by auto

text \<open>C20 (roundtrip). Whatever padding the two sides choose and however the network cuts the
  stream, a message of any length that \<open>Write\<close> takes arrives byte for byte through \<open>Read\<close>, with
  nothing left over; \<open>Write\<close> takes all of it when the connection does not fail.\<close>

theorem padstream_roundtrip:
  assumes "concat segs = st_sent (pc_raw c')" and "[] \<notin> set segs"
    and "Conn_Write stream_write b (New tape \<lparr>st_segments = [], st_sent = [], st_room = None\<rparr> p) = Some (c', n, err)"
  shows "n = length b \<and> err = None
    \<and> (\<exists>r. ReadFull (Conn_Read stream_read stream_write) (length b)
          (New tape' \<lparr>st_segments = segs, st_sent = sent', st_room = room'\<rparr> p') = Some (r, Inr b)
        \<and> stream_io.conn_content r = [])"
proof -
  let ?w = "New tape \<lparr>st_segments = [], st_sent = [], st_room = None\<rparr> p"
  let ?s = "\<lparr>st_segments = segs, st_sent = sent', st_room = room'\<rparr>"
  have ok: "n = length b" "err = None"
    using Conn_Write_unlimited [of ?w b] assms(3) by (auto simp: New_simps)
  have "stream_out.conn_writable ?w" "stream_out.conn_sent ?w = []"
    by (simp_all add: stream_out.conn_writable_def stream_out.conn_sent_def New_simps)
  then have w: "deframe (st_sent (pc_raw c')) = b" "framed (st_sent (pc_raw c'))"
    using padded.conn_out.write_ok [of ?w b c' n] assms(3) ok
    by (auto simp: stream_out.conn_sent_def stream_out.conn_writable_def)
  have s: "stream_content ?s = st_sent (pc_raw c')" "stream_readable ?s"
    using assms(1,2) by (simp_all add: stream_content_def stream_readable_def)
  have "stream_io.conn_readable (New tape' ?s p')" and "stream_io.conn_content (New tape' ?s p') = b"
    using New_readable [of ?s] New_content [of tape' ?s p'] s w by simp_all
  then show ?thesis
    using padded.conn_in.ReadFull_ok [of "New tape' ?s p'" "length b"] ok by auto
qed

definition ex_tape :: "nat \<Rightarrow> dice" where
  "ex_tape i = \<lparr>d_len = 2, d_chance = 99, d_pad = (\<lambda>k. of_nat k)\<rparr>"

lemma ex_Conn_Write:
  "map_option (\<lambda>(c, n, err). (st_sent (pc_raw c), n, err))
     (Conn_Write stream_write [7, 8, 9] (New ex_tape \<lparr>st_segments = [], st_sent = [], st_room = None\<rparr> DefaultPolicy))
   = Some ([1, 0, 3, 0, 2, 0, 1, 7, 8, 9], 3, None)"
  by (simp add: Conn_Write.simps writeFrame_def New_def nextDraw_def chooseFrame_def DefaultPolicy_def ex_tape_def
      randInt_def stream_write_def padBytes_def frameHeader_def FrameDataWithPad_def Let_def upt_rec)
     code_simp

theorem padstream_roundtrip_witness:
  "\<exists>r. ReadFull (Conn_Read stream_read stream_write) 3
     (New ex_tape \<lparr>st_segments = [[1, 0, 3, 0], [2, 0, 1, 7, 8], [9]], st_sent = [], st_room = Some 0\<rparr> DefaultPolicy)
     = Some (r, Inr [7, 8, 9])"
proof -
  obtain c' where
    "Conn_Write stream_write [7, 8, 9] (New ex_tape \<lparr>st_segments = [], st_sent = [], st_room = None\<rparr> DefaultPolicy) = Some (c', 3, None)"
    "st_sent (pc_raw c') = [1, 0, 3, 0, 2, 0, 1, 7, 8, 9]"
    using ex_Conn_Write by auto
  then show ?thesis
    using padstream_roundtrip [of "[[1, 0, 3, 0], [2, 0, 1, 7, 8], [9]]" c' "[7, 8, 9]" ex_tape DefaultPolicy 3 None
        ex_tape "[]" "Some 0" DefaultPolicy] by (auto simp: numeral_eq_Suc)
qed





end
