(* ===== verification/Relay.thy ===== *)
theory Relay
  imports Go_Io
begin

text \<open>
  The copying of bytes between two connections: \<open>Relay\<close> of \<open>internal/chimera/chimera.go\<close> and
  \<open>relayH3Stream\<close> of \<open>internal/quicx/server.go\<close>.

  Both start two goroutines that run \<open>io.Copy\<close>, one for each direction, and wait for the first
  to end; then they make every read and write on both connections fail (\<open>Relay\<close> closes them,
  \<open>relayH3Stream\<close> sets a deadline in the past), wait for the second and finish. A step is one round
  of one \<open>io.Copy\<close>, with what its \<open>Read\<close> and \<open>Write\<close> return, or one statement of the function itself.
  A \<open>Read\<close> that does not return is a step that is not taken. \<open>io_round\<close> says what is relied on: a
  \<open>Read\<close> that returns has bytes or an error, a \<open>Write\<close> takes no more than it was given, and both
  fail without moving a byte once the connection is closed or its deadline has passed.

  Lemmas: \<open>relay_inv\<close> holds in every state that can be reached.
\<close>

section \<open>One direction\<close>

text \<open>What went through one \<open>io.Copy\<close> so far: the bytes its reads returned, the bytes its writes took.\<close>

record copier =
  cp_read :: bytes
  cp_written :: bytes
  cp_running :: bool
  cp_err :: "io_error option"

datatype round = Round bytes "io_error option" nat "io_error option"

definition newCopier :: copier where
  "newCopier = \<lparr>cp_read = [], cp_written = [], cp_running = True, cp_err = None\<rparr>"

definition stopCopier :: "io_error option \<Rightarrow> copier \<Rightarrow> copier" where
  "stopCopier err c = c\<lparr>cp_running := False, cp_err := err\<rparr>"

text \<open>One round of the loop of \<open>io.Copy\<close>: what was read is written, a write error or a short write ends
  the loop, then a read error does; an end of file is no error.\<close>

fun copyRound :: "round \<Rightarrow> copier \<Rightarrow> copier" where
  "copyRound (Round bs rerr nw werr) c =
     (let c1 = c\<lparr>cp_read := cp_read c @ bs, cp_written := cp_written c @ take nw bs\<rparr> in
      if bs \<noteq> [] \<and> werr \<noteq> None then stopCopier werr c1
      else if bs \<noteq> [] \<and> nw \<noteq> length bs then stopCopier (Some IoFailed) c1
      else case rerr of
          None \<Rightarrow> c1
        | Some e \<Rightarrow> stopCopier (if e = EOF then None else Some e) c1)"

fun io_round :: "bool \<Rightarrow> bool \<Rightarrow> round \<Rightarrow> bool" where
  "io_round srcDead dstDead (Round bs rerr nw werr) =
     ((bs \<noteq> [] \<or> rerr \<noteq> None) \<and> nw \<le> length bs
      \<and> (srcDead \<longrightarrow> bs = [] \<and> rerr \<noteq> None) \<and> (dstDead \<longrightarrow> nw = 0 \<and> werr \<noteq> None))"

section \<open>The two functions\<close>

text \<open>\<open>FirstDone\<close>, \<open>SecondDone\<close>: at the first and the second receive from \<open>done\<close>.\<close>

datatype relay_pc = FirstDone | SecondDone | ClosingA | ClosingB | Finishing | Returned

record relay =
  rl_fromA :: copier
  rl_fromB :: copier
  rl_done :: nat
  rl_pc :: relay_pc
  rl_deadA :: bool
  rl_deadB :: bool
  rl_closedA :: bool
  rl_closedB :: bool

definition startRelay :: relay where
  "startRelay = \<lparr>rl_fromA = newCopier, rl_fromB = newCopier, rl_done = 0, rl_pc = FirstDone,
     rl_deadA = False, rl_deadB = False, rl_closedA = False, rl_closedB = False\<rparr>"

definition receiveDone :: "relay_pc \<Rightarrow> relay \<Rightarrow> relay option" where
  "receiveDone next r = (if 0 < rl_done r then Some (r\<lparr>rl_done := rl_done r - 1, rl_pc := next\<rparr>) else None)"

text \<open>\<open>Relay\<close>: \<open>A\<close> and \<open>B\<close> are its arguments. \<open>None\<close>: the statement waits.\<close>

definition Relay_main :: "relay \<Rightarrow> relay option" where
  "Relay_main r =
     (case rl_pc r of
        FirstDone \<Rightarrow> receiveDone ClosingA r
      | SecondDone \<Rightarrow> receiveDone Finishing r
      | ClosingA \<Rightarrow> Some (r\<lparr>rl_deadA := True, rl_closedA := True, rl_pc := ClosingB\<rparr>)
      | ClosingB \<Rightarrow> Some (r\<lparr>rl_deadB := True, rl_closedB := True, rl_pc := SecondDone\<rparr>)
      | Finishing \<Rightarrow> Some (r\<lparr>rl_pc := Returned\<rparr>)
      | Returned \<Rightarrow> None)"

text \<open>\<open>relayH3Stream\<close>: \<open>A\<close> is the stream, \<open>B\<close> the target, which its caller closes.\<close>

definition relayH3Stream_main :: "relay \<Rightarrow> relay option" where
  "relayH3Stream_main r =
     (case rl_pc r of
        FirstDone \<Rightarrow> receiveDone ClosingA r
      | SecondDone \<Rightarrow> receiveDone Finishing r
      | ClosingA \<Rightarrow> Some (r\<lparr>rl_deadA := True, rl_pc := ClosingB\<rparr>)
      | ClosingB \<Rightarrow> Some (r\<lparr>rl_deadB := True, rl_pc := SecondDone\<rparr>)
      | Finishing \<Rightarrow> Some (r\<lparr>rl_closedA := True, rl_pc := Returned\<rparr>)
      | Returned \<Rightarrow> None)"

text \<open>A goroutine that ends its \<open>io.Copy\<close> reports it on \<open>done\<close>.\<close>

definition report :: "copier \<Rightarrow> relay \<Rightarrow> relay" where
  "report c r = (if cp_running c then r else r\<lparr>rl_done := rl_done r + 1\<rparr>)"

inductive relay_step :: "(relay \<Rightarrow> relay option) \<Rightarrow> relay \<Rightarrow> relay \<Rightarrow> bool" for main :: "relay \<Rightarrow> relay option" where
  fromA: "cp_running (rl_fromA r) \<Longrightarrow> io_round (rl_deadA r) (rl_deadB r) rd \<Longrightarrow> c = copyRound rd (rl_fromA r) \<Longrightarrow>
    relay_step main r (report c (r\<lparr>rl_fromA := c\<rparr>))"
| fromB: "cp_running (rl_fromB r) \<Longrightarrow> io_round (rl_deadB r) (rl_deadA r) rd \<Longrightarrow> c = copyRound rd (rl_fromB r) \<Longrightarrow>
    relay_step main r (report c (r\<lparr>rl_fromB := c\<rparr>))"
| main: "main r = Some r' \<Longrightarrow> relay_step main r r'"

section \<open>The invariant\<close>

text \<open>How often the function has received from \<open>done\<close>.\<close>

fun received :: "relay_pc \<Rightarrow> nat" where
  "received FirstDone = 0"
| "received SecondDone = 1"
| "received ClosingA = 1"
| "received ClosingB = 1"
| "received Finishing = 2"
| "received Returned = 2"

definition copier_ok :: "copier \<Rightarrow> bool" where
  "copier_ok c \<longleftrightarrow> (\<exists>lost. cp_read c = cp_written c @ lost \<and> (cp_running c \<or> cp_err c = None \<longrightarrow> lost = []))"

definition ended :: "copier \<Rightarrow> nat" where
  "ended c = (if cp_running c then 0 else 1)"

definition relay_inv :: "relay \<Rightarrow> bool" where
  "relay_inv r \<longleftrightarrow> copier_ok (rl_fromA r) \<and> copier_ok (rl_fromB r)
     \<and> rl_done r + received (rl_pc r) = ended (rl_fromA r) + ended (rl_fromB r)
     \<and> rl_deadA r = (rl_pc r \<notin> {FirstDone, ClosingA}) \<and> rl_deadB r = (rl_pc r \<notin> {FirstDone, ClosingA, ClosingB})"

lemma take_prefix [simp]: "\<exists>lost. xs = take n xs @ lost"
  by (metis append_take_drop_id)

lemma copyRound_ok:
  assumes "copier_ok c" and "cp_running c" and "io_round dead dead' rd"
  shows "copier_ok (copyRound rd c)"
  using assms by (cases rd) (auto simp: copier_ok_def stopCopier_def Let_def split: option.splits)

lemma copyRound_running: "cp_running c \<Longrightarrow> io_round True dead rd \<Longrightarrow> \<not> cp_running (copyRound rd c)"
  by (cases rd) (auto simp: stopCopier_def Let_def split: option.splits)

text \<open>What the two functions have in common.\<close>

definition relay_main :: "bool \<Rightarrow> relay \<Rightarrow> relay option" where
  "relay_main closes r =
     (case rl_pc r of
        FirstDone \<Rightarrow> receiveDone ClosingA r
      | SecondDone \<Rightarrow> receiveDone Finishing r
      | ClosingA \<Rightarrow> Some (r\<lparr>rl_deadA := True, rl_closedA := closes \<or> rl_closedA r, rl_pc := ClosingB\<rparr>)
      | ClosingB \<Rightarrow> Some (r\<lparr>rl_deadB := True, rl_closedB := closes \<or> rl_closedB r, rl_pc := SecondDone\<rparr>)
      | Finishing \<Rightarrow> Some (r\<lparr>rl_closedA := \<not> closes \<or> rl_closedA r, rl_pc := Returned\<rparr>)
      | Returned \<Rightarrow> None)"

lemma relay_main_eq: "Relay_main = relay_main True" "relayH3Stream_main = relay_main False"
  by (auto simp: fun_eq_iff Relay_main_def relayH3Stream_main_def relay_main_def split: relay_pc.split)

lemma relay_main_inv: "relay_inv r \<Longrightarrow> relay_main closes r = Some r' \<Longrightarrow> relay_inv r'"
  by (cases "rl_pc r"; simp add: relay_main_def receiveDone_def split: if_splits; erule subst; simp add: relay_inv_def)

lemma relay_step_inv:
  assumes inv: "relay_inv r" and step: "relay_step (relay_main closes) r r'"
  shows "relay_inv r'"
  using step
proof (cases rule: relay_step.cases)
  case (fromA rd c)
  then have "ended c = 0 \<and> cp_running c \<or> ended c = 1 \<and> \<not> cp_running c" "ended (rl_fromA r) = 0" "copier_ok c"
    using inv copyRound_ok by (auto simp: ended_def relay_inv_def)
  with inv show ?thesis by (elim disjE) (simp_all add: fromA(1) relay_inv_def report_def)
next
  case (fromB rd c)
  then have "ended c = 0 \<and> cp_running c \<or> ended c = 1 \<and> \<not> cp_running c" "ended (rl_fromB r) = 0" "copier_ok c"
    using inv copyRound_ok by (auto simp: ended_def relay_inv_def)
  with inv show ?thesis by (elim disjE) (simp_all add: fromB(1) relay_inv_def report_def)
next
  case main
  with inv show ?thesis by (rule relay_main_inv)
qed

lemma relay_reachable:
  assumes "(relay_step (relay_main closes))\<^sup>*\<^sup>* startRelay r"
  shows "relay_inv r"
  using assms
proof (induction rule: rtranclp_induct)
  case base
  show ?case by (simp add: relay_inv_def startRelay_def newCopier_def copier_ok_def ended_def)
qed (rule relay_step_inv)

text \<open>What is closed when.\<close>

definition closed_ok :: "bool \<Rightarrow> relay \<Rightarrow> bool" where
  "closed_ok closes r \<longleftrightarrow> (rl_pc r = Returned \<longrightarrow> rl_closedA r) \<and> (closes \<longrightarrow> rl_deadA r = rl_closedA r \<and> rl_deadB r = rl_closedB r)"

lemma relay_main_closed: "relay_inv r \<Longrightarrow> closed_ok closes r \<Longrightarrow> relay_main closes r = Some r' \<Longrightarrow> closed_ok closes r'"
  by (cases "rl_pc r"; simp add: relay_main_def receiveDone_def split: if_splits; erule subst; simp add: relay_inv_def closed_ok_def)

lemma relay_closed:
  assumes "(relay_step (relay_main closes))\<^sup>*\<^sup>* startRelay r"
  shows "closed_ok closes r"
  using assms
proof (induction rule: rtranclp_induct)
  case base
  show ?case by (simp add: startRelay_def closed_ok_def)
next
  case (step r r')
  have inv: "relay_inv r" by (rule relay_reachable [OF step.hyps(1)])
  from step.hyps(2) show ?case
  proof (cases rule: relay_step.cases)
    case main
    with inv step.IH show ?thesis by (rule relay_main_closed)
  qed (use step.IH in \<open>simp_all add: closed_ok_def report_def\<close>)
qed

section \<open>Ending\<close>

text \<open>The statements that are left, counting the end of a copy as one.\<close>

fun relay_rank_pc :: "relay_pc \<Rightarrow> nat" where
  "relay_rank_pc FirstDone = 5"
| "relay_rank_pc ClosingA = 4"
| "relay_rank_pc ClosingB = 3"
| "relay_rank_pc SecondDone = 2"
| "relay_rank_pc Finishing = 1"
| "relay_rank_pc Returned = 0"

definition relay_rank :: "relay \<Rightarrow> nat" where
  "relay_rank r = relay_rank_pc (rl_pc r) + (2 - (ended (rl_fromA r) + ended (rl_fromB r)))"

lemma relay_main_rank:
  "relay_main closes r = Some r' \<Longrightarrow> relay_rank r' < relay_rank r \<and> rl_fromA r' = rl_fromA r \<and> rl_fromB r' = rl_fromB r"
  by (cases "rl_pc r"; simp add: relay_main_def receiveDone_def relay_rank_def split: if_splits; erule subst; simp)

lemma ended_simps [simp]: "ended c \<le> 1" "cp_running c \<Longrightarrow> ended c = 0" "\<not> cp_running c \<Longrightarrow> ended c = Suc 0"
  by (simp_all add: ended_def)

lemma report_simps [simp]:
  "rl_pc (report c r) = rl_pc r" "rl_fromA (report c r) = rl_fromA r" "rl_fromB (report c r) = rl_fromB r"
  by (simp_all add: report_def)

lemma dead_step_rank:
  assumes "rl_deadA r" and "rl_deadB r" and "relay_step (relay_main closes) r r'"
  shows "relay_rank r' < relay_rank r"
  using assms(3)
proof (cases rule: relay_step.cases)
  case (fromA rd c)
  then have "\<not> cp_running c" using assms(1) copyRound_running by auto
  with fromA ended_simps(1) [of "rl_fromB r"] show ?thesis by (simp add: relay_rank_def)
next
  case (fromB rd c)
  then have "\<not> cp_running c" using assms(2) copyRound_running by auto
  with fromB ended_simps(1) [of "rl_fromA r"] show ?thesis by (simp add: relay_rank_def)
next
  case main
  then show ?thesis by (simp add: relay_main_rank)
qed

text \<open>Once one direction has ended there is always a step that brings the function closer to its end.\<close>

lemma relay_progress:
  assumes inv: "relay_inv r" and pc: "rl_pc r \<noteq> Returned" and one: "0 < ended (rl_fromA r) + ended (rl_fromB r)"
  shows "\<exists>r'. relay_step (relay_main closes) r r' \<and> relay_rank r' < relay_rank r \<and> 0 < ended (rl_fromA r') + ended (rl_fromB r')"
proof (cases "relay_main closes r")
  case (Some r')
  with relay_step.main [where main = "relay_main closes", OF Some] relay_main_rank [OF Some] one show ?thesis by auto
next
  case None
  have tokens: "rl_done r + received (rl_pc r) = ended (rl_fromA r) + ended (rl_fromB r)" using inv by (simp add: relay_inv_def)
  have wait: "rl_pc r = SecondDone" "rl_done r = 0"
    using None pc one tokens by (cases "rl_pc r"; simp add: relay_main_def receiveDone_def split: if_splits)+
  then have dead: "rl_deadA r" "rl_deadB r" using inv by (auto simp: relay_inv_def)
  let ?rd = "Round [] (Some IoFailed) 0 (Some IoFailed)"
  have ends: "\<not> cp_running (copyRound ?rd c)" for c by (simp add: stopCopier_def)
  have "\<exists>r'. relay_step (relay_main closes) r r' \<and> 0 < ended (rl_fromA r') + ended (rl_fromB r')"
  proof (cases "cp_running (rl_fromA r)")
    case True
    from relay_step.fromA [where main = "relay_main closes", OF True, of ?rd, OF _ refl] dead ends
    show ?thesis by (intro exI conjI) (assumption | simp)+
  next
    case False
    with tokens wait have "cp_running (rl_fromB r)" by (cases "cp_running (rl_fromB r)") auto
    from relay_step.fromB [where main = "relay_main closes", OF this, of ?rd, OF _ refl] dead ends
    show ?thesis by (intro exI conjI) (assumption | simp)+
  qed
  with dead_step_rank [OF dead] show ?thesis by blast
qed

lemma relay_returns:
  assumes "relay_inv r" and "0 < ended (rl_fromA r) + ended (rl_fromB r)"
  shows "\<exists>r'. (relay_step (relay_main closes))\<^sup>*\<^sup>* r r' \<and> rl_pc r' = Returned"
  using assms
proof (induction "relay_rank r" arbitrary: r rule: less_induct)
  case less
  show ?case
  proof (cases "rl_pc r = Returned")
    case False
    obtain r1 where r1: "relay_step (relay_main closes) r r1" "relay_rank r1 < relay_rank r" "0 < ended (rl_fromA r1) + ended (rl_fromB r1)"
      using relay_progress [OF less.prems(1) False less.prems(2), of closes] by (elim exE conjE)
    with less.hyps [OF r1(2) relay_step_inv [OF less.prems(1) r1(1)] r1(3)]
    show ?thesis by (metis converse_rtranclp_into_rtranclp)
  qed blast
qed

section \<open>Properties\<close>

text \<open>C14 (liveness). Both ways of relaying, whatever the reads and writes return and in whatever order the
  two copies run: what was written to each side is, in order and without gaps, what was read from
  the other, all of it as long as no error has ended the copy. Once one direction has ended the
  function can always go on to its return; when both connections have been made to fail, every
  step brings the return closer; and when it has returned both copies have ended, the client's side
  is closed and, for \<open>Relay\<close>, the other one too.\<close>

theorem relay_correct:
  assumes "main = Relay_main \<or> main = relayH3Stream_main" and "(relay_step main)\<^sup>*\<^sup>* startRelay r"
  shows "(\<exists>lost. cp_read (rl_fromA r) = cp_written (rl_fromA r) @ lost \<and> (cp_running (rl_fromA r) \<or> cp_err (rl_fromA r) = None \<longrightarrow> lost = []))
    \<and> (\<exists>lost. cp_read (rl_fromB r) = cp_written (rl_fromB r) @ lost \<and> (cp_running (rl_fromB r) \<or> cp_err (rl_fromB r) = None \<longrightarrow> lost = []))
    \<and> rl_done r \<le> 2
    \<and> (\<not> cp_running (rl_fromA r) \<or> \<not> cp_running (rl_fromB r) \<longrightarrow> (\<exists>r'. (relay_step main)\<^sup>*\<^sup>* r r' \<and> rl_pc r' = Returned))
    \<and> (\<forall>r'. rl_deadA r \<and> rl_deadB r \<and> relay_step main r r' \<longrightarrow> relay_rank r' < relay_rank r)
    \<and> (rl_pc r = Returned \<longrightarrow> \<not> cp_running (rl_fromA r) \<and> \<not> cp_running (rl_fromB r) \<and> rl_closedA r
         \<and> (main = Relay_main \<longrightarrow> rl_closedB r))"
proof -
  obtain closes where main: "main = relay_main closes" and c: "main = Relay_main \<longrightarrow> closes"
  proof (cases "main = Relay_main")
    case True
    with relay_main_eq(1) that [of True] show thesis by simp
  next
    case False
    with assms(1) relay_main_eq(2) that [of False] show thesis by simp
  qed
  have run: "(relay_step (relay_main closes))\<^sup>*\<^sup>* startRelay r" using assms(2) by (simp add: main)
  have inv: "relay_inv r" by (rule relay_reachable [OF run])
  have tokens: "rl_done r + received (rl_pc r) = ended (rl_fromA r) + ended (rl_fromB r)" using inv by (simp add: relay_inv_def)
  have "rl_done r \<le> 2" using tokens ended_simps(1) [of "rl_fromA r"] ended_simps(1) [of "rl_fromB r"] by linarith
  moreover have "\<not> cp_running (rl_fromA r) \<and> \<not> cp_running (rl_fromB r)" if "rl_pc r = Returned"
    using tokens that by (cases "cp_running (rl_fromA r)"; cases "cp_running (rl_fromB r)") auto
  moreover have "\<exists>r'. (relay_step main)\<^sup>*\<^sup>* r r' \<and> rl_pc r' = Returned" if "\<not> cp_running (rl_fromA r) \<or> \<not> cp_running (rl_fromB r)"
    unfolding main using relay_returns [OF inv] that by auto
  moreover have "rl_closedA r \<and> (main = Relay_main \<longrightarrow> rl_closedB r)" if "rl_pc r = Returned"
    using relay_closed [OF run] that c inv by (simp add: closed_ok_def relay_inv_def)
  moreover have "copier_ok (rl_fromA r)" "copier_ok (rl_fromB r)" using inv by (simp_all add: relay_inv_def)
  moreover have "\<forall>r'. rl_deadA r \<and> rl_deadB r \<and> relay_step main r r' \<longrightarrow> relay_rank r' < relay_rank r"
    using dead_step_rank unfolding main by blast
  ultimately show ?thesis unfolding copier_ok_def by blast
qed

text \<open>Two bytes and the end of file from one side.\<close>

theorem relay_correct_witness:
  "\<exists>r. (relay_step Relay_main)\<^sup>*\<^sup>* startRelay r \<and> cp_written (rl_fromA r) = [1, 2]
     \<and> (\<exists>r'. (relay_step Relay_main)\<^sup>*\<^sup>* r r' \<and> rl_pc r' = Returned)"
proof -
  let ?rd = "Round [1, 2] (Some EOF) 2 None"
  let ?c = "copyRound ?rd (rl_fromA startRelay)"
  let ?r = "report ?c (startRelay\<lparr>rl_fromA := ?c\<rparr>)"
  have "cp_running (rl_fromA startRelay)" "io_round (rl_deadA startRelay) (rl_deadB startRelay) ?rd"
    by (simp_all add: startRelay_def newCopier_def)
  from relay_step.fromA [where main = Relay_main, OF this refl]
  have run: "(relay_step Relay_main)\<^sup>*\<^sup>* startRelay ?r" by (rule r_into_rtranclp)
  have "cp_written (rl_fromA ?r) = [1, 2]" "\<not> cp_running (rl_fromA ?r)"
    by (simp_all add: startRelay_def newCopier_def stopCopier_def)
  moreover have "\<exists>r'. (relay_step Relay_main)\<^sup>*\<^sup>* ?r r' \<and> rl_pc r' = Returned"
    using relay_correct [OF disjI1 [OF refl] run] \<open>\<not> cp_running (rl_fromA ?r)\<close> by blast
  ultimately show ?thesis using run by blast
qed

end
