(* ===== verification/Sha512.thy ===== *)
theory Sha512
  imports Prelude
begin

unbundle bit_operations_syntax

text \<open>
  The standard library's \<open>crypto/sha512\<close> with \<open>crypto/hmac\<close>, as FIPS 180-4 and RFC 2104 define
  them: the REALITY client checks the server's certificate with them. Only their being functions
  is used, no cryptographic property.
\<close>

section \<open>SHA-512\<close>

definition sha512_K :: "64 word list" where
  "sha512_K =
    [4794697086780616226, 8158064640168781261, 13096744586834688815, 16840607885511220156,
     4131703408338449720, 6480981068601479193, 10538285296894168987, 12329834152419229976,
     15566598209576043074, 1334009975649890238, 2608012711638119052, 6128411473006802146,
     8268148722764581231, 9286055187155687089, 11230858885718282805, 13951009754708518548,
     16472876342353939154, 17275323862435702243, 1135362057144423861, 2597628984639134821,
     3308224258029322869, 5365058923640841347, 6679025012923562964, 8573033837759648693,
     10970295158949994411, 12119686244451234320, 12683024718118986047, 13788192230050041572,
     14330467153632333762, 15395433587784984357, 489312712824947311, 1452737877330783856,
     2861767655752347644, 3322285676063803686, 5560940570517711597, 5996557281743188959,
     7280758554555802590, 8532644243296465576, 9350256976987008742, 10552545826968843579,
     11727347734174303076, 12113106623233404929, 14000437183269869457, 14369950271660146224,
     15101387698204529176, 15463397548674623760, 17586052441742319658, 1182934255886127544,
     1847814050463011016, 2177327727835720531, 2830643537854262169, 3796741975233480872,
     4115178125766777443, 5681478168544905931, 6601373596472566643, 7507060721942968483,
     8399075790359081724, 8693463985226723168, 9568029438360202098, 10144078919501101548,
     10430055236837252648, 11840083180663258601, 13761210420658862357, 14299343276471374635,
     14566680578165727644, 15097957966210449927, 16922976911328602910, 17689382322260857208,
     500013540394364858, 748580250866718886, 1242879168328830382, 1977374033974150939,
     2944078676154940804, 3659926193048069267, 4368137639120453308, 4836135668995329356,
     5532061633213252278, 6448918945643986474, 6902733635092675308, 7801388544844847127]"

definition sha512_init :: "64 word list" where
  "sha512_init =
    [7640891576956012808, 13503953896175478587, 4354685564936845355, 11912009170470909681,
     5840696475078001361, 11170449401992604703, 2270897969802886507, 6620516959819538809]"

definition rotr64 :: "nat \<Rightarrow> 64 word \<Rightarrow> 64 word" where
  "rotr64 n w = drop_bit n w OR push_bit (64 - n) w"

text \<open>The message schedule with the newest word first.\<close>

fun schedule512 :: "nat \<Rightarrow> 64 word list \<Rightarrow> 64 word list" where
  "schedule512 0 rw = rw"
| "schedule512 (Suc n) rw =
     (let old = rw ! 14; new = rw ! 1;
          small0 = rotr64 1 old XOR rotr64 8 old XOR drop_bit 7 old;
          small1 = rotr64 19 new XOR rotr64 61 new XOR drop_bit 6 new
      in schedule512 n ((small1 + rw ! 6 + small0 + rw ! 15) # rw))"

fun round512 :: "64 word list \<Rightarrow> 64 word \<times> 64 word \<Rightarrow> 64 word list" where
  "round512 [a, b, c, d, e, f, g, h] (k, w) =
     (let big1 = rotr64 14 e XOR rotr64 18 e XOR rotr64 41 e;
          t1 = h + big1 + ((e AND f) XOR (NOT e AND g)) + k + w;
          big0 = rotr64 28 a XOR rotr64 34 a XOR rotr64 39 a;
          t2 = big0 + ((a AND b) XOR (a AND c) XOR (b AND c))
      in [t1 + t2, a, b, c, d + t1, e, f, g])"
| "round512 st _ = st"

fun words512 :: "bytes \<Rightarrow> 64 word list" where
  "words512 (a # b # c # d # e # f # g # h # bs) = Uint64 [a, b, c, d, e, f, g, h] # words512 bs"
| "words512 _ = []"

definition block512 :: "64 word list \<Rightarrow> bytes \<Rightarrow> 64 word list" where
  "block512 st blk =
     (let ws = rev (schedule512 64 (rev (words512 blk)))
      in map2 (+) st (foldl round512 st (zip sha512_K ws)))"

definition pad512 :: "bytes \<Rightarrow> bytes" where
  "pad512 m = m @ [0x80] @ replicate ((239 - length m mod 128) mod 128) 0 @ be_put 16 (8 * length m)"

function blocks512 :: "64 word list \<Rightarrow> bytes \<Rightarrow> 64 word list" where
  "blocks512 st bs = (if bs = [] then st else blocks512 (block512 st (take 128 bs)) (drop 128 bs))"
  by pat_completeness auto
termination
  by (relation "measure (\<lambda>(st, bs). length bs)") auto

declare blocks512.simps [simp del]

definition sha512 :: "bytes \<Rightarrow> bytes" where
  "sha512 m = concat (map PutUint64 (blocks512 sha512_init (pad512 m)))"

section \<open>HMAC-SHA512\<close>

definition hmac_sha512 :: "bytes \<Rightarrow> bytes \<Rightarrow> bytes" where
  "hmac_sha512 key msg =
     (let k0 = (if 128 < length key then sha512 key else key);
          k = k0 @ replicate (128 - length k0) 0
      in sha512 (map ((XOR) 0x5c) k @ sha512 (map ((XOR) 0x36) k @ msg)))"

end
