(* ===== verification/Reality.thy ===== *)
theory Reality
  imports Go_Strings Sha512
begin

text \<open>
  The REALITY client (\<open>internal/realclient/client.go\<close>).

  \<open>utls\<close>, \<open>golang.org/x/crypto/hkdf\<close>, \<open>crypto/ecdh\<close>, AES-GCM and the X.509 parser are fields of
  \<open>reality_env\<close>. The TLS handshake is one call that gets the finished ClientHello and the
  verification callback; it says with which certificates it has called the callback, in order, and
  whether it succeeded. The code does not trust that answer alone: it asks whether its callback
  has accepted, so the property needs no hypothesis about the library. A panic (a slice expression
  out of range, a nonce of the wrong length, a \<open>nil\<close> hello or \<open>nil\<close> key shares) is \<open>None\<close>. The code
  ignores the error of \<open>BuildHandshakeState\<close>: \<open>re_built\<close> says whether it has left a hello behind, \<open>re_keyShare\<close>
  whether the key shares are \<open>nil\<close> (\<open>None\<close>) and else whether an X25519 key is among them.
\<close>

section \<open>Types\<close>

record reality_config =
  rc_ServerAddr :: string
  rc_ServerName :: string
  rc_PublicKey :: bytes
  rc_ShortId :: bytes
  rc_Fingerprint :: string

datatype ClientHelloID =
    HelloFirefox_Auto | HelloSafari_Auto | HelloIOS_Auto | HelloEdge_Auto | HelloAndroid_11_OkHttp | HelloGolang | HelloChrome_Auto

record ClientHello =
  ch_Random :: bytes
  ch_Raw :: bytes
  ch_SessionId :: bytes

text \<open>A parsed certificate: its public key, if that is an Ed25519 key, and its signature.\<close>

record x509_cert =
  xc_Ed25519 :: "bytes option"
  xc_Signature :: bytes

record reality_env =
  re_unicode :: unicode_tables
  re_DialContext :: "string \<Rightarrow> bool"
  re_built :: bool
  re_Hello :: "ClientHelloID \<Rightarrow> string \<Rightarrow> ClientHello"
  re_now :: "32 word"
  re_NewPublicKey :: "bytes \<Rightarrow> bool"
  re_keyShare :: "bool option"
  re_ECDH :: "bytes \<Rightarrow> bytes option"
  re_hkdf :: "bytes \<Rightarrow> bytes \<Rightarrow> bytes \<Rightarrow> nat \<Rightarrow> bytes option"
  re_Seal :: "bytes \<Rightarrow> bytes \<Rightarrow> bytes \<Rightarrow> bytes \<Rightarrow> bytes"
  re_ParseCertificate :: "bytes \<Rightarrow> x509_cert option"
  re_Handshake :: "ClientHello \<Rightarrow> (bytes list \<Rightarrow> bool) \<Rightarrow> bytes list list \<times> bool"

datatype reality_error =
    TcpDialFailed | InvalidPubkey | NoKeyShare | EcdhFailed | HkdfFailed | HandshakeFailed | NotVerified

section \<open>Dialling\<close>

definition fingerprintToID :: "unicode_tables \<Rightarrow> string \<Rightarrow> ClientHelloID" where
  "fingerprintToID U name =
     (let n = ToLower U name in
      if n = ''firefox'' then HelloFirefox_Auto
      else if n = ''safari'' then HelloSafari_Auto
      else if n = ''ios'' then HelloIOS_Auto
      else if n = ''edge'' then HelloEdge_Auto
      else if n = ''android'' then HelloAndroid_11_OkHttp
      else if n = ''golang'' then HelloGolang
      else HelloChrome_Auto)"

text \<open>The callback, once \<open>authKey\<close> is known; \<open>None\<close> while it is nil.\<close>

definition verifyFunc :: "(bytes \<Rightarrow> x509_cert option) \<Rightarrow> bytes option \<Rightarrow> bytes list \<Rightarrow> bool" where
  "verifyFunc parse authKey rawCerts =
     (case rawCerts of
        [] \<Rightarrow> False
      | raw # _ \<Rightarrow>
          (case parse raw of
             None \<Rightarrow> False
           | Some cert \<Rightarrow>
               (case xc_Ed25519 cert of
                  None \<Rightarrow> False
                | Some pub \<Rightarrow>
                    (case authKey of
                       None \<Rightarrow> False
                     | Some key \<Rightarrow> hmac_sha512 key pub = xc_Signature cert))))"

text \<open>\<open>copy(dst[off:], src)\<close>.\<close>

definition copyAt :: "nat \<Rightarrow> bytes \<Rightarrow> bytes \<Rightarrow> bytes" where
  "copyAt off src dst = take off dst @ take (length dst - off) src @ drop (off + length src) dst"

text \<open>The plaintext session ID: version, time, short ID.\<close>

definition sessionId :: "32 word \<Rightarrow> bytes \<Rightarrow> bytes" where
  "sessionId now shortId = copyAt 8 shortId (copyAt 4 (PutUint32 now) (copyAt 0 [1, 0, 0, 0] (replicate 32 0)))"

text \<open>The ECDH secret, cut or filled to 32 bytes, is stretched in place.\<close>

definition deriveKey :: "reality_env \<Rightarrow> bytes \<Rightarrow> bytes \<Rightarrow> bytes option" where
  "deriveKey re shared random =
     re_hkdf re (copyAt 0 shared (replicate 32 0)) (take 20 random) (bytes_of_string ''REALITY'') 32"

text \<open>The session ID that goes out: its first half sealed, with the whole hello as additional data.\<close>

definition sealHello :: "reality_env \<Rightarrow> bytes \<Rightarrow> bytes \<Rightarrow> ClientHello \<Rightarrow> ClientHello" where
  "sealHello re authKey sid0 hello =
     (let raw = copyAt 39 (replicate 32 0) (ch_Raw hello);
          sid = re_Seal re authKey (drop 20 (ch_Random hello)) (take 16 sid0) raw
      in hello\<lparr>ch_SessionId := sid, ch_Raw := copyAt 39 sid raw\<rparr>)"

text \<open>The result and whether the TCP connection was closed.\<close>

definition Dial :: "reality_env \<Rightarrow> reality_config \<Rightarrow> (bool \<times> (reality_error + ClientHello)) option" where
  "Dial re config =
     (if \<not> re_DialContext re (rc_ServerAddr config) then Some (False, Inl TcpDialFailed)
      else
        let hello = re_Hello re (fingerprintToID (re_unicode re) (rc_Fingerprint config)) (rc_ServerName config) in
        if \<not> re_built re then None
        else if length (ch_Raw hello) < 39 then None
        else if \<not> re_NewPublicKey re (rc_PublicKey config) then Some (True, Inl InvalidPubkey)
        else if re_keyShare re = None then None
        else if re_keyShare re = Some False then Some (True, Inl NoKeyShare)
        else case re_ECDH re (rc_PublicKey config) of
            None \<Rightarrow> Some (True, Inl EcdhFailed)
          | Some shared \<Rightarrow>
              if length (ch_Random hello) \<noteq> 32 then None
              else (case deriveKey re shared (ch_Random hello) of
                 None \<Rightarrow> Some (True, Inl HkdfFailed)
               | Some authKey \<Rightarrow>
                   let sealed = sealHello re authKey (sessionId (re_now re) (rc_ShortId config)) hello;
                       (calls, done) = re_Handshake re sealed (verifyFunc (re_ParseCertificate re) (Some authKey));
                       verified = list_ex (verifyFunc (re_ParseCertificate re) (Some authKey)) calls
                   in if \<not> done then Some (True, Inl HandshakeFailed)
                      else if \<not> verified then Some (True, Inl NotVerified)
                      else Some (False, Inr sealed)))"

section \<open>Properties\<close>

text \<open>C15 (safety). A REALITY connection comes about only with a server that holds the private key: the
  peer has presented a certificate with an Ed25519 key whose signature field is the HMAC-SHA-512
  of that key under the secret agreed on with the configured public key, whatever the TLS library
  says and whatever certificate authorities have signed. Every failure after the TCP connection
  was opened closes it.\<close>

theorem Dial_authenticates_server:
  assumes "Dial re config = Some (shut, res)"
  shows "(\<forall>sealed. res = Inr sealed \<longrightarrow> \<not> shut \<and>
      (\<exists>hello shared authKey raw rest cert pub.
         hello = re_Hello re (fingerprintToID (re_unicode re) (rc_Fingerprint config)) (rc_ServerName config)
         \<and> re_ECDH re (rc_PublicKey config) = Some shared
         \<and> re_hkdf re (take 32 shared @ replicate (32 - length shared) 0) (take 20 (ch_Random hello)) (bytes_of_string ''REALITY'') 32 = Some authKey
         \<and> (raw # rest) \<in> set (fst (re_Handshake re sealed (verifyFunc (re_ParseCertificate re) (Some authKey))))
         \<and> re_ParseCertificate re raw = Some cert \<and> xc_Ed25519 cert = Some pub
         \<and> xc_Signature cert = hmac_sha512 authKey pub))
    \<and> (\<forall>e. res = Inl e \<longrightarrow> shut = (e \<noteq> TcpDialFailed))"
proof -
  let ?hello = "re_Hello re (fingerprintToID (re_unicode re) (rc_Fingerprint config)) (rc_ServerName config)"
  have pad: "copyAt 0 shared (replicate 32 0) = take 32 shared @ replicate (32 - length shared) 0" for shared
    by (simp add: copyAt_def)
  have "\<exists>shared authKey raw rest cert pub. re_ECDH re (rc_PublicKey config) = Some shared
         \<and> re_hkdf re (take 32 shared @ replicate (32 - length shared) 0) (take 20 (ch_Random ?hello)) (bytes_of_string ''REALITY'') 32 = Some authKey
         \<and> (raw # rest) \<in> set (fst (re_Handshake re sealed (verifyFunc (re_ParseCertificate re) (Some authKey))))
         \<and> re_ParseCertificate re raw = Some cert \<and> xc_Ed25519 cert = Some pub
         \<and> xc_Signature cert = hmac_sha512 authKey pub \<and> \<not> shut" if res: "res = Inr sealed" for sealed
  proof -
    from assms res obtain shared authKey calls where
      keys: "re_ECDH re (rc_PublicKey config) = Some shared" "deriveKey re shared (ch_Random ?hello) = Some authKey" "\<not> shut"
      and calls: "re_Handshake re sealed (verifyFunc (re_ParseCertificate re) (Some authKey)) = (calls, True)"
        "list_ex (verifyFunc (re_ParseCertificate re) (Some authKey)) calls"
      by (auto simp: Dial_def Let_def split: if_splits option.splits prod.splits)
    then obtain chain where chain: "chain \<in> set calls" "verifyFunc (re_ParseCertificate re) (Some authKey) chain"
      by (auto simp: list_ex_iff)
    then obtain raw rest cert pub where "chain = raw # rest" "re_ParseCertificate re raw = Some cert" "xc_Ed25519 cert = Some pub"
        "xc_Signature cert = hmac_sha512 authKey pub"
      by (auto simp: verifyFunc_def split: list.splits option.splits)
    with keys calls(1) chain(1) show ?thesis unfolding deriveKey_def pad by auto
  qed
  moreover have "shut = (e \<noteq> TcpDialFailed)" if "res = Inl e" for e
    using assms that by (auto simp: Dial_def Let_def split: if_splits option.splits prod.splits)
  ultimately show ?thesis by metis
qed

definition ex_reality_env :: reality_env where
  "ex_reality_env =
     \<lparr>re_unicode = \<lparr>uni_lower = id, uni_upper = id\<rparr>, re_DialContext = (\<lambda>_. True),
      re_built = True, re_Hello = (\<lambda>_ _. \<lparr>ch_Random = replicate 32 4, ch_Raw = replicate 100 5, ch_SessionId = []\<rparr>), re_now = 7,
      re_NewPublicKey = (\<lambda>_. True), re_keyShare = Some True, re_ECDH = (\<lambda>_. Some (replicate 32 6)),
      re_hkdf = (\<lambda>_ _ _ n. Some (replicate n 8)), re_Seal = (\<lambda>key nonce txt aad. txt @ replicate 16 9),
      re_ParseCertificate = (\<lambda>_. Some \<lparr>xc_Ed25519 = Some [2], xc_Signature = hmac_sha512 (replicate 32 8) [2]\<rparr>),
      re_Handshake = (\<lambda>hello verify. ([[[1]]], verify [[1]]))\<rparr>"

definition ex_reality_config :: reality_config where
  "ex_reality_config = \<lparr>rc_ServerAddr = ''a:1'', rc_ServerName = ''s'', rc_PublicKey = replicate 32 3, rc_ShortId = [1, 2], rc_Fingerprint = ''chrome''\<rparr>"

lemma ex_Dial:
  "Dial ex_reality_env ex_reality_config = Some (False, Inr (sealHello ex_reality_env (replicate 32 8) (sessionId 7 [1, 2])
     \<lparr>ch_Random = replicate 32 4, ch_Raw = replicate 100 5, ch_SessionId = []\<rparr>))"
  by (simp add: Dial_def ex_reality_env_def ex_reality_config_def deriveKey_def verifyFunc_def Let_def)

theorem Dial_authenticates_server_witness:
  "\<exists>sealed authKey cert pub. Dial ex_reality_env ex_reality_config = Some (False, Inr sealed)
     \<and> re_ParseCertificate ex_reality_env [1] = Some cert \<and> xc_Ed25519 cert = Some pub \<and> xc_Signature cert = hmac_sha512 authKey pub"
proof -
  obtain sealed where dial: "Dial ex_reality_env ex_reality_config = Some (False, Inr sealed)" using ex_Dial by blast
  obtain raw rest cert pub authKey where
    "(raw # rest) \<in> set (fst (re_Handshake ex_reality_env sealed (verifyFunc (re_ParseCertificate ex_reality_env) (Some authKey))))"
    "re_ParseCertificate ex_reality_env raw = Some cert" "xc_Ed25519 cert = Some pub" "xc_Signature cert = hmac_sha512 authKey pub"
    using Dial_authenticates_server [OF dial] by blast
  moreover from this(1) have "raw = [1]" by (simp add: ex_reality_env_def)
  ultimately show ?thesis using dial by blast
qed

end
