(* ===== verification/Client_Main.thy ===== *)
theory Client_Main
  imports Udp_Client Padstream Relay Reality
begin

text \<open>
  The client program (\<open>cmd/chimera-client/main.go\<close>): its settings, the SOCKS5 side towards the
  application, and the choice of the transport towards the server.

  The connection of the application and the raw connection to the server are arguments by their
  read and write functions. The result of \<open>realclient.Dial\<close> (\<open>Reality\<close>) is an argument of
  \<open>dialChimeraTCP\<close>. A connection that a failed call leaves behind is returned beside the error, so
  that the clean-up can be seen. \<open>log.Fatal\<close> is an error value of \<open>clientMain\<close>; the loop that
  accepts connections and starts a goroutine for each is not modelled. \<open>chimeraConnect\<close> goes up to the
  start of the relaying, which \<open>Relay\<close> models: \<open>chimera.Relay\<close> returns no error, so \<open>handleSocks5\<close> writes
  nothing to the application after it.

  Lemmas: what the SOCKS5 functions compute as functions of the bytes that arrive.
\<close>

section \<open>Settings\<close>

record client_flags =
  cf_server :: string
  cf_sni :: string
  cf_pub :: string
  cf_sid :: string
  cf_fp :: string
  cf_quic :: bool
  cf_auto :: bool
  cf_quicPsk :: string
  cf_quicFP :: string
  cf_autoQUICTimeout :: duration

record runtimeConfig =
  rt_reality :: reality_config
  rt_mode :: string
  rt_serverAddr :: string
  rt_serverName :: string
  rt_quicAuthKey :: bytes
  rt_quicFingerprint :: string
  rt_autoQUICTimeout :: duration

datatype client_fatal =
    MissingFlags | ModesExclusive | TimeoutNotPositive | InvalidPublicKey | InvalidShortID
  | InvalidPSK | InvalidQUICFingerprint | DeriveKeyFailed auth_error

definition selectedMode :: "bool \<Rightarrow> bool \<Rightarrow> client_fatal + string" where
  "selectedMode forceQUIC automatic =
     (if forceQUIC \<and> automatic then Inl ModesExclusive
      else if forceQUIC then Inr ''quic''
      else if automatic then Inr ''auto''
      else Inr ''tcp'')"

definition validateQUICConfig :: "string \<Rightarrow> string \<Rightarrow> string \<Rightarrow> client_fatal + bytes" where
  "validateQUICConfig mode pskText fingerprint =
     (if mode = ''tcp'' then Inr []
      else case b64_DecodeString pskText of
          None \<Rightarrow> Inl InvalidPSK
        | Some psk \<Rightarrow>
            if length psk \<noteq> 32 then Inl InvalidPSK
            else case hex_DecodeString fingerprint of
                None \<Rightarrow> Inl InvalidQUICFingerprint
              | Some fp \<Rightarrow> if length fp \<noteq> 32 then Inl InvalidQUICFingerprint else Inr psk)"

definition decodeHex :: "string \<Rightarrow> bytes option" where
  "decodeHex s = (if length s mod 2 \<noteq> 0 then None else hex_DecodeString s)"

definition decodeShortID :: "string \<Rightarrow> bytes option" where
  "decodeShortID s =
     (case decodeHex s of
        None \<Rightarrow> None
      | Some shortID \<Rightarrow> if length shortID = 0 \<or> 8 < length shortID then None else Some shortID)"

text \<open>\<open>main\<close> up to the listening; \<open>hkdf\<close> is the library's key derivation.\<close>

definition clientMain ::
  "(bytes \<Rightarrow> bytes \<Rightarrow> bytes \<Rightarrow> nat \<Rightarrow> bytes option) \<Rightarrow> client_flags \<Rightarrow> client_fatal + runtimeConfig" where
  "clientMain hkdf flags =
     (if cf_server flags = [] \<or> cf_sni flags = [] \<or> cf_pub flags = [] then Inl MissingFlags
      else case selectedMode (cf_quic flags) (cf_auto flags) of
          Inl e \<Rightarrow> Inl e
        | Inr mode \<Rightarrow>
            if cf_autoQUICTimeout flags \<le> 0 then Inl TimeoutNotPositive
            else case b64_DecodeString (cf_pub flags) of
                None \<Rightarrow> Inl InvalidPublicKey
              | Some pubKey \<Rightarrow>
                  if length pubKey \<noteq> 32 then Inl InvalidPublicKey
                  else case decodeShortID (cf_sid flags) of
                      None \<Rightarrow> Inl InvalidShortID
                    | Some shortID \<Rightarrow>
                        (case validateQUICConfig mode (cf_quicPsk flags) (cf_quicFP flags) of
                           Inl e \<Rightarrow> Inl e
                         | Inr psk \<Rightarrow>
                             (case (if mode \<noteq> ''tcp'' then DeriveAuthKey hkdf psk pubKey shortID else Inr []) of
                                Inl e \<Rightarrow> Inl (DeriveKeyFailed e)
                              | Inr quicAuthKey \<Rightarrow>
                                  Inr \<lparr>rt_reality = \<lparr>rc_ServerAddr = cf_server flags, rc_ServerName = cf_sni flags, rc_PublicKey = pubKey,
                                         rc_ShortId = shortID, rc_Fingerprint = cf_fp flags\<rparr>,
                                       rt_mode = mode, rt_serverAddr = cf_server flags, rt_serverName = cf_sni flags,
                                       rt_quicAuthKey = quicAuthKey, rt_quicFingerprint = cf_quicFP flags,
                                       rt_autoQUICTimeout = cf_autoQUICTimeout flags\<rparr>)))"

section \<open>SOCKS5\<close>

datatype socks_error =
    SocksIo io_error | BadSocksVersion | NoAuthNotOffered | BadRequestVersion | OnlyConnect | BadAddressType

text \<open>A full read followed by the rest of the function.\<close>

definition socksFull ::
  "'c reader \<Rightarrow> nat \<Rightarrow> 'c \<Rightarrow> (bytes \<Rightarrow> 'c \<Rightarrow> ('c \<times> (socks_error + 'a)) option) \<Rightarrow> ('c \<times> (socks_error + 'a)) option" where
  "socksFull read n c k =
     Option.bind (ReadFull read n c) (\<lambda>(c', res). case res of Inl e \<Rightarrow> Some (c', Inl (SocksIo e)) | Inr bs \<Rightarrow> k bs c')"

definition socks5Handshake :: "'c reader \<Rightarrow> 'c writer \<Rightarrow> 'c \<Rightarrow> ('c \<times> (socks_error + unit)) option" where
  "socks5Handshake read wr conn =
     socksFull read 2 conn (\<lambda>buf conn.
       if buf ! 0 \<noteq> 5 then Some (conn, Inl BadSocksVersion)
       else socksFull read (unat (buf ! 1)) conn (\<lambda>methods conn.
         if 0 \<in> set methods
         then Option.bind (wr [5, 0] conn) (\<lambda>(conn, n, err).
                Some (conn, case err of None \<Rightarrow> Inr () | Some e \<Rightarrow> Inl (SocksIo e)))
         else Option.bind (wr [5, 0xff] conn) (\<lambda>(conn, n, err). Some (conn, Inl NoAuthNotOffered))))"

definition socks5ReadRequest :: "'c reader \<Rightarrow> 'c \<Rightarrow> ('c \<times> (socks_error + Address)) option" where
  "socks5ReadRequest read conn =
     socksFull read 4 conn (\<lambda>head conn.
       if head ! 0 \<noteq> 5 then Some (conn, Inl BadRequestVersion)
       else if head ! 1 \<noteq> 1 then Some (conn, Inl OnlyConnect)
       else
         let addr = \<lparr>ad_Type = 0, ad_IP = [], ad_Domain = [], ad_Port = 0\<rparr>;
             readPort = (\<lambda>addr conn. socksFull read 2 conn (\<lambda>portBuf conn. Some (conn, Inr (addr\<lparr>ad_Port := Uint16 portBuf\<rparr>))))
         in if head ! 3 = 1 then
              socksFull read 4 conn (\<lambda>ip conn. readPort (addr\<lparr>ad_Type := AtypIPv4, ad_IP := ip\<rparr>) conn)
            else if head ! 3 = 3 then
              socksFull read 1 conn (\<lambda>len conn.
                socksFull read (unat (len ! 0)) conn (\<lambda>domain conn.
                  readPort (addr\<lparr>ad_Type := AtypDomain, ad_Domain := string_of_bytes domain\<rparr>) conn))
            else if head ! 3 = 4 then
              socksFull read 16 conn (\<lambda>ip conn. readPort (addr\<lparr>ad_Type := AtypIPv6, ad_IP := ip\<rparr>) conn)
            else Some (conn, Inl BadAddressType))"

definition replyBytes :: "byte \<Rightarrow> bytes" where
  "replyBytes code = [5, code, 0, 1, 0, 0, 0, 0, 0, 0]"

definition socks5Reply :: "'c writer \<Rightarrow> byte \<Rightarrow> 'c \<Rightarrow> ('c \<times> io_error option) option" where
  "socks5Reply wr code conn = Option.bind (wr (replyBytes code) conn) (\<lambda>(conn, n, err). Some (conn, err))"

section \<open>Transports\<close>

datatype dial_error =
    RealityDial | SessionHeader io_error | SessionResponse wire_error | ServerRejected byte
  | TargetConnect wire_error | ConnectResult wire_error | ServerDialFailed byte
  | QuicDial client_error | QuicConnect client_error | SelectionTimeout | UnknownMode

text \<open>\<open>dialed\<close> is the result of \<open>realclient.Dial\<close>, \<open>closeRaw\<close> what closing does to a connection. A failure
  gives the connection back, closed.\<close>

definition dialChimeraTCP ::
  "'raw reader \<Rightarrow> 'raw writer \<Rightarrow> ('raw \<Rightarrow> 'raw) \<Rightarrow> (nat \<Rightarrow> dice) \<Rightarrow> 'raw option \<Rightarrow> Address
     \<Rightarrow> ('raw option \<times> (dial_error + 'raw Conn)) option" where
  "dialChimeraTCP read wr closeRaw tape dialed target =
     (case dialed of
        None \<Rightarrow> Some (None, Inl RealityDial)
      | Some conn0 \<Rightarrow>
          Option.bind (WriteSessionHeader wr 1 conn0) (\<lambda>(conn1, err1). case err1 of
              Some e \<Rightarrow> Some (Some (closeRaw conn1), Inl (SessionHeader e))
            | None \<Rightarrow>
                Option.bind (ReadSessionResponse read conn1) (\<lambda>(conn2, res2). case res2 of
                    Inl e \<Rightarrow> Some (Some (closeRaw conn2), Inl (SessionResponse e))
                  | Inr status \<Rightarrow>
                      if status \<noteq> StatusOK then Some (Some (closeRaw conn2), Inl (ServerRejected status))
                      else
                        Option.bind (WriteTargetConnect (Conn_Write wr) CmdConnect target (New tape conn2 DefaultPolicy)) (\<lambda>(pc3, err3).
                        case err3 of
                          Some e \<Rightarrow> Some (Some (closeRaw (pc_raw pc3)), Inl (TargetConnect e))
                        | None \<Rightarrow>
                            Option.bind (ReadSessionResponse (Conn_Read read wr) pc3) (\<lambda>(pc4, res4). case res4 of
                                Inl e \<Rightarrow> Some (Some (closeRaw (pc_raw pc4)), Inl (ConnectResult e))
                              | Inr status \<Rightarrow>
                                  if status \<noteq> StatusOK then Some (Some (closeRaw (pc_raw pc4)), Inl (ServerDialFailed status))
                                  else Some (None, Inr pc4))))))"

text \<open>The connection that closes its client with it; \<open>errors.Join\<close> keeps the errors that are not nil.\<close>

record ownedConn =
  oc_Conn :: "h3StreamConn option"
  oc_owner :: "Client option"
  oc_once :: bool
  oc_err :: "close_error list"

definition ownedConn_Close :: "close_error option \<Rightarrow> ownedConn \<Rightarrow> ownedConn \<times> close_error list" where
  "ownedConn_Close streamClose c =
     (if oc_once c then (c, oc_err c)
      else
        let (conn, connErr) = (case oc_Conn c of
               None \<Rightarrow> (None, None) | Some h \<Rightarrow> (case h3StreamConn_Close streamClose h of (h', e) \<Rightarrow> (Some h', e)));
            (owner, ownerErr) = Client_Close (oc_owner c);
            err = concat (map (\<lambda>e. case e of None \<Rightarrow> [] | Some x \<Rightarrow> [x]) [connErr, ownerErr])
        in (c\<lparr>oc_Conn := conn, oc_owner := owner, oc_once := True, oc_err := err\<rparr>, err))"

definition dialChimeraQUIC ::
  "dial_env \<Rightarrow> stream_env \<Rightarrow> Address \<Rightarrow> runtimeConfig \<Rightarrow> Client option \<times> (dial_error + ownedConn)" where
  "dialChimeraQUIC de se target cfg =
     (case DialClientWithConfig de \<lparr>cc_ServerAddr = rt_serverAddr cfg, cc_ServerName = rt_serverName cfg,
             cc_AuthKey = rt_quicAuthKey cfg, cc_CertFingerprint = rt_quicFingerprint cfg,
             cc_EnableDatagrams = False, cc_UDPMaxPacketSize = 0, cc_QUICConfig = None\<rparr> of
        Inl e \<Rightarrow> (None, Inl (QuicDial e))
      | Inr client \<Rightarrow>
          (case DialTCP se client (Some target) of
             (_, Inl e) \<Rightarrow> (fst (Client_Close (Some client)), Inl (QuicConnect e))
           | (_, Inr stream) \<Rightarrow> (None, Inr \<lparr>oc_Conn = Some stream, oc_owner = Some client, oc_once = False, oc_err = []\<rparr>)))"

text \<open>A dial function takes the timeout of its context, if it has one, and returns a connection, an
  error or both. \<open>selectTransport\<close> returns what it closed beside its result.\<close>

type_synonym 't transportDial = "duration option \<Rightarrow> 't option \<times> dial_error option"

definition selectTransport ::
  "string \<Rightarrow> duration \<Rightarrow> 't transportDial \<Rightarrow> 't transportDial \<Rightarrow> 't list \<times> 't option \<times> dial_error option" where
  "selectTransport mode quicTimeout dialQUIC dialTCP =
     (if mode = ''tcp'' then ([], dialTCP None)
      else if mode = ''quic'' then ([], dialQUIC None)
      else if mode = ''auto'' then
        if quicTimeout \<le> 0 then ([], None, Some SelectionTimeout)
        else case dialQUIC (Some quicTimeout) of
            (conn, None) \<Rightarrow> ([], conn, None)
          | (conn, Some _) \<Rightarrow> (case conn of None \<Rightarrow> [] | Some c \<Rightarrow> [c], dialTCP None)
      else ([], None, Some UnknownMode))"

text \<open>How the handling of one application connection ends: closed, or relaying over a transport. A
  transport that was opened and closed again is named.\<close>

datatype 't socks_outcome = SocksClosed "'t list" | SocksRelaying "'t list" 't

text \<open>\<open>Inl\<close> is a returned error: a failed dial or a failed reply. A dial that returns neither a connection
  nor an error would be a nil dereference, the \<open>None\<close> of \<open>handleSocks5\<close>.\<close>

definition chimeraConnect ::
  "'c writer \<Rightarrow> 'c \<Rightarrow> runtimeConfig \<Rightarrow> 't transportDial \<Rightarrow> 't transportDial \<Rightarrow> ('c \<times> 't list \<times> ((dial_error + io_error) + 't option)) option" where
  "chimeraConnect wr socks cfg dialQUIC dialTCP =
     (case selectTransport (rt_mode cfg) (rt_autoQUICTimeout cfg) dialQUIC dialTCP of
        (shut, _, Some err) \<Rightarrow> Some (socks, shut, Inl (Inl err))
      | (shut, proxy, None) \<Rightarrow>
          Option.bind (socks5Reply wr 0 socks) (\<lambda>(socks', err). case err of
              Some e \<Rightarrow> Some (socks', shut @ (case proxy of None \<Rightarrow> [] | Some p \<Rightarrow> [p]), Inl (Inr e))
            | None \<Rightarrow> Some (socks', shut, Inr proxy)))"

definition handleSocks5 ::
  "'c reader \<Rightarrow> 'c writer \<Rightarrow> runtimeConfig \<Rightarrow> (Address \<Rightarrow> 't transportDial) \<Rightarrow> (Address \<Rightarrow> 't transportDial) \<Rightarrow> 'c
     \<Rightarrow> ('c \<times> 't socks_outcome) option" where
  "handleSocks5 read wr cfg dialQUIC dialTCP conn0 =
     Option.bind (socks5Handshake read wr conn0) (\<lambda>(conn1, hs). case hs of
         Inl _ \<Rightarrow> Some (conn1, SocksClosed [])
       | Inr _ \<Rightarrow>
           Option.bind (socks5ReadRequest read conn1) (\<lambda>(conn2, req). case req of
               Inl _ \<Rightarrow> Option.bind (socks5Reply wr 1 conn2) (\<lambda>(conn3, _). Some (conn3, SocksClosed []))
             | Inr target \<Rightarrow>
                 Option.bind (chimeraConnect wr conn2 cfg (dialQUIC target) (dialTCP target)) (\<lambda>(conn3, shut, res). case res of
                     Inl _ \<Rightarrow> Option.bind (socks5Reply wr 5 conn3) (\<lambda>(conn4, _). Some (conn4, SocksClosed shut))
                   | Inr None \<Rightarrow> None
                   | Inr (Some proxy) \<Rightarrow> Some (conn3, SocksRelaying shut proxy))))"

section \<open>What the SOCKS5 functions compute\<close>

definition socksTake :: "nat \<Rightarrow> bytes \<Rightarrow> (bytes \<Rightarrow> bytes \<Rightarrow> (socks_error + 'a) \<times> bytes) \<Rightarrow> (socks_error + 'a) \<times> bytes" where
  "socksTake n bs k = (case read_outcome n bs of Inl e \<Rightarrow> (Inl (SocksIo e), drop n bs) | Inr x \<Rightarrow> k x (drop n bs))"

lemma socksTake_append: "length x = n \<Longrightarrow> socksTake n (x @ rest) k = k x rest"
  by (simp add: socksTake_def read_outcome_def)

lemma socksTake_Cons:
  "socksTake 4 (a # b # c # d # rest) k = k [a, b, c, d] rest" "socksTake 1 (a # rest) k = k [a] rest"
  "socksTake (Suc 0) (a # rest) k = k [a] rest"
  by (simp_all add: socksTake_def read_outcome_def)

lemma socksTake_Inr:
  "socksTake n bs k = (Inr v, rest) \<longleftrightarrow> (\<exists>x bs'. bs = x @ bs' \<and> length x = n \<and> k x bs' = (Inr v, rest))"
proof
  assume "socksTake n bs k = (Inr v, rest)"
  then show "\<exists>x bs'. bs = x @ bs' \<and> length x = n \<and> k x bs' = (Inr v, rest)"
    by (intro exI [of _ "take n bs"] exI [of _ "drop n bs"])
       (auto simp: socksTake_def read_outcome_def split: if_splits)
next
  assume "\<exists>x bs'. bs = x @ bs' \<and> length x = n \<and> k x bs' = (Inr v, rest)"
  then show "socksTake n bs k = (Inr v, rest)" by (auto simp: socksTake_append)
qed

text \<open>The methods that are offered, and the request.\<close>

definition decodeGreeting :: "bytes \<Rightarrow> (socks_error + bytes) \<times> bytes" where
  "decodeGreeting bs =
     socksTake 2 bs (\<lambda>buf bs.
       if buf ! 0 \<noteq> 5 then (Inl BadSocksVersion, bs)
       else socksTake (unat (buf ! 1)) bs (\<lambda>methods bs. (Inr methods, bs)))"

definition decodeRequest :: "bytes \<Rightarrow> (socks_error + Address) \<times> bytes" where
  "decodeRequest bs =
     socksTake 4 bs (\<lambda>head bs.
       if head ! 0 \<noteq> 5 then (Inl BadRequestVersion, bs)
       else if head ! 1 \<noteq> 1 then (Inl OnlyConnect, bs)
       else
         let port = (\<lambda>t ip domain bs. socksTake 2 bs (\<lambda>p bs.
               (Inr \<lparr>ad_Type = t, ad_IP = ip, ad_Domain = domain, ad_Port = Uint16 p\<rparr>, bs)))
         in if head ! 3 = 1 then socksTake 4 bs (\<lambda>ip bs. port AtypIPv4 ip [] bs)
            else if head ! 3 = 3 then
              socksTake 1 bs (\<lambda>l bs. socksTake (unat (l ! 0)) bs (\<lambda>d bs. port AtypDomain [] (string_of_bytes d) bs))
            else if head ! 3 = 4 then socksTake 16 bs (\<lambda>ip bs. port AtypIPv6 ip [] bs)
            else (Inl BadAddressType, bs))"

context byte_source
begin

lemma implements_socksFull:
  assumes "readable r" and bs: "content r = bs"
    and k: "\<And>x r'. read_outcome n bs = Inr x \<Longrightarrow> content r' = drop n bs \<Longrightarrow> readable r' \<Longrightarrow> implements (k x r') (k' x (drop n bs))"
  shows "implements (socksFull read n r k) (socksTake n bs k')"
proof -
  obtain r' where r': "ReadFull read n r = Some (r', read_outcome n bs)" "content r' = drop n bs" "readable r'"
    using ReadFull_outcome [OF assms(1)] bs by blast
  show ?thesis
  proof (cases "read_outcome n bs")
    case (Inl e)
    with r' show ?thesis by (simp add: socksFull_def socksTake_def implements_def)
  next
    case (Inr x)
    with r' k [OF Inr r'(2,3)] show ?thesis by (simp add: socksFull_def socksTake_def)
  qed
qed

lemma implements_request:
  assumes "readable r"
  shows "implements (socks5ReadRequest read r) (decodeRequest (content r))"
  unfolding socks5ReadRequest_def decodeRequest_def Let_def
proof (rule implements_socksFull [OF assms refl], goal_cases)
  case (1 head r1)
  then show ?case by (auto intro!: implements_socksFull implements_Some)
qed

end

text \<open>The handshake: what is sent back and whether it succeeds.\<close>

lemma socks5Handshake_spec:
  assumes s: "stream_readable s" and room: "st_room s = None" and dec: "decodeGreeting (stream_content s) = (res, rest)"
  shows "\<exists>s'. socks5Handshake stream_read stream_write s =
      Some (s', case res of Inl e \<Rightarrow> Inl e | Inr ms \<Rightarrow> if 0 \<in> set ms then Inr () else Inl NoAuthNotOffered)
    \<and> st_sent s' = st_sent s @ (case res of Inl e \<Rightarrow> [] | Inr ms \<Rightarrow> if 0 \<in> set ms then [5, 0] else [5, 0xff])
    \<and> stream_content s' = rest \<and> stream_readable s' \<and> st_room s' = None"
proof -
  have full: "\<exists>r'. ReadFull stream_read n r = Some (r', read_outcome n (stream_content r)) \<and> stream_content r' = drop n (stream_content r)
      \<and> stream_readable r' \<and> st_sent r' = st_sent r \<and> st_room r' = st_room r" if "stream_readable r" for n r
    using stream_in.ReadFull_outcome [OF that, of n] stream_ReadFull_keeps [of n r] by blast
  let ?bs = "stream_content s"
  obtain s1 where s1: "ReadFull stream_read 2 s = Some (s1, read_outcome 2 ?bs)" "stream_content s1 = drop 2 ?bs" "stream_readable s1"
      "st_sent s1 = st_sent s" "st_room s1 = None"
    using full [OF s, of 2] room by auto
  show ?thesis
  proof (cases "read_outcome 2 ?bs")
    case (Inl e)
    with dec s1 show ?thesis by (auto simp: socks5Handshake_def socksFull_def decodeGreeting_def socksTake_def)
  next
    case (Inr buf)
    show ?thesis
    proof (cases "buf ! 0 = 5")
      case False
      with Inr dec s1 show ?thesis by (auto simp: socks5Handshake_def socksFull_def decodeGreeting_def socksTake_def)
    next
      case True
      let ?n = "unat (buf ! 1)"
      obtain s2 where s2: "ReadFull stream_read ?n s1 = Some (s2, read_outcome ?n (drop 2 ?bs))" "stream_content s2 = drop ?n (drop 2 ?bs)"
          "stream_readable s2" "st_sent s2 = st_sent s" "st_room s2 = None"
        using full [OF s1(3), of ?n] s1 by auto
      have shape: "socks5Handshake stream_read stream_write s = (case read_outcome ?n (drop 2 ?bs) of
            Inl e \<Rightarrow> Some (s2, Inl (SocksIo e))
          | Inr ms \<Rightarrow> Some (s2\<lparr>st_sent := st_sent s2 @ (if 0 \<in> set ms then [5, 0] else [5, 0xff])\<rparr>,
              if 0 \<in> set ms then Inr () else Inl NoAuthNotOffered))"
        using s1(1) s2 Inr True
        by (simp add: socks5Handshake_def socksFull_def stream_write_def split: sum.split)
      have "(res, rest) = (case read_outcome ?n (drop 2 ?bs) of Inl e \<Rightarrow> (Inl (SocksIo e), drop ?n (drop 2 ?bs))
          | Inr ms \<Rightarrow> (Inr ms, drop ?n (drop 2 ?bs)))"
        using dec Inr True by (simp add: decodeGreeting_def socksTake_def split: sum.splits)
      with shape s2 show ?thesis
        by (cases "read_outcome ?n (drop 2 ?bs)") (auto simp: stream_content_def stream_readable_def)
    qed
  qed
qed

text \<open>The bytes an application sends.\<close>

definition greetingBytes :: "bytes \<Rightarrow> bytes" where
  "greetingBytes ms = [5, of_nat (length ms)] @ ms"

definition requestBytes :: "byte \<Rightarrow> Address \<Rightarrow> bytes" where
  "requestBytes rsv a = [5, 1, rsv, ad_Type a]
     @ (if ad_Type a = AtypDomain then of_nat (length (ad_Domain a)) # bytes_of_string (ad_Domain a) else ad_IP a) @ PutUint16 (ad_Port a)"

definition socks_target :: "Address \<Rightarrow> bool" where
  "socks_target a \<longleftrightarrow> (ad_Type a = AtypIPv4 \<and> length (ad_IP a) = 4 \<and> ad_Domain a = [])
     \<or> (ad_Type a = AtypIPv6 \<and> length (ad_IP a) = 16 \<and> ad_Domain a = [])
     \<or> (ad_Type a = AtypDomain \<and> ad_IP a = [] \<and> length (ad_Domain a) \<le> 255)"

lemma unat_length_byte: "n \<le> 255 \<Longrightarrow> unat (of_nat n :: byte) = n"
  by (simp add: unsigned_of_nat take_bit_nat_eq_self)

lemma list2: "length x = 2 \<longleftrightarrow> (\<exists>a b. x = [a, b])" and list1: "length x = Suc 0 \<longleftrightarrow> (\<exists>a. x = [a])"
  and list4: "length x = 4 \<longleftrightarrow> (\<exists>a b c d. x = [a, b, c, d])"
  by (auto simp: numeral_eq_Suc length_Suc_conv)

lemma decodeGreeting_iff:
  "decodeGreeting bs = (Inr ms, rest) \<longleftrightarrow> length ms \<le> 255 \<and> bs = greetingBytes ms @ rest"
proof
  assume "decodeGreeting bs = (Inr ms, rest)"
  then obtain b where "bs = [5, b] @ ms @ rest" "length ms = unat b"
    by (auto simp: decodeGreeting_def socksTake_Inr list2 split: if_splits)
  moreover from this(2) have "of_nat (length ms) = b" by simp
  ultimately show "length ms \<le> 255 \<and> bs = greetingBytes ms @ rest"
    using unat_byte_less [of b] by (simp add: greetingBytes_def)
next
  assume "length ms \<le> 255 \<and> bs = greetingBytes ms @ rest"
  then have bs: "bs = [5, of_nat (length ms)] @ (ms @ rest)" "unat (of_nat (length ms) :: byte) = length ms"
    by (simp_all add: greetingBytes_def unat_length_byte)
  show "decodeGreeting bs = (Inr ms, rest)"
    unfolding decodeGreeting_def bs(1) by (subst socksTake_append) (simp_all add: bs(2) socksTake_append)
qed

lemma decodeRequest_iff:
  "decodeRequest bs = (Inr a, rest) \<longleftrightarrow> socks_target a \<and> (\<exists>rsv. bs = requestBytes rsv a @ rest)"
proof
  assume dec: "decodeRequest bs = (Inr a, rest)"
  then obtain rsv t bs1 where bs: "bs = [5, 1, rsv, t] @ bs1"
    by (auto simp: decodeRequest_def socksTake_Inr list4 split: if_splits)
  consider (v4) "t = 1" | (dom) "t = 3" | (v6) "t = 4"
    using dec by (auto simp: bs decodeRequest_def socksTake_Cons split: if_splits)
  then show "socks_target a \<and> (\<exists>rsv. bs = requestBytes rsv a @ rest)"
  proof cases
    case v4
    with dec obtain ip p where "bs1 = ip @ p @ rest" "length ip = 4" "length p = 2"
        "a = \<lparr>ad_Type = AtypIPv4, ad_IP = ip, ad_Domain = [], ad_Port = Uint16 p\<rparr>"
      by (auto simp: decodeRequest_def bs socksTake_Cons socksTake_Inr)
    with v4 show ?thesis by (auto simp: bs socks_target_def requestBytes_def atyp_defs PutUint16_Uint16)
  next
    case v6
    with dec obtain ip p where "bs1 = ip @ p @ rest" "length ip = 16" "length p = 2"
        "a = \<lparr>ad_Type = AtypIPv6, ad_IP = ip, ad_Domain = [], ad_Port = Uint16 p\<rparr>"
      by (auto simp: decodeRequest_def bs socksTake_Cons socksTake_Inr)
    with v6 show ?thesis by (auto simp: bs socks_target_def requestBytes_def atyp_defs PutUint16_Uint16)
  next
    case dom
    with dec obtain l d p where d: "bs1 = l # d @ p @ rest" "length d = unat l" "length p = 2"
        "a = \<lparr>ad_Type = AtypDomain, ad_IP = [], ad_Domain = string_of_bytes d, ad_Port = Uint16 p\<rparr>"
      by (auto simp: decodeRequest_def bs socksTake_Cons socksTake_Inr list1)
    moreover have "of_nat (length d) = l" using d(2) by simp
    ultimately show ?thesis
      using dom unat_byte_less [of l]
      by (auto simp: bs socks_target_def requestBytes_def atyp_defs PutUint16_Uint16)
  qed
next
  assume "socks_target a \<and> (\<exists>rsv. bs = requestBytes rsv a @ rest)"
  then obtain rsv where a: "socks_target a" "bs = requestBytes rsv a @ rest" by blast
  then show "decodeRequest bs = (Inr a, rest)"
    by (auto simp: socks_target_def requestBytes_def decodeRequest_def atyp_defs socksTake_append socksTake_Cons unat_length_byte)
qed

section \<open>Properties\<close>

lemma socks5Reply_unlimited:
  "st_room s = None \<Longrightarrow> socks5Reply stream_write code s = Some (s\<lparr>st_sent := st_sent s @ replyBytes code\<rparr>, None)"
  by (simp add: socks5Reply_def stream_write_def)

lemma stream_sent_simps [simp]:
  "stream_content (s\<lparr>st_sent := x\<rparr>) = stream_content s" "stream_readable (s\<lparr>st_sent := x\<rparr>) = stream_readable s"
  by (simp_all add: stream_content_def stream_readable_def)

lemma socks5ReadRequest_keeps:
  assumes "socks5ReadRequest stream_read s = Some (s', res)"
  shows "st_sent s' = st_sent s \<and> st_room s' = st_room s"
proof -
  have full: "st_sent s' = st_sent s \<and> st_room s' = st_room s"
    if "socksFull stream_read n s k = Some (s', res)"
      and "\<And>x s1 s' res. k x s1 = Some (s', res) \<Longrightarrow> st_sent s' = st_sent s1 \<and> st_room s' = st_room s1"
    for n k s s' and res :: "socks_error + Address"
  proof -
    from that(1) obtain s1 r where s1: "ReadFull stream_read n s = Some (s1, r)"
      and k: "(case r of Inl e \<Rightarrow> Some (s1, Inl (SocksIo e)) | Inr bs \<Rightarrow> k bs s1) = Some (s', res)"
      by (auto simp: socksFull_def bind_eq_Some_conv)
    from stream_ReadFull_keeps [OF s1] k that(2) show ?thesis by (cases r) auto
  qed
  show ?thesis
    using assms unfolding socks5ReadRequest_def Let_def
    by (elim full) (auto split: if_splits elim!: full)
qed

text \<open>After the handshake.\<close>

lemma after_handshake:
  assumes s: "stream_readable s1" and room: "st_room s1 = None" and dec: "decodeRequest (stream_content s1) = (req, rest)"
    and dial: "\<And>a d. q a d \<noteq> (None, None)" "\<And>a d. t a d \<noteq> (None, None)"
    and hs: "socks5Handshake stream_read stream_write s = Some (s1, Inr ())"
  shows "\<exists>s' out. handleSocks5 stream_read stream_write cfg q t s = Some (s', out) \<and> stream_content s' = rest
    \<and> (case req of
         Inl _ \<Rightarrow> out = SocksClosed [] \<and> st_sent s' = st_sent s1 @ replyBytes 1
       | Inr a \<Rightarrow> (case selectTransport (rt_mode cfg) (rt_autoQUICTimeout cfg) (q a) (t a) of
             (shut, proxy, None) \<Rightarrow> (\<exists>p. proxy = Some p \<and> out = SocksRelaying shut p) \<and> st_sent s' = st_sent s1 @ replyBytes 0
           | (shut, _, Some e) \<Rightarrow> out = SocksClosed shut \<and> st_sent s' = st_sent s1 @ replyBytes 5))"
proof -
  obtain s2 where s2: "socks5ReadRequest stream_read s1 = Some (s2, req)" "stream_content s2 = rest"
    using stream_in.implements_request [OF s] dec by (auto simp: stream_in.implements_def)
  have keep: "st_sent s2 = st_sent s1" "st_room s2 = None"
    using socks5ReadRequest_keeps [OF s2(1)] room by simp_all
  show ?thesis
  proof (cases req)
    case (Inl e)
    with hs s2 keep show ?thesis by (simp add: handleSocks5_def socks5Reply_unlimited)
  next
    case (Inr a)
    obtain shut proxy err where sel: "selectTransport (rt_mode cfg) (rt_autoQUICTimeout cfg) (q a) (t a) = (shut, proxy, err)"
      by (metis prod_cases3)
    have "proxy \<noteq> None \<or> err \<noteq> None"
      using sel dial [of a] by (cases proxy; cases err) (auto simp: selectTransport_def split: if_splits option.splits prod.splits)
    then show ?thesis
      using Inr hs s2 keep sel
      by (cases err) (auto simp: handleSocks5_def chimeraConnect_def socks5Reply_unlimited)
  qed
qed

text \<open>The whole conversation as a function of the bytes that the application sends: the outcome, what the
  application is sent, and the bytes that are left.\<close>

definition conversation ::
  "runtimeConfig \<Rightarrow> (Address \<Rightarrow> 't transportDial) \<Rightarrow> (Address \<Rightarrow> 't transportDial) \<Rightarrow> bytes \<Rightarrow> 't socks_outcome \<times> bytes \<times> bytes" where
  "conversation cfg q t bs =
     (case decodeGreeting bs of
        (Inl _, rest) \<Rightarrow> (SocksClosed [], [], rest)
      | (Inr ms, rest) \<Rightarrow>
          if 0 \<notin> set ms then (SocksClosed [], [5, 0xff], rest)
          else case decodeRequest rest of
              (Inl _, rest') \<Rightarrow> (SocksClosed [], [5, 0] @ replyBytes 1, rest')
            | (Inr a, rest') \<Rightarrow>
                (case selectTransport (rt_mode cfg) (rt_autoQUICTimeout cfg) (q a) (t a) of
                   (shut, Some p, None) \<Rightarrow> (SocksRelaying shut p, [5, 0] @ replyBytes 0, rest')
                 | (shut, _, _) \<Rightarrow> (SocksClosed shut, [5, 0] @ replyBytes 5, rest')))"

lemma handleSocks5_conversation:
  assumes "stream_readable s" and "st_room s = None" and "st_sent s = []" and "\<forall>a d. q a d \<noteq> (None, None) \<and> t a d \<noteq> (None, None)"
    and "conversation cfg q t (stream_content s) = (out, sent, rest)"
  shows "\<exists>s'. handleSocks5 stream_read stream_write cfg q t s = Some (s', out) \<and> st_sent s' = sent \<and> stream_content s' = rest"
proof -
  obtain gr rest1 where gr: "decodeGreeting (stream_content s) = (gr, rest1)" by fastforce
  obtain s1 where s1: "socks5Handshake stream_read stream_write s =
        Some (s1, case gr of Inl e \<Rightarrow> Inl e | Inr ms \<Rightarrow> if 0 \<in> set ms then Inr () else Inl NoAuthNotOffered)"
      "st_sent s1 = (case gr of Inl e \<Rightarrow> [] | Inr ms \<Rightarrow> if 0 \<in> set ms then [5, 0] else [5, 0xff])"
      "stream_content s1 = rest1" "stream_readable s1" "st_room s1 = None"
    using socks5Handshake_spec [OF assms(1,2) gr] assms(3) by auto
  show ?thesis
  proof (cases "\<exists>ms. gr = Inr ms \<and> 0 \<in> set ms")
    case False
    with s1(1-3) gr assms(5) show ?thesis by (cases gr) (auto simp: handleSocks5_def conversation_def)
  next
    case True
    then obtain ms where ms: "gr = Inr ms" "0 \<in> set ms" by blast
    then have hs: "socks5Handshake stream_read stream_write s = Some (s1, Inr ())" "st_sent s1 = [5, 0]" using s1(1,2) by auto
    obtain req rest2 where req: "decodeRequest (stream_content s1) = (req, rest2)" by fastforce
    note after = after_handshake [OF s1(4,5) req _ _ hs(1), of q t cfg]
    show ?thesis
    proof (cases req)
      case (Inl e)
      with after assms(4,5) gr ms hs(2) req s1(3) show ?thesis by (auto simp: conversation_def)
    next
      case (Inr a)
      obtain shut proxy err where sel: "selectTransport (rt_mode cfg) (rt_autoQUICTimeout cfg) (q a) (t a) = (shut, proxy, err)"
        by (metis prod_cases3)
      with after assms(4,5) gr ms hs(2) req s1(3) Inr show ?thesis by (cases err; cases proxy) (auto simp: conversation_def)
    qed
  qed
qed

lemma conversation_relaying:
  "conversation cfg q t bs = (SocksRelaying shut p, sent, rest) \<longleftrightarrow> sent = [5, 0] @ replyBytes 0
     \<and> (\<exists>ms rsv target. bs = greetingBytes ms @ requestBytes rsv target @ rest \<and> length ms \<le> 255 \<and> 0 \<in> set ms \<and> socks_target target
          \<and> selectTransport (rt_mode cfg) (rt_autoQUICTimeout cfg) (q target) (t target) = (shut, Some p, None))"
  (is "?lhs \<longleftrightarrow> ?rhs")
proof
  assume ?lhs
  then obtain ms rest1 a where dec: "decodeGreeting bs = (Inr ms, rest1)" "0 \<in> set ms" "decodeRequest rest1 = (Inr a, rest)"
      "selectTransport (rt_mode cfg) (rt_autoQUICTimeout cfg) (q a) (t a) = (shut, Some p, None)" "sent = [5, 0] @ replyBytes 0"
    by (auto simp: conversation_def split: prod.splits sum.splits if_splits option.splits)
  then show ?rhs by (auto simp: decodeGreeting_iff decodeRequest_iff)
next
  assume ?rhs
  then obtain ms rsv target where "length ms \<le> 255" "bs = greetingBytes ms @ requestBytes rsv target @ rest" "0 \<in> set ms" "socks_target target"
    and sel: "selectTransport (rt_mode cfg) (rt_autoQUICTimeout cfg) (q target) (t target) = (shut, Some p, None)" "sent = [5, 0] @ replyBytes 0"
    by blast
  moreover from this have "decodeGreeting bs = (Inr ms, requestBytes rsv target @ rest)" "decodeRequest (requestBytes rsv target @ rest) = (Inr target, rest)"
    by (auto simp: decodeGreeting_iff decodeRequest_iff)
  ultimately show ?lhs by (simp add: conversation_def)
qed

lemma conversation_closed:
  "conversation cfg q t bs = (SocksClosed shut, sent, rest) \<Longrightarrow> sent \<in> {[], [5, 0xff], [5, 0] @ replyBytes 1, [5, 0] @ replyBytes 5}"
  by (auto simp: conversation_def split: prod.splits sum.splits if_splits option.splits)

text \<open>What follows a request is determined by the bytes.\<close>

lemma request_unique:
  assumes "greetingBytes ms @ requestBytes rsv a @ rest = greetingBytes ms' @ requestBytes rsv' a' @ rest'"
    and "length ms \<le> 255" "socks_target a" "length ms' \<le> 255" "socks_target a'"
  shows "rest = rest'"
  using assms by (metis decodeGreeting_iff decodeRequest_iff prod.inject sum.inject(2))

lemma selectTransport_auto:
  "0 < timeout \<Longrightarrow> selectTransport ''auto'' timeout dialQUIC dialTCP = (shut, Some p, None) \<longleftrightarrow>
     (dialQUIC (Some timeout) = (Some p, None) \<and> shut = [])
     \<or> (\<exists>c e. dialQUIC (Some timeout) = (c, Some e) \<and> shut = (case c of None \<Rightarrow> [] | Some c \<Rightarrow> [c]) \<and> dialTCP None = (Some p, None))"
  by (auto simp: selectTransport_def split: prod.splits option.splits)

text \<open>C12 (functional). The conversation with the application: whatever bytes it sends and however they are
  cut, the handler comes to an end or to a relay. It relays exactly when the application offered
  the method without authentication, then asked for a CONNECT to a well-formed target, and a
  transport to that target came about; then the application has got the two positive answers, and
  the first byte after the request is the first byte that is relayed. Otherwise it has got no
  positive reply: nothing, a refusal of the methods, or the error reply 1 (bad request) or 5 (no
  transport). In automatic mode the transport is QUIC if that can be dialled in time, else TCP.\<close>

theorem handleSocks5_spec:
  assumes "stream_readable s" and "st_room s = None" and "st_sent s = []"
    and "\<forall>a d. q a d \<noteq> (None, None) \<and> t a d \<noteq> (None, None)"
  shows "\<exists>s' out. handleSocks5 stream_read stream_write cfg q t s = Some (s', out)
    \<and> (\<forall>shut p. out = SocksRelaying shut p \<longleftrightarrow>
         (\<exists>ms rsv target rest. stream_content s = greetingBytes ms @ requestBytes rsv target @ rest
            \<and> length ms \<le> 255 \<and> 0 \<in> set ms \<and> socks_target target
            \<and> selectTransport (rt_mode cfg) (rt_autoQUICTimeout cfg) (q target) (t target) = (shut, Some p, None)))
    \<and> (\<forall>shut p ms rsv target rest. out = SocksRelaying shut p \<and> stream_content s = greetingBytes ms @ requestBytes rsv target @ rest
            \<and> length ms \<le> 255 \<and> socks_target target \<longrightarrow> st_sent s' = [5, 0] @ replyBytes 0 \<and> stream_content s' = rest)
    \<and> (\<forall>shut. out = SocksClosed shut \<longrightarrow> st_sent s' \<in> {[], [5, 0xff], [5, 0] @ replyBytes 1, [5, 0] @ replyBytes 5})
    \<and> (rt_mode cfg = ''auto'' \<and> 0 < rt_autoQUICTimeout cfg \<longrightarrow> (\<forall>shut p target.
         selectTransport (rt_mode cfg) (rt_autoQUICTimeout cfg) (q target) (t target) = (shut, Some p, None) \<longleftrightarrow>
           (q target (Some (rt_autoQUICTimeout cfg)) = (Some p, None) \<and> shut = [])
           \<or> (\<exists>c e. q target (Some (rt_autoQUICTimeout cfg)) = (c, Some e) \<and> shut = (case c of None \<Rightarrow> [] | Some c \<Rightarrow> [c])
                \<and> t target None = (Some p, None))))"
proof -
  obtain out sent rest where c: "conversation cfg q t (stream_content s) = (out, sent, rest)" by (metis prod_cases3)
  obtain s' where run: "handleSocks5 stream_read stream_write cfg q t s = Some (s', out)" "st_sent s' = sent" "stream_content s' = rest"
    using handleSocks5_conversation [OF assms c] by blast
  have relays: "out = SocksRelaying shut p \<longleftrightarrow> (\<exists>ms rsv target rest. stream_content s = greetingBytes ms @ requestBytes rsv target @ rest
      \<and> length ms \<le> 255 \<and> 0 \<in> set ms \<and> socks_target target
      \<and> selectTransport (rt_mode cfg) (rt_autoQUICTimeout cfg) (q target) (t target) = (shut, Some p, None))" for shut p
    using c conversation_relaying [of cfg q t "stream_content s" shut p] by (metis prod.inject)
  have positive: "sent = [5, 0] @ replyBytes 0 \<and> rest = rest'"
    if "out = SocksRelaying shut p" "stream_content s = greetingBytes ms @ requestBytes rsv target @ rest'" "length ms \<le> 255" "socks_target target"
    for shut p ms rsv target rest'
    using c conversation_relaying [of cfg q t "stream_content s" shut p sent rest] that request_unique by metis
  have negative: "sent \<in> {[], [5, 0xff], [5, 0] @ replyBytes 1, [5, 0] @ replyBytes 5}" if "out = SocksClosed shut" for shut
    using c that conversation_closed by blast
  show ?thesis
  proof (intro exI [of _ s'] exI [of _ out] conjI allI impI; (elim conjE)?)
    show "handleSocks5 stream_read stream_write cfg q t s = Some (s', out)" by (rule run(1))
  next
    fix shut p ms rsv target rest'
    assume "out = SocksRelaying shut p" "stream_content s = greetingBytes ms @ requestBytes rsv target @ rest'" "length ms \<le> 255" "socks_target target"
    from positive [OF this] show "st_sent s' = [5, 0] @ replyBytes 0" "stream_content s' = rest'" using run(2,3) by simp_all
  next
    fix shut
    assume "out = SocksClosed shut"
    from negative [OF this] show "st_sent s' \<in> {[], [5, 0xff], [5, 0] @ replyBytes 1, [5, 0] @ replyBytes 5}" using run(2) by simp
  qed (use relays in \<open>simp_all only: selectTransport_auto\<close>)
qed

text \<open>An application that asks for \<open>93.184.215.14:443\<close>, with QUIC out of reach; the byte after the request
  belongs to the relay.\<close>

definition ex_runtime :: runtimeConfig where
  "ex_runtime = \<lparr>rt_reality = \<lparr>rc_ServerAddr = ''a:1'', rc_ServerName = ''s'', rc_PublicKey = [], rc_ShortId = [1], rc_Fingerprint = ''chrome''\<rparr>,
     rt_mode = ''auto'', rt_serverAddr = ''a:1'', rt_serverName = ''s'', rt_quicAuthKey = ex_key, rt_quicFingerprint = [],
     rt_autoQUICTimeout = 1200000000\<rparr>"

definition ex_socks_target :: Address where
  "ex_socks_target = \<lparr>ad_Type = AtypIPv4, ad_IP = [93, 184, 215, 14], ad_Domain = [], ad_Port = 443\<rparr>"

theorem handleSocks5_spec_witness:
  "\<exists>s'. handleSocks5 stream_read stream_write ex_runtime (\<lambda>_ _. (None, Some (QuicDial DialFailed))) (\<lambda>_ _. (Some (7 :: nat), None))
       \<lparr>st_segments = [greetingBytes [2, 0], requestBytes 0 ex_socks_target @ [9]], st_sent = [], st_room = None\<rparr>
     = Some (s', SocksRelaying [] 7) \<and> st_sent s' = [5, 0] @ replyBytes 0 \<and> stream_content s' = [9]"
proof -
  let ?q = "\<lambda>_ _. (None, Some (QuicDial DialFailed))" and ?t = "\<lambda>_ _. (Some (7 :: nat), None)"
  let ?s = "\<lparr>st_segments = [greetingBytes [2, 0], requestBytes 0 ex_socks_target @ [9]], st_sent = [], st_room = None\<rparr>"
  have s: "stream_readable ?s" "st_room ?s = None" "st_sent ?s = []" "\<forall>a d. ?q a d \<noteq> (None, None) \<and> ?t a d \<noteq> (None, None)"
    by (simp_all add: stream_readable_def greetingBytes_def requestBytes_def)
  have sel: "selectTransport (rt_mode ex_runtime) (rt_autoQUICTimeout ex_runtime) (?q a) (?t a) = ([], Some 7, None)" for a :: Address
    by (simp add: selectTransport_def ex_runtime_def)
  have bs: "stream_content ?s = greetingBytes [2, 0] @ requestBytes 0 ex_socks_target @ [9]" "socks_target ex_socks_target"
    by (simp_all add: stream_content_def socks_target_def ex_socks_target_def)
  from handleSocks5_spec [OF s, of ex_runtime] obtain s' out where
    out: "handleSocks5 stream_read stream_write ex_runtime ?q ?t ?s = Some (s', out)"
    and relays: "\<forall>shut p. out = SocksRelaying shut p \<longleftrightarrow>
         (\<exists>ms rsv target rest. stream_content ?s = greetingBytes ms @ requestBytes rsv target @ rest
            \<and> length ms \<le> 255 \<and> 0 \<in> set ms \<and> socks_target target
            \<and> selectTransport (rt_mode ex_runtime) (rt_autoQUICTimeout ex_runtime) (?q target) (?t target) = (shut, Some p, None))"
    and rest: "\<forall>shut p ms rsv target rest. out = SocksRelaying shut p \<and> stream_content ?s = greetingBytes ms @ requestBytes rsv target @ rest
            \<and> length ms \<le> 255 \<and> socks_target target \<longrightarrow> st_sent s' = [5, 0] @ replyBytes 0 \<and> stream_content s' = rest"
    by (elim exE conjE)
  have relaying: "out = SocksRelaying [] 7"
    unfolding relays [rule_format] by (rule exI [of _ "[2, 0]"], rule exI [of _ 0], rule exI [of _ ex_socks_target], rule exI [of _ "[9]"])
      (simp add: bs sel)
  then have "st_sent s' = [5, 0] @ replyBytes 0 \<and> stream_content s' = [9]"
    using rest [rule_format, of "[]" 7 "[2, 0]" 0 ex_socks_target "[9]"] bs by simp
  with out relaying show ?thesis by blast
qed

end
