(* ===== verification/Server_Main.thy ===== *)
theory Server_Main
  imports Udp_Client Padstream Relay
begin

text \<open>
  The server program (\<open>cmd/chimera-server/main.go\<close>), with the listener of
  \<open>internal/realserv/server.go\<close> and \<open>GenerateKeyPair\<close> of \<open>internal/chimera/chimera.go\<close>.

  \<open>serverMain\<close> is \<open>main\<close> as a function of the parsed flags: it ends with a fatal error, with printed
  text, or in the loop that accepts connections. \<open>handleConn\<close> is what happens to each of them, over
  a raw connection that is an argument by its read and write functions; \<open>tape\<close> is the randomness of
  its padding. \<open>github.com/xtls/reality\<close>, \<open>crypto/ecdh\<close> and the random source are arguments.
  Logging is left out.

  Lemmas: path cleaning keeps a path free of the characters it was free of; splitting and joining
  are inverse.
\<close>

section \<open>Parsing of flags\<close>

definition generatePSK :: "bytes option \<Rightarrow> string option" where
  "generatePSK random = map_option b64_EncodeToString random"

definition decodePSK :: "string \<Rightarrow> bytes option" where
  "decodePSK encoded =
     (case b64_DecodeString (TrimSpace encoded) of
        None \<Rightarrow> None
      | Some psk \<Rightarrow> if length psk \<noteq> 32 then None else Some psk)"

text \<open>The loop returns at the first short ID for which the derivation fails.\<close>

fun deriveKeys ::
  "(bytes \<Rightarrow> bytes \<Rightarrow> bytes \<Rightarrow> nat \<Rightarrow> bytes option) \<Rightarrow> bytes \<Rightarrow> bytes \<Rightarrow> bytes list \<Rightarrow> bytes list \<Rightarrow> auth_error + bytes list" where
  "deriveKeys hkdf psk publicKey [] keys = Inr keys"
| "deriveKeys hkdf psk publicKey (shortID # rest) keys =
     (case DeriveAuthKey hkdf psk publicKey shortID of
        Inl e \<Rightarrow> Inl e
      | Inr key \<Rightarrow> deriveKeys hkdf psk publicKey rest (keys @ [key]))"

datatype server_fatal =
    RandomFailed | SniRequired | InvalidUnit | CertInfoFailed cert_error | PrivateKeyRequired | InvalidPrivateKey
  | InvalidShortIDs | ShortIDRequired | RealityListenFailed | InvalidServerPSK | InvalidX25519Key
  | NoShortIDs | KeyDerivationFailed auth_error | QuicListenError listen_error

definition deriveServerAuthKeys ::
  "(bytes \<Rightarrow> bytes \<Rightarrow> bytes \<Rightarrow> nat \<Rightarrow> bytes option) \<Rightarrow> bytes \<Rightarrow> bytes \<Rightarrow> bytes list \<Rightarrow> server_fatal + bytes list" where
  "deriveServerAuthKeys hkdf psk publicKey shortIDs =
     (if length shortIDs = 0 then Inl NoShortIDs
      else case deriveKeys hkdf psk publicKey shortIDs [] of Inl e \<Rightarrow> Inl (KeyDerivationFailed e) | Inr keys \<Rightarrow> Inr keys)"

definition parseServerNames :: "unicode_tables \<Rightarrow> string \<Rightarrow> string list" where
  "parseServerNames U txt = filter (\<lambda>name. name \<noteq> []) (map (\<lambda>item. ToLower U (TrimSpace item)) (split_on CHR '','' txt))"

fun parseIDs :: "string list \<Rightarrow> bytes list \<Rightarrow> bytes list option" where
  "parseIDs [] ids = Some ids"
| "parseIDs (item0 # items) ids =
     (let item = TrimSpace item0 in
      if item = [] then parseIDs items ids
      else case hex_DecodeString item of
          None \<Rightarrow> None
        | Some shortID \<Rightarrow>
            if length shortID = 0 \<or> 8 < length shortID then None else parseIDs items (ids @ [shortID]))"

definition parseShortIDs :: "string \<Rightarrow> bytes list option" where
  "parseShortIDs txt = parseIDs (split_on CHR '','' txt) []"

fun envFirst :: "(string \<Rightarrow> string) \<Rightarrow> string list \<Rightarrow> string" where
  "envFirst getenv [] = []"
| "envFirst getenv (name # names) =
     (let txt = TrimSpace (getenv name) in if txt \<noteq> [] then txt else envFirst getenv names)"

section \<open>The systemd unit\<close>

text \<open>What is used of packages \<open>strings\<close> and \<open>path\<close>.\<close>

definition TrimSuffix1 :: "string \<Rightarrow> char \<Rightarrow> string" where
  "TrimSuffix1 s c = (if s \<noteq> [] \<and> last s = c then butlast s else s)"

definition HasPrefix1 :: "string \<Rightarrow> char \<Rightarrow> bool" where
  "HasPrefix1 s c \<longleftrightarrow> s \<noteq> [] \<and> hd s = c"

fun join_with :: "char \<Rightarrow> string list \<Rightarrow> string" where
  "join_with d [] = []"
| "join_with d [s] = s"
| "join_with d (s # t # ts) = s @ [d] @ join_with d (t # ts)"

definition cleanStep :: "bool \<Rightarrow> string \<Rightarrow> string list \<Rightarrow> string list" where
  "cleanStep rooted seg acc =
     (if seg = [] \<or> seg = ''.'' then acc
      else if seg = ''..'' then
        (if acc \<noteq> [] \<and> last acc \<noteq> ''..'' then butlast acc else if rooted then acc else acc @ [seg])
      else acc @ [seg])"

definition path_Clean :: "string \<Rightarrow> string" where
  "path_Clean p =
     (let rooted = HasPrefix1 p CHR ''/'';
          segs = fold (cleanStep rooted) (split_on CHR ''/'' p) [];
          res = (if rooted then ''/'' else []) @ join_with CHR ''/'' segs
      in if res = [] then ''.'' else res)"

definition path_Join2 :: "string \<Rightarrow> string \<Rightarrow> string" where
  "path_Join2 a b = (if a = [] \<and> b = [] then [] else if a = [] then path_Clean b else path_Clean (a @ ''/'' @ b))"

definition unit_forbidden :: string where
  "unit_forbidden = [CHR 0x09, CHR 0x0D, CHR 0x0A, CHR '' '', CHR 0x27, CHR 0x22]"

definition unitLines :: "string \<Rightarrow> string \<Rightarrow> string \<Rightarrow> string \<Rightarrow> string \<Rightarrow> string list" where
  "unitLines keysPath binaryPath listen target sni =
     [''[Unit]'',
      ''Description=Chimera Proxy Server'',
      ''After=network-online.target'',
      ''Wants=network-online.target'',
      [],
      ''[Service]'',
      ''EnvironmentFile='' @ keysPath,
      ''Environment=CHIMERA_QUIC_CERT=/var/lib/chimera/quic-v5-cert.pem'',
      ''ExecStart='' @ binaryPath @ '' -listen '' @ listen @ '' -target '' @ target @ '' -sni '' @ sni,
      ''DynamicUser=true'',
      ''WorkingDirectory=/var/lib/chimera'',
      ''StateDirectory=chimera'',
      ''StateDirectoryMode=0700'',
      ''UMask=0077'',
      ''Restart=on-failure'',
      ''RestartSec=3'',
      ''LimitNOFILE=65535'',
      ''NoNewPrivileges=true'',
      ''CapabilityBoundingSet=CAP_NET_BIND_SERVICE'',
      ''AmbientCapabilities=CAP_NET_BIND_SERVICE'',
      ''RestrictAddressFamilies=AF_INET AF_INET6'',
      ''ProtectSystem=strict'',
      ''ProtectHome=true'',
      ''PrivateTmp=true'',
      ''PrivateDevices=true'',
      ''ProtectKernelTunables=true'',
      ''ProtectControlGroups=true'',
      ''RestrictSUIDSGID=true'',
      ''LockPersonality=true'',
      [],
      ''[Install]'',
      ''WantedBy=multi-user.target'']"

definition renderSystemdUnit :: "string \<Rightarrow> string \<Rightarrow> string \<Rightarrow> string \<Rightarrow> string option" where
  "renderSystemdUnit installDir0 listen0 target0 sni0 =
     (let installDir = TrimSuffix1 (TrimSpace installDir0) CHR ''/'';
          listen = TrimSpace listen0; target = TrimSpace target0; sni = TrimSpace sni0 in
      if \<not> HasPrefix1 installDir CHR ''/'' \<or> installDir = ''/'' \<or> ContainsAny installDir unit_forbidden then None
      else if list_ex (\<lambda>v. v = [] \<or> ContainsAny v unit_forbidden) [listen, target, sni] then None
      else
        let binaryPath = path_Join2 installDir ''chimera-server''; keysPath = path_Join2 installDir ''keys.env'' in
        Some (concat (map (\<lambda>l. l @ [CHR 0x0A]) (unitLines keysPath binaryPath listen target sni))))"

section \<open>The REALITY listener\<close>

record reality_server =
  rs_ListenAddr :: string
  rs_Target :: string
  rs_ServerNames :: "string list"
  rs_PrivateKey :: bytes
  rs_ShortIds :: "bytes list"
  rs_Show :: bool

text \<open>\<open>reality.Config\<close>: the fields that are set.\<close>

record reality_Config =
  rv_Show :: bool
  rv_Type :: string
  rv_Dest :: string
  rv_SessionTicketsDisabled :: bool
  rv_ServerNames :: "(string, bool) gomap"
  rv_PrivateKey :: bytes
  rv_ShortIds :: "(bytes, bool) gomap"

definition shortIdArray :: "bytes \<Rightarrow> bytes" where
  "shortIdArray sid = take 8 sid @ replicate (8 - length sid) 0"

text \<open>\<open>listenTCP\<close>: the socket opens.\<close>

definition reality_Listen :: "(string \<Rightarrow> bool) \<Rightarrow> reality_server \<Rightarrow> reality_Config option" where
  "reality_Listen listenTCP config =
     (let rc = \<lparr>rv_Show = rs_Show config, rv_Type = ''tcp'', rv_Dest = rs_Target config, rv_SessionTicketsDisabled = True,
                rv_ServerNames = fold (\<lambda>sn m. gm_put sn True m) (rs_ServerNames config) [],
                rv_PrivateKey = rs_PrivateKey config,
                rv_ShortIds = fold (\<lambda>sid m. gm_put (shortIdArray sid) True m) (rs_ShortIds config) []\<rparr>
      in if listenTCP (rs_ListenAddr config) then Some rc else None)"

section \<open>main\<close>

definition defaultUDPRelayEnabled :: bool where "defaultUDPRelayEnabled = True"

record server_flags =
  sf_genKey :: bool
  sf_genPSK :: bool
  sf_quicCertInfo :: bool
  sf_systemdUnit :: bool
  sf_installDir :: string
  sf_listen :: string
  sf_target :: string
  sf_sniList :: string
  sf_privKey :: string
  sf_sidList :: string
  sf_show :: bool
  sf_quicListen :: string
  sf_quicPSK :: string
  sf_quicCertPath :: string
  sf_quicCertFile :: string
  sf_quicKeyFile :: string
  sf_quicDisable :: bool
  sf_udpDisable :: bool
  sf_printFP :: bool

text \<open>The flags when none is given.\<close>

definition defaultFlags :: "(string \<Rightarrow> string) \<Rightarrow> server_flags" where
  "defaultFlags getenv =
     \<lparr>sf_genKey = False, sf_genPSK = False, sf_quicCertInfo = False, sf_systemdUnit = False, sf_installDir = ''/opt/chimera'',
      sf_listen = '':443'', sf_target = ''www.microsoft.com:443'', sf_sniList = ''www.microsoft.com'',
      sf_privKey = envFirst getenv [''CHIMERA_PRIVATE_KEY'', ''PRIV''],
      sf_sidList = envFirst getenv [''CHIMERA_SHORT_IDS'', ''SID''], sf_show = False, sf_quicListen = [],
      sf_quicPSK = getenv ''CHIMERA_QUIC_PSK'', sf_quicCertPath = getenv ''CHIMERA_QUIC_CERT'',
      sf_quicCertFile = [], sf_quicKeyFile = [], sf_quicDisable = False, sf_udpDisable = False, sf_printFP = False\<rparr>"

text \<open>\<open>crypto/ecdh\<close>: a fresh key pair (private, public), and the public key of a private one.\<close>

record main_env =
  me_listen :: listen_env
  me_hkdf :: "bytes \<Rightarrow> bytes \<Rightarrow> bytes \<Rightarrow> nat \<Rightarrow> bytes option"
  me_GenerateKey :: "(bytes \<times> bytes) option"
  me_PublicKey :: "bytes \<Rightarrow> bytes option"
  me_randomPSK :: "bytes option"
  me_randomSID :: "bytes option"
  me_listenTCP :: "string \<Rightarrow> bool"

definition GenerateKeyPair :: "(bytes \<times> bytes) option \<Rightarrow> (string \<times> string) option" where
  "GenerateKeyPair generated =
     (case generated of None \<Rightarrow> None | Some (priv, pub) \<Rightarrow> Some (b64_EncodeToString priv, b64_EncodeToString pub))"

datatype main_result =
    MainFatal server_fatal
  | Printed "string list"
  | Accepting reality_Config "(Server \<times> ServerInfo) option" "string list"

definition certInfoPath :: "server_flags \<Rightarrow> string" where
  "certInfoPath flags = (let path = TrimSpace (sf_quicCertPath flags) in if path = [] then ''quic-v5-cert.pem'' else path)"

text \<open>The settings of the HTTP/3 server; every field that is not named has Go's zero value.\<close>

definition quicServerConfig :: "server_flags \<Rightarrow> string \<Rightarrow> bytes list \<Rightarrow> ServerConfig" where
  "quicServerConfig flags serverName authKeys =
     \<lparr>sc_ListenAddr = (if sf_quicListen flags = [] then sf_listen flags else sf_quicListen flags), sc_ServerName = serverName,
      sc_AuthKeys = authKeys, sc_CertificatePath = sf_quicCertPath flags, sc_CertificateFile = sf_quicCertFile flags,
      sc_PrivateKeyFile = sf_quicKeyFile flags, sc_DecoyTarget = sf_target flags,
      sc_DecoyOptions = \<lparr>do_Fetch = None, do_HTTPClient = None\<rparr>, sc_DecoyRefreshInterval = 0,
      sc_Limits = \<lparr>lc_MaxConcurrent = 0, lc_PerIPBurst = 0, lc_PerIPWindow = 0, lc_MaxTrackedIPs = 0\<rparr>,
      sc_Network = \<lparr>nh_LookupIP = None, nh_DialContext = None, nh_ListenPacket = None\<rparr>, sc_TargetDialTimeout = 0,
      sc_AuthenticationSkew = 0, sc_ReplayCapacity = 0, sc_QUICConfig = None,
      sc_EnableUDPRelay = defaultUDPRelayEnabled \<and> \<not> sf_udpDisable flags,
      sc_UDPMaxPacketSize = 0, sc_UDPMaxSessions = 0, sc_UDPIdleTimeout = 0\<rparr>"

text \<open>The part of \<open>main\<close> after the REALITY listener is open.\<close>

definition startQUIC ::
  "main_env \<Rightarrow> server_flags \<Rightarrow> string \<Rightarrow> bytes \<Rightarrow> bytes list \<Rightarrow> server_fatal + (Server \<times> ServerInfo) option" where
  "startQUIC me flags serverName privKey shortIDs =
     (if sf_quicDisable flags then Inr None
      else case decodePSK (sf_quicPSK flags) of
          None \<Rightarrow> Inl InvalidServerPSK
        | Some psk \<Rightarrow>
            (case me_PublicKey me privKey of
               None \<Rightarrow> Inl InvalidX25519Key
             | Some publicKey \<Rightarrow>
                 (case deriveServerAuthKeys (me_hkdf me) psk publicKey shortIDs of
                    Inl e \<Rightarrow> Inl e
                  | Inr authKeys \<Rightarrow>
                      (case ListenServerWithConfig (me_listen me) (quicServerConfig flags serverName authKeys) of
                         Inl e \<Rightarrow> Inl (QuicListenError e)
                       | Inr (server, info) \<Rightarrow> Inr (Some (server, info))))))"

definition serve :: "main_env \<Rightarrow> server_flags \<Rightarrow> string list \<Rightarrow> main_result" where
  "serve me flags serverNames =
     (if sf_privKey flags = [] then MainFatal PrivateKeyRequired
      else case b64_DecodeString (sf_privKey flags) of
          None \<Rightarrow> MainFatal InvalidPrivateKey
        | Some privKey \<Rightarrow>
            if length privKey \<noteq> 32 then MainFatal InvalidPrivateKey
            else case parseShortIDs (sf_sidList flags) of
                None \<Rightarrow> MainFatal InvalidShortIDs
              | Some shortIDs \<Rightarrow>
                  if length shortIDs = 0 then MainFatal ShortIDRequired
                  else case reality_Listen (me_listenTCP me)
                      \<lparr>rs_ListenAddr = sf_listen flags, rs_Target = sf_target flags, rs_ServerNames = serverNames,
                       rs_PrivateKey = privKey, rs_ShortIds = shortIDs, rs_Show = sf_show flags\<rparr> of
                      None \<Rightarrow> MainFatal RealityListenFailed
                    | Some rc \<Rightarrow>
                        (case startQUIC me flags (serverNames ! 0) privKey shortIDs of
                           Inl e \<Rightarrow> MainFatal e
                         | Inr None \<Rightarrow> Accepting rc None []
                         | Inr (Some (server, info)) \<Rightarrow>
                             Accepting rc (Some (server, info))
                               (if sf_printFP flags then [''QUIC Fingerprint: '' @ si_Fingerprint info] else [])))"

definition serverMain :: "main_env \<Rightarrow> server_flags \<Rightarrow> main_result" where
  "serverMain me flags =
     (if sf_genPSK flags then
        (case generatePSK (me_randomPSK me) of
           None \<Rightarrow> MainFatal RandomFailed | Some psk \<Rightarrow> Printed [''QUIC PSK:     '' @ psk])
      else if sf_genKey flags then
        (case GenerateKeyPair (me_GenerateKey me) of
           None \<Rightarrow> MainFatal RandomFailed
         | Some (priv, pub) \<Rightarrow>
             (case me_randomSID me of
                None \<Rightarrow> MainFatal RandomFailed
              | Some sid \<Rightarrow>
                  (case generatePSK (me_randomPSK me) of
                     None \<Rightarrow> MainFatal RandomFailed
                   | Some psk \<Rightarrow>
                       Printed [''Private Key: '' @ priv, ''Public Key:  '' @ pub,
                         ''Short ID:    '' @ hex_EncodeToString sid, ''QUIC PSK:    '' @ psk])))
      else
        let serverNames = parseServerNames (le_unicode (me_listen me)) (sf_sniList flags) in
        if length serverNames = 0 then MainFatal SniRequired
        else if sf_systemdUnit flags then
          (case renderSystemdUnit (sf_installDir flags) (sf_listen flags) (sf_target flags) (serverNames ! 0) of
             None \<Rightarrow> MainFatal InvalidUnit | Some unit \<Rightarrow> Printed [unit])
        else if sf_quicCertInfo flags then
          (case snd (EnsureCertificate (le_cert (me_listen me)) (certInfoPath flags) (serverNames ! 0)
                 (le_now (me_listen me)) (le_files (me_listen me))) of
             Inl e \<Rightarrow> MainFatal (CertInfoFailed e)
           | Inr fingerprint \<Rightarrow> Printed [''QUIC Fingerprint: '' @ fingerprint])
        else serve me flags serverNames)"

section \<open>A connection\<close>

datatype conn_end =
    HeaderRejected wire_error | ResponseFailed io_error | TargetRejected wire_error | UnsupportedCmd byte
  | TargetBlocked guard_error | TargetDialFailed string | ReplyFailed string io_error

text \<open>The raw connection is closed when the handler ends; a target that was dialled is then closed too.\<close>

datatype 'raw conn_outcome = Ended conn_end 'raw | RelayingTo string "'raw Conn"

definition handleConn ::
  "'raw reader \<Rightarrow> 'raw writer \<Rightarrow> ('raw \<Rightarrow> 'raw) \<Rightarrow> (nat \<Rightarrow> dice) \<Rightarrow> lookup \<Rightarrow> (string \<Rightarrow> bool) \<Rightarrow> 'raw
     \<Rightarrow> 'raw conn_outcome option" where
  "handleConn read wr closeRaw tape lookup dial conn0 =
     Option.bind (ReadSessionHeader read conn0) (\<lambda>(conn1, res1). case res1 of
         Inl e \<Rightarrow> Some (Ended (HeaderRejected e) (closeRaw conn1))
       | Inr flags \<Rightarrow>
           Option.bind (WriteSessionResponse wr StatusOK conn1) (\<lambda>(conn2, err2). case err2 of
               Some e \<Rightarrow> Some (Ended (ResponseFailed e) (closeRaw conn2))
             | None \<Rightarrow>
                 Option.bind (ReadTargetConnect (Conn_Read read wr) (New tape conn2 DefaultPolicy)) (\<lambda>(pc3, res3). case res3 of
                     Inl e \<Rightarrow> Some (Ended (TargetRejected e) (closeRaw (pc_raw pc3)))
                   | Inr (cmd, addr) \<Rightarrow>
                       if cmd \<noteq> CmdConnect then Some (Ended (UnsupportedCmd cmd) (closeRaw (pc_raw pc3)))
                       else case ResolveAndValidateAuthority lookup (Address_String addr) of
                           Inl e \<Rightarrow>
                             Option.bind (WriteSessionResponse (Conn_Write wr) StatusDialError pc3) (\<lambda>(pc4, _).
                               Some (Ended (TargetBlocked e) (closeRaw (pc_raw pc4))))
                         | Inr validatedTarget \<Rightarrow>
                             if \<not> dial validatedTarget then
                               Option.bind (WriteSessionResponse (Conn_Write wr) StatusDialError pc3) (\<lambda>(pc4, _).
                                 Some (Ended (TargetDialFailed validatedTarget) (closeRaw (pc_raw pc4))))
                             else
                               Option.bind (WriteSessionResponse (Conn_Write wr) StatusOK pc3) (\<lambda>(pc4, err4). case err4 of
                                   Some e \<Rightarrow> Some (Ended (ReplyFailed validatedTarget e) (closeRaw (pc_raw pc4)))
                                 | None \<Rightarrow> Some (RelayingTo validatedTarget pc4)))))"

section \<open>Lines and words\<close>

lemma set_split_on: "x \<in> set (split_on d s) \<Longrightarrow> set x \<subseteq> set s"
  by (induction d s arbitrary: x rule: split_on.induct) (force split: if_splits list.splits)+

lemma set_join_with: "set (join_with d xs) \<subseteq> insert d (\<Union> (set ` set xs))"
  by (induction d xs rule: join_with.induct) auto

lemma set_cleanStep: "set (fold (cleanStep rooted) segs acc) \<subseteq> set acc \<union> set segs"
proof (induction segs arbitrary: acc)
  case (Cons seg segs)
  have "set (cleanStep rooted seg acc) \<subseteq> set acc \<union> {seg}"
    by (auto simp: cleanStep_def dest: in_set_butlastD)
  with Cons [of "cleanStep rooted seg acc"] show ?case by auto
qed simp

lemma set_path_Clean: "set (path_Clean p) \<subseteq> {CHR ''/'', CHR ''.''} \<union> set p"
proof -
  let ?rooted = "HasPrefix1 p CHR ''/''"
  let ?segs = "fold (cleanStep ?rooted) (split_on CHR ''/'' p) []"
  have "set x \<subseteq> set p" if "x \<in> set ?segs" for x
    using that set_cleanStep [of ?rooted "split_on CHR ''/'' p" "[]"] set_split_on by fastforce
  then have "set (join_with CHR ''/'' ?segs) \<subseteq> {CHR ''/''} \<union> set p"
    using set_join_with [of "CHR ''/''" ?segs] by blast
  then show ?thesis by (auto simp: path_Clean_def Let_def)
qed

lemma set_path_Join2: "a \<noteq> [] \<Longrightarrow> set (path_Join2 a b) \<subseteq> {CHR ''/'', CHR ''.''} \<union> set a \<union> set b"
  using set_path_Clean [of "a @ ''/'' @ b"] by (auto simp: path_Join2_def)

lemma hd_path_Join2: "HasPrefix1 a CHR ''/'' \<Longrightarrow> HasPrefix1 (path_Join2 a b) CHR ''/''"
  by (auto simp: path_Join2_def path_Clean_def HasPrefix1_def Let_def)

lemma split_lines: "\<forall>l \<in> set ls. d \<notin> set l \<Longrightarrow> split_on d (concat (map (\<lambda>l. l @ [d]) ls)) = ls @ [[]]"
  by (induction ls) (simp_all add: split_on_append)

section \<open>Relaying connections\<close>

lemma handleConn_relaying:
  assumes "handleConn read wr closeRaw tape lookup dial conn = Some (RelayingTo target pc)"
  obtains conn1 flags conn2 pc3 addr where "ReadSessionHeader read conn = Some (conn1, Inr flags)"
    "WriteSessionResponse wr StatusOK conn1 = Some (conn2, None)"
    "ReadTargetConnect (Conn_Read read wr) (New tape conn2 DefaultPolicy) = Some (pc3, Inr (CmdConnect, addr))"
    "ResolveAndValidateAuthority lookup (Address_String addr) = Inr target" "dial target"
    "WriteSessionResponse (Conn_Write wr) StatusOK pc3 = Some (pc, None)"
proof -
  from assms obtain conn1 res1 where s1: "ReadSessionHeader read conn = Some (conn1, res1)"
    unfolding handleConn_def by (auto simp: bind_eq_Some_conv)
  with assms obtain flags where r1: "res1 = Inr flags" unfolding handleConn_def by (cases res1) auto
  note a1 = assms [unfolded handleConn_def s1 r1, simplified]
  from a1 obtain conn2 err2 where s2: "WriteSessionResponse wr StatusOK conn1 = Some (conn2, err2)"
    by (auto simp: bind_eq_Some_conv)
  with a1 have e2: "err2 = None" by (cases err2) auto
  note a2 = a1 [unfolded s2 e2, simplified]
  from a2 obtain pc3 res3 where s3: "ReadTargetConnect (Conn_Read read wr) (New tape conn2 DefaultPolicy) = Some (pc3, res3)"
    by (auto simp: bind_eq_Some_conv)
  with a2 obtain cmd addr where r3: "res3 = Inr (cmd, addr)" by (cases res3) auto
  note a3 = a2 [unfolded s3 r3, simplified]
  from a3 have cmd: "cmd = CmdConnect" by (auto split: if_splits)
  note a4 = a3 [unfolded cmd, simplified]
  from a4 obtain validated where v: "ResolveAndValidateAuthority lookup (Address_String addr) = Inr validated"
    by (cases "ResolveAndValidateAuthority lookup (Address_String addr)") (auto simp: bind_eq_Some_conv)
  note a5 = a4 [unfolded v, simplified]
  from a5 have d: "dial validated" by (auto simp: bind_eq_Some_conv split: if_splits)
  with a5 obtain pc4 err4 where s4: "WriteSessionResponse (Conn_Write wr) StatusOK pc3 = Some (pc4, err4)"
    by (auto simp: bind_eq_Some_conv)
  with a5 d have "err4 = None" "validated = target" "pc4 = pc" by (cases err4; auto)+
  with that s1 r1 s2 e2 s3 r3 cmd v d s4 show thesis by blast
qed

section \<open>Properties\<close>

text \<open>The last value of the command line may end in a backslash.\<close>

lemma backslash_accepted:
  "map_option (\<lambda>unit. drop 40 (split_on CHR 0x0A unit ! 8)) (renderSystemdUnit ''/opt'' ''l'' ''t'' [CHR ''s'', CHR 0x5C])
     = Some (''-target t -sni s'' @ [CHR 0x5C])"
  by code_simp

text \<open>C18 (safety). The rendered systemd unit cannot be extended through its values: whenever one is
  rendered, its lines are exactly the lines of the template, and the words of its command line are
  the program, then each flag with the one value that was given for it. No value can bring in a
  further line, word or quotation mark, and the program is an absolute path. (The characters that
  systemd itself treats specially are not rejected: the percent and the dollar sign, and the backslash, which at
  the end of the last value joins the line with the next one: \<open>backslash_accepted\<close>.)\<close>

theorem systemd_unit_safe:
  assumes "renderSystemdUnit installDir listen target sni = Some unit"
  shows "\<exists>keysPath binaryPath. split_on CHR 0x0A unit = unitLines keysPath binaryPath (TrimSpace listen) (TrimSpace target) (TrimSpace sni) @ [[]]
    \<and> split_on CHR 0x0A unit ! 8 = ''ExecStart='' @ drop 10 (split_on CHR 0x0A unit ! 8)
    \<and> split_on CHR '' '' (drop 10 (split_on CHR 0x0A unit ! 8))
        = [binaryPath, ''-listen'', TrimSpace listen, ''-target'', TrimSpace target, ''-sni'', TrimSpace sni]
    \<and> binaryPath \<noteq> [] \<and> hd binaryPath = CHR ''/''
    \<and> (\<forall>v \<in> {keysPath, binaryPath, TrimSpace listen, TrimSpace target, TrimSpace sni}. v \<noteq> [] \<and> CHR 0x22 \<notin> set v \<and> CHR 0x27 \<notin> set v)"
proof -
  let ?dir = "TrimSuffix1 (TrimSpace installDir) CHR ''/''"
  let ?bin = "path_Join2 ?dir ''chimera-server''" and ?keys = "path_Join2 ?dir ''keys.env''"
  let ?l = "TrimSpace listen" and ?t = "TrimSpace target" and ?s = "TrimSpace sni"
  have dir: "HasPrefix1 ?dir CHR ''/''" "\<not> ContainsAny ?dir unit_forbidden"
    and vals: "\<forall>v \<in> {?l, ?t, ?s}. v \<noteq> [] \<and> \<not> ContainsAny v unit_forbidden"
    and unit: "unit = concat (map (\<lambda>l. l @ [CHR 0x0A]) (unitLines ?keys ?bin ?l ?t ?s))"
    using assms by (auto simp: renderSystemdUnit_def Let_def split: if_splits)
  have "?dir \<noteq> []" using dir(1) by (auto simp: HasPrefix1_def)
  then have sets: "set ?bin \<subseteq> {CHR ''/'', CHR ''.''} \<union> set ?dir \<union> set ''chimera-server''" "set ?keys \<subseteq> {CHR ''/'', CHR ''.''} \<union> set ?dir \<union> set ''keys.env''"
    by (rule set_path_Join2)+
  have paths: "?bin \<noteq> []" "hd ?bin = CHR ''/''" "?keys \<noteq> []"
    using hd_path_Join2 [OF dir(1)] by (auto simp: HasPrefix1_def)
  have free: "\<forall>v \<in> {?keys, ?bin, ?l, ?t, ?s}. c \<notin> set v" if "c \<in> set unit_forbidden" for c
    using that vals dir(2) sets by (auto simp: ContainsAny_iff unit_forbidden_def)
  have chars: "CHR 0x0A \<in> set unit_forbidden" "CHR '' '' \<in> set unit_forbidden" "CHR 0x22 \<in> set unit_forbidden" "CHR 0x27 \<in> set unit_forbidden"
    by (simp_all add: unit_forbidden_def)
  have "\<forall>l \<in> set (unitLines ?keys ?bin ?l ?t ?s). CHR 0x0A \<notin> set l"
    using free [OF chars(1)] by (simp add: unitLines_def)
  then have split: "split_on CHR 0x0A unit = unitLines ?keys ?bin ?l ?t ?s @ [[]]" unfolding unit by (rule split_lines)
  have line: "split_on CHR 0x0A unit ! 8 = ''ExecStart='' @ ?bin @ '' '' @ ''-listen'' @ '' '' @ ?l @ '' '' @ ''-target'' @ '' '' @ ?t @ '' '' @ ''-sni'' @ '' '' @ ?s"
    unfolding split by (simp add: unitLines_def)
  have words: "split_on CHR '' '' (?bin @ '' '' @ ''-listen'' @ '' '' @ ?l @ '' '' @ ''-target'' @ '' '' @ ?t @ '' '' @ ''-sni'' @ '' '' @ ?s)
      = [?bin, ''-listen'', ?l, ''-target'', ?t, ''-sni'', ?s]"
    using free [OF chars(2)] split_on_append [of "CHR '' ''" "''-listen''"] split_on_append [of "CHR '' ''" "''-target''"] split_on_append [of "CHR '' ''" "''-sni''"]
    by (simp add: split_on_append split_on_none)
  show ?thesis
    using split line words paths vals free [OF chars(3)] free [OF chars(4)] by (intro exI [of _ ?keys] exI [of _ ?bin]) simp
qed

text \<open>The values that the installer uses.\<close>

theorem systemd_unit_safe_witness:
  "\<exists>unit binaryPath. renderSystemdUnit ''/opt/chimera'' '':443'' ''a.b:443'' ''a.b'' = Some unit
     \<and> split_on CHR '' '' (drop 10 (split_on CHR 0x0A unit ! 8)) = [binaryPath, ''-listen'', '':443'', ''-target'', ''a.b:443'', ''-sni'', ''a.b'']"
proof -
  have trim: "TrimSpace ''/opt/chimera'' = ''/opt/chimera''" "TrimSpace '':443'' = '':443''" "TrimSpace ''a.b:443'' = ''a.b:443''" "TrimSpace ''a.b'' = ''a.b''"
    by (rule TrimSpace_plain, simp add: plain_def plain_char_def)+
  obtain unit where unit: "renderSystemdUnit ''/opt/chimera'' '':443'' ''a.b:443'' ''a.b'' = Some unit"
    by (simp add: renderSystemdUnit_def trim TrimSuffix1_def HasPrefix1_def ContainsAny_def unit_forbidden_def Let_def)
  from systemd_unit_safe [OF this] unit show ?thesis unfolding trim by blast
qed

text \<open>The certificate that \<open>-quic-cert-info\<close> names is the one the server uses as long as a path is
  configured. Without one it is not: the flag prints the fingerprint of \<open>quic-v5-cert.pem\<close>, creating that
  file if need be, while the server serves \<open>quic-cert.pem\<close>.\<close>

theorem cert_info_path:
  assumes "sf_quicCertFile flags = []"
    and "normalizeServerConfig U sys env_CHIMERA_QUIC_CERT (quicServerConfig flags serverName keys) = Inr cfg"
  shows "(TrimSpace (sf_quicCertPath flags) \<noteq> [] \<and> sf_quicCertPath flags \<noteq> [] \<longrightarrow>
        certInfoPath flags = TrimSpace (sc_CertificatePath cfg))
    \<and> (sf_quicCertPath flags = [] \<and> TrimSpace env_CHIMERA_QUIC_CERT = [] \<longrightarrow>
        certInfoPath flags = ''quic-v5-cert.pem'' \<and> sc_CertificatePath cfg = ''quic-cert.pem'')"
proof -
  have nil: "TrimSpace [] = []" using length_TrimSpace [of "[]"] by simp
  have path: "sc_CertificatePath cfg = (if sf_quicCertPath flags = [] then (let p = TrimSpace env_CHIMERA_QUIC_CERT in if p = [] then ''quic-cert.pem'' else p)
      else sf_quicCertPath flags)"
    using assms by (auto simp: normalizeServerConfig_eq with_same quicServerConfig_def withCertificatePath_def Let_def split: option.splits)
  then show ?thesis by (auto simp: certInfoPath_def nil Let_def)
qed

text \<open>No flags, no environment.\<close>

definition ex_system :: system_net where
  "ex_system = \<lparr>sys_LookupIP = (\<lambda>_. None), sys_DialContext = (\<lambda>_ _ _. False), sys_ListenPacket = (\<lambda>_ _. False)\<rparr>"

theorem cert_info_path_witness:
  "\<exists>cfg. normalizeServerConfig ex_unicode ex_system [] (quicServerConfig (defaultFlags (\<lambda>_. [])) ''s'' [ex_key]) = Inr cfg
     \<and> certInfoPath (defaultFlags (\<lambda>_. [])) = ''quic-v5-cert.pem'' \<and> sc_CertificatePath cfg = ''quic-cert.pem''"
proof -
  let ?flags = "defaultFlags (\<lambda>_. [])"
  have nil: "TrimSpace [] = []" using length_TrimSpace [of "[]"] by simp
  have trim: "TrimSpace '':443'' = '':443''" "TrimSpace ''s'' = ''s''" "TrimSpace ''www.microsoft.com:443'' = ''www.microsoft.com:443''"
    by (rule TrimSpace_plain, simp add: plain_def plain_char_def)+
  have "ToLower ex_unicode ''s'' \<noteq> []" by (simp add: ToLower_def isASCII_def)
  then obtain cfg where cfg: "normalizeServerConfig ex_unicode ex_system [] (quicServerConfig ?flags ''s'' [ex_key]) = Inr cfg"
    by (auto simp: normalizeServerConfig_eq server_config_fault_def quicServerConfig_def defaultFlags_def trim nil)
  have flags: "sf_quicCertFile ?flags = []" "sf_quicCertPath ?flags = []" by (simp_all add: defaultFlags_def)
  from cert_info_path [OF flags(1) cfg] flags(2) nil cfg show ?thesis by simp
qed

end
