(* ===== verification/Tcp_Path.thy ===== *)
theory Tcp_Path
  imports Client_Main Server_Main
begin

text \<open>
  The TCP transport end to end: \<open>dialChimeraTCP\<close> of the client program against \<open>handleConn\<close> of the
  server program, over the byte stream that REALITY provides.

  The two run concurrently, each waiting for what the other sends. A run of both is a pair of runs
  in which each side has read, cut into segments in any way, what the other has sent. The lemmas
  follow the four messages: header, response, padded request, padded response.
\<close>

section \<open>The client's side\<close>

definition freshStream :: "bytes list \<Rightarrow> stream" where
  "freshStream segs = \<lparr>st_segments = segs, st_sent = [], st_room = None\<rparr>"

lemma freshStream_simps [simp]:
  "st_sent (freshStream segs) = []" "st_room (freshStream segs) = None" "stream_content (freshStream segs) = concat segs"
  "stream_readable (freshStream segs) = ([] \<notin> set segs)"
  by (simp_all add: freshStream_def stream_content_def stream_readable_def)

text \<open>The stream a dial leaves behind, whether it succeeded or not; nothing was closed in a way that
  would take back bytes.\<close>

definition dialStream :: "stream option \<times> (dial_error + stream Conn) \<Rightarrow> stream" where
  "dialStream out = (case out of (_, Inr pc) \<Rightarrow> pc_raw pc | (Some s, Inl _) \<Rightarrow> s | (None, Inl _) \<Rightarrow> freshStream [])"

definition connStream :: "stream conn_outcome \<Rightarrow> stream" where
  "connStream out = (case out of Ended _ s \<Rightarrow> s | RelayingTo _ pc \<Rightarrow> pc_raw pc)"

lemma write_session_unlimited:
  "st_room s = None \<Longrightarrow> WriteSessionHeader stream_write flags s = Some (s\<lparr>st_sent := st_sent s @ sessionBytes 32 flags\<rparr>, None)"
  "st_room s = None \<Longrightarrow> WriteSessionResponse stream_write status s = Some (s\<lparr>st_sent := st_sent s @ sessionBytes 8 status\<rparr>, None)"
  by (simp_all add: WriteSessionHeader_def WriteSessionResponse_def stream_write_def)

lemma stream_readers_keep:
  "ReadSessionHeader stream_read s = Some (s', h) \<Longrightarrow> st_sent s' = st_sent s \<and> st_room s' = st_room s"
  "ReadSessionResponse stream_read s = Some (s', h) \<Longrightarrow> st_sent s' = st_sent s \<and> st_room s' = st_room s"
  by (auto simp: ReadSessionHeader_def ReadSessionResponse_def bind_eq_Some_conv dest: stream_ReadFull_keeps)

lemma length_sessionBytes: "6 \<le> n \<Longrightarrow> length (sessionBytes n code) = n"
  by (simp add: sessionBytes_def magic_def)

text \<open>The messages through the padding layer.\<close>

lemma write_target_frames:
  assumes "st_room (pc_raw c) = None" and "addressBytes target = Inr buf"
  shows "\<exists>out f t. WriteTargetConnect (Conn_Write stream_write) cmd target c = Some (sentFrames out f t c, None)
    \<and> framed out \<and> deframe out = cmd # buf"
proof -
  obtain o1 f1 t1 where w1: "Conn_Write stream_write [cmd] c = Some (sentFrames o1 f1 t1 c, 1, None)" "framed o1" "deframe o1 = [cmd]"
    using Conn_Write_frames [OF assms(1), of "[cmd]"] by auto
  obtain o2 f2 t2 where w2: "Conn_Write stream_write buf (sentFrames o1 f1 t1 c) = Some (sentFrames (o1 @ o2) f2 t2 c, length buf, None)"
      "framed o2" "deframe o2 = buf"
    using Conn_Write_frames [of "sentFrames o1 f1 t1 c" buf] assms(1) by auto
  have "WriteTargetConnect (Conn_Write stream_write) cmd target c = Some (sentFrames (o1 @ o2) f2 t2 c, None)"
    using w1(1) w2(1) assms(2) by (simp add: WriteTargetConnect_def WriteAddress_def)
  moreover have "framed (o1 @ o2)" "deframe (o1 @ o2) = cmd # buf" using framed_append [OF w1(2)] w1(3) w2(2,3) by simp_all
  ultimately show ?thesis by blast
qed

lemma write_response_frames:
  assumes "st_room (pc_raw c) = None"
  shows "\<exists>out f t. WriteSessionResponse (Conn_Write stream_write) status c = Some (sentFrames out f t c, None)
    \<and> framed out \<and> deframe out = sessionBytes 8 status"
proof -
  obtain out f t where "Conn_Write stream_write (sessionBytes 8 status) c = Some (sentFrames out f t c, length (sessionBytes 8 status), None)"
      "framed out" "deframe out = sessionBytes 8 status"
    using Conn_Write_frames [OF assms, of "sessionBytes 8 status"] by blast
  then show ?thesis by (intro exI [of _ out] exI [of _ f] exI [of _ t]) (simp add: WriteSessionResponse_def)
qed

lemma New_raw: "pc_raw (New tape s p) = s" and New_framesSent: "pc_framesSent (New tape s p) = 0"
  by (simp_all add: New_def)

section \<open>The client\<close>

text \<open>After the first response, the client's request is on the wire whatever comes back.\<close>

lemma client_step:
  assumes segs: "[] \<notin> set csegs" and buf: "addressBytes target = Inr buf"
    and run: "dialChimeraTCP stream_read stream_write id tape (Some (freshStream csegs)) target = Some out"
  shows "\<exists>X. st_sent (dialStream out) = sessionBytes 32 1 @ X
    \<and> (\<forall>Y. concat csegs = sessionBytes 8 StatusOK @ Y \<longrightarrow> framed X \<and> deframe X = CmdConnect # buf
         \<and> (framed Y \<longrightarrow> (\<forall>status. deframe Y = sessionBytes 8 status \<longrightarrow>
              (if status = StatusOK then \<exists>pc. out = (None, Inr pc) \<and> stream_io.conn_content pc = []
               else \<exists>raw. out = (Some raw, Inl (ServerDialFailed status))))))"
proof -
  let ?H = "sessionBytes 32 1" and ?conn1 = "(freshStream csegs)\<lparr>st_sent := sessionBytes 32 1\<rparr>"
  have w: "WriteSessionHeader stream_write 1 (freshStream csegs) = Some (?conn1, None)"
    using write_session_unlimited(1) [of "freshStream csegs" 1] by simp
  obtain conn2 where r: "ReadSessionResponse stream_read ?conn1 = Some (conn2, fst (decodeSession 8 (concat csegs)))"
      "stream_content conn2 = snd (decodeSession 8 (concat csegs))" "stream_readable conn2"
    using stream_in.implements_session(2) [of ?conn1] segs by (auto simp: stream_in.implements_def)
  have keep: "st_sent conn2 = ?H" "st_room conn2 = None" using stream_readers_keep(2) [OF r(1)] by simp_all
  show ?thesis
  proof (cases "fst (decodeSession 8 (concat csegs)) = Inr StatusOK")
    case False
    then have "st_sent (dialStream out) = ?H"
      using run w r(1) keep by (auto simp: dialChimeraTCP_def dialStream_def split: sum.splits if_splits)
    moreover have "concat csegs \<noteq> sessionBytes 8 StatusOK @ Y" for Y
      using False decodeSession_sessionBytes [of 8 StatusOK Y] by auto
    ultimately show ?thesis by auto
  next
    case True
    have room: "st_room (pc_raw (New tape conn2 DefaultPolicy)) = None" using keep(2) by (simp add: New_raw)
    obtain X f t where X: "WriteTargetConnect (Conn_Write stream_write) CmdConnect target (New tape conn2 DefaultPolicy)
        = Some (sentFrames X f t (New tape conn2 DefaultPolicy), None)" "framed X" "deframe X = CmdConnect # buf"
      using write_target_frames [OF room buf, of CmdConnect] by blast
    let ?pc3 = "sentFrames X f t (New tape conn2 DefaultPolicy)"
    obtain pc4 res4 where r4: "ReadSessionResponse (Conn_Read stream_read stream_write) ?pc3 = Some (pc4, res4)"
      using run w r(1) True X(1)
      by (cases "ReadSessionResponse (Conn_Read stream_read stream_write) ?pc3") (auto simp: dialChimeraTCP_def)
    have out: "out = (case res4 of Inl e \<Rightarrow> (Some (pc_raw pc4), Inl (ConnectResult e))
         | Inr status \<Rightarrow> if status \<noteq> StatusOK then (Some (pc_raw pc4), Inl (ServerDialFailed status)) else (None, Inr pc4))"
      using run w r(1) True X(1) r4 by (cases res4) (auto simp: dialChimeraTCP_def)
    have "only_padding ?pc3 pc4" by (rule readers_only_padding(1) [OF r4])
    then obtain pads where pads: "st_sent (pc_raw pc4) = ?H @ X @ pads" "framed pads" "deframe pads = []"
      using keep by (auto simp: only_padding_def New_raw)
    have sent: "st_sent (dialStream out) = ?H @ (X @ pads)" using pads(1) out by (auto simp: dialStream_def split: sum.splits)
    have X': "framed (X @ pads)" "deframe (X @ pads) = CmdConnect # buf" using framed_append [OF X(2)] X(3) pads by simp_all
    have "if status = StatusOK then \<exists>pc. out = (None, Inr pc) \<and> stream_io.conn_content pc = [] else \<exists>raw. out = (Some raw, Inl (ServerDialFailed status))"
      if Y: "concat csegs = sessionBytes 8 StatusOK @ Y" "framed Y" "deframe Y = sessionBytes 8 status" for Y status
    proof -
      have "stream_content conn2 = Y" using r(2) Y(1) decodeSession_sessionBytes [of 8 StatusOK Y] by simp
      with r(3) Y(2) have "stream_io.conn_readable ?pc3" "stream_io.conn_content ?pc3 = sessionBytes 8 status"
        using New_readable [of conn2 tape DefaultPolicy] New_content [of tape conn2 DefaultPolicy] Y(3) by (simp_all add: sentFrames_reading)
      with padded.conn_in.implements_session(2) [of ?pc3] decodeSession_sessionBytes [of 8 status "[]"] r4
      have "res4 = Inr status" "stream_io.conn_content pc4 = []" by (auto simp: padded.conn_in.implements_def)
      with out show ?thesis by auto
    qed
    with sent X' show ?thesis by blast
  qed
qed

section \<open>The server\<close>

text \<open>The handler after the session header: what it has sent, and how its outcome follows from the request
  it has read.\<close>

lemma handleConn_outcome:
  assumes segs: "[] \<notin> set ssegs" and content: "concat ssegs = sessionBytes 32 flags @ X"
    and run: "handleConn stream_read stream_write id tape lookup dial (freshStream ssegs) = Some out"
  obtains conn pc3 res3 pads oOk fOk tOk oNo fNo tNo where "stream_content conn = X" "stream_readable conn"
    "ReadTargetConnect (Conn_Read stream_read stream_write) (New tape conn DefaultPolicy) = Some (pc3, res3)"
    "st_sent (pc_raw pc3) = sessionBytes 8 StatusOK @ pads" "framed (pads @ oOk)" "deframe (pads @ oOk) = sessionBytes 8 StatusOK"
    "framed (pads @ oNo)" "deframe (pads @ oNo) = sessionBytes 8 StatusDialError"
    "out = (case res3 of
       Inl e \<Rightarrow> Ended (TargetRejected e) (pc_raw pc3)
     | Inr (cmd, addr) \<Rightarrow> if cmd \<noteq> CmdConnect then Ended (UnsupportedCmd cmd) (pc_raw pc3)
         else case ResolveAndValidateAuthority lookup (Address_String addr) of
             Inl e \<Rightarrow> Ended (TargetBlocked e) (pc_raw (sentFrames oNo fNo tNo pc3))
           | Inr v \<Rightarrow> if dial v then RelayingTo v (sentFrames oOk fOk tOk pc3)
               else Ended (TargetDialFailed v) (pc_raw (sentFrames oNo fNo tNo pc3)))"
proof -
  let ?R = "sessionBytes 8 StatusOK"
  obtain conn1 where r1: "ReadSessionHeader stream_read (freshStream ssegs) = Some (conn1, Inr flags)" "stream_content conn1 = X" "stream_readable conn1"
    using stream_in.implements_session(1) [of "freshStream ssegs"] segs content decodeSession_sessionBytes [of 32 flags X]
    by (auto simp: stream_in.implements_def)
  have keep: "st_sent conn1 = []" "st_room conn1 = None" using stream_readers_keep(1) [OF r1(1)] by simp_all
  let ?conn2 = "conn1\<lparr>st_sent := ?R\<rparr>"
  have w2: "WriteSessionResponse stream_write StatusOK conn1 = Some (?conn2, None)"
    using write_session_unlimited(2) [OF keep(2), of StatusOK] keep(1) by simp
  let ?pc = "New tape ?conn2 DefaultPolicy"
  obtain pc3 res3 where r3: "ReadTargetConnect (Conn_Read stream_read stream_write) ?pc = Some (pc3, res3)"
    using run r1(1) w2 by (cases "ReadTargetConnect (Conn_Read stream_read stream_write) ?pc") (auto simp: handleConn_def)
  have "only_padding ?pc pc3" by (rule readers_only_padding(2) [OF r3])
  then obtain pads where pads: "st_sent (pc_raw pc3) = ?R @ pads" "framed pads" "deframe pads = []" "st_room (pc_raw pc3) = None"
    using keep(2) by (auto simp: only_padding_def New_raw)
  have answer: "\<exists>out f t. WriteSessionResponse (Conn_Write stream_write) status pc3 = Some (sentFrames out f t pc3, None)
      \<and> framed out \<and> deframe out = sessionBytes 8 status" for status
    by (rule write_response_frames [OF pads(4)])
  obtain oOk fOk tOk where ok: "WriteSessionResponse (Conn_Write stream_write) StatusOK pc3 = Some (sentFrames oOk fOk tOk pc3, None)"
      "framed (pads @ oOk)" "deframe (pads @ oOk) = ?R"
    using answer [of StatusOK] framed_append [OF pads(2)] pads(3) by auto
  obtain oNo fNo tNo where no: "WriteSessionResponse (Conn_Write stream_write) StatusDialError pc3 = Some (sentFrames oNo fNo tNo pc3, None)"
      "framed (pads @ oNo)" "deframe (pads @ oNo) = sessionBytes 8 StatusDialError"
    using answer [of StatusDialError] framed_append [OF pads(2)] pads(3) by auto
  have out: "out = (case res3 of
       Inl e \<Rightarrow> Ended (TargetRejected e) (pc_raw pc3)
     | Inr (cmd, addr) \<Rightarrow> if cmd \<noteq> CmdConnect then Ended (UnsupportedCmd cmd) (pc_raw pc3)
         else case ResolveAndValidateAuthority lookup (Address_String addr) of
             Inl e \<Rightarrow> Ended (TargetBlocked e) (pc_raw (sentFrames oNo fNo tNo pc3))
           | Inr v \<Rightarrow> if dial v then RelayingTo v (sentFrames oOk fOk tOk pc3)
               else Ended (TargetDialFailed v) (pc_raw (sentFrames oNo fNo tNo pc3)))"
    using run r1(1) w2 r3 ok(1) no(1)
    by (cases res3; simp add: handleConn_def split: prod.splits if_splits sum.splits; auto)
  have "stream_content ?conn2 = X" "stream_readable ?conn2" using r1(2,3) by simp_all
  from that [OF this r3 pads(1) ok(2,3) no(2,3) out] show thesis .
qed

lemma server_step:
  assumes segs: "[] \<notin> set ssegs" and content: "concat ssegs = sessionBytes 32 flags @ X"
    and run: "handleConn stream_read stream_write id tape lookup dial (freshStream ssegs) = Some out"
  shows "\<exists>Y. st_sent (connStream out) = sessionBytes 8 StatusOK @ Y
    \<and> (framed X \<and> address_ok target \<and> addressBytes target = Inr buf \<and> deframe X = CmdConnect # buf \<longrightarrow> framed Y
       \<and> (case ResolveAndValidateAuthority lookup (Address_String (wire_form target)) of
            Inr v \<Rightarrow>
              if dial v then deframe Y = sessionBytes 8 StatusOK \<and> (\<exists>pc. out = RelayingTo v pc \<and> stream_io.conn_content pc = [])
              else deframe Y = sessionBytes 8 StatusDialError \<and> (\<exists>raw. out = Ended (TargetDialFailed v) raw)
          | Inl e \<Rightarrow> deframe Y = sessionBytes 8 StatusDialError \<and> (\<exists>raw. out = Ended (TargetBlocked e) raw)))"
proof -
  obtain conn pc3 res3 pads oOk fOk tOk oNo fNo tNo where conn: "stream_content conn = X" "stream_readable conn"
    and r3: "ReadTargetConnect (Conn_Read stream_read stream_write) (New tape conn DefaultPolicy) = Some (pc3, res3)"
    and pads: "st_sent (pc_raw pc3) = sessionBytes 8 StatusOK @ pads"
    and ok: "framed (pads @ oOk)" "deframe (pads @ oOk) = sessionBytes 8 StatusOK"
    and no: "framed (pads @ oNo)" "deframe (pads @ oNo) = sessionBytes 8 StatusDialError"
    and out: "out = (case res3 of
       Inl e \<Rightarrow> Ended (TargetRejected e) (pc_raw pc3)
     | Inr (cmd, addr) \<Rightarrow> if cmd \<noteq> CmdConnect then Ended (UnsupportedCmd cmd) (pc_raw pc3)
         else case ResolveAndValidateAuthority lookup (Address_String addr) of
             Inl e \<Rightarrow> Ended (TargetBlocked e) (pc_raw (sentFrames oNo fNo tNo pc3))
           | Inr v \<Rightarrow> if dial v then RelayingTo v (sentFrames oOk fOk tOk pc3)
               else Ended (TargetDialFailed v) (pc_raw (sentFrames oNo fNo tNo pc3)))"
    by (rule handleConn_outcome [OF assms])
  show ?thesis
  proof (cases "framed X \<and> address_ok target \<and> addressBytes target = Inr buf \<and> deframe X = CmdConnect # buf")
    case False
    have "\<exists>Y. st_sent (connStream out) = sessionBytes 8 StatusOK @ Y"
      using out pads by (auto simp: connStream_def split: sum.splits)
    with False show ?thesis by blast
  next
    case True
    then have X: "framed X" "address_ok target" "addressBytes target = Inr buf" "deframe X = CmdConnect # buf" by auto
    then have c: "stream_io.conn_readable (New tape conn DefaultPolicy)" "stream_io.conn_content (New tape conn DefaultPolicy) = CmdConnect # buf"
      using New_readable [of conn tape DefaultPolicy] New_content [of tape conn DefaultPolicy] conn by simp_all
    have "decodeTargetConnect (CmdConnect # buf) = (Inr (CmdConnect, wire_form target), [])"
      using decodeAddress_addressBytes [OF X(2,3), of "[]"] by (simp add: decodeTargetConnect_def takeFull_Cons)
    then have res: "res3 = Inr (CmdConnect, wire_form target)" "stream_io.conn_content pc3 = []"
      using padded.conn_in.implements_target [OF c(1)] c(2) r3 by (auto simp: padded.conn_in.implements_def)
    show ?thesis
    proof (cases "ResolveAndValidateAuthority lookup (Address_String (wire_form target))")
      case (Inl e)
      with out res pads no show ?thesis by (intro exI [of _ "pads @ oNo"]) (simp add: connStream_def)
    next
      case (Inr v)
      show ?thesis
      proof (cases "dial v")
        case True
        with Inr out res pads ok show ?thesis
          by (intro exI [of _ "pads @ oOk"]) (simp add: connStream_def sentFrames_reading)
      next
        case False
        with Inr out res pads no show ?thesis by (intro exI [of _ "pads @ oNo"]) (simp add: connStream_def)
      qed
    qed
  qed
qed

section \<open>Properties\<close>

text \<open>C10 (functional). The TCP transport from end to end, over any segmentation of the two byte streams and
  for all padding and keep-alive choices of both sides: when each side has read what the other has
  sent, a target that the guard allows and that can be dialled is relayed by the server, to the
  validated address, and the client's dial succeeds, with nothing of either handshake left for the
  relay to misread. Otherwise the server has closed the connection with the reason and the client
  reports that the server could not dial.\<close>

theorem tcp_end_to_end:
  assumes "address_ok target"
    and "dialChimeraTCP stream_read stream_write id ctape (Some (freshStream csegs)) target = Some cout"
    and "handleConn stream_read stream_write id stape lookup dial (freshStream ssegs) = Some sout"
    and "concat ssegs = st_sent (dialStream cout)" and "concat csegs = st_sent (connStream sout)"
    and "[] \<notin> set ssegs" and "[] \<notin> set csegs"
  shows "case ResolveAndValidateAuthority lookup (Address_String (wire_form target)) of
      Inr v \<Rightarrow>
        if dial v
        then (\<exists>cpc spc. cout = (None, Inr cpc) \<and> sout = RelayingTo v spc
               \<and> stream_io.conn_content cpc = [] \<and> stream_io.conn_content spc = [])
        else (\<exists>craw sraw. cout = (Some craw, Inl (ServerDialFailed StatusDialError)) \<and> sout = Ended (TargetDialFailed v) sraw)
    | Inl e \<Rightarrow> \<exists>craw sraw. cout = (Some craw, Inl (ServerDialFailed StatusDialError)) \<and> sout = Ended (TargetBlocked e) sraw"
proof -
  obtain buf where buf: "addressBytes target = Inr buf" using address_ok_bytes [OF assms(1)] by blast
  obtain X where X: "st_sent (dialStream cout) = sessionBytes 32 1 @ X"
    and client: "\<And>Y. concat csegs = sessionBytes 8 StatusOK @ Y \<Longrightarrow> framed X \<and> deframe X = CmdConnect # buf
         \<and> (framed Y \<longrightarrow> (\<forall>status. deframe Y = sessionBytes 8 status \<longrightarrow>
              (if status = StatusOK then \<exists>pc. cout = (None, Inr pc) \<and> stream_io.conn_content pc = []
               else \<exists>raw. cout = (Some raw, Inl (ServerDialFailed status)))))"
    using client_step [OF assms(7) buf assms(2)] by blast
  note server = server_step [OF assms(6) trans [OF assms(4) X] assms(3), of target buf]
  then obtain Y where Y: "concat csegs = sessionBytes 8 StatusOK @ Y" using assms(5) by auto
  have X': "framed X" "deframe X = CmdConnect # buf" using client [OF Y] by blast+
  obtain Y' where Y': "st_sent (connStream sout) = sessionBytes 8 StatusOK @ Y'" "framed Y'"
    and verdict: "case ResolveAndValidateAuthority lookup (Address_String (wire_form target)) of
            Inr v \<Rightarrow>
              if dial v then deframe Y' = sessionBytes 8 StatusOK \<and> (\<exists>pc. sout = RelayingTo v pc \<and> stream_io.conn_content pc = [])
              else deframe Y' = sessionBytes 8 StatusDialError \<and> (\<exists>raw. sout = Ended (TargetDialFailed v) raw)
          | Inl e \<Rightarrow> deframe Y' = sessionBytes 8 StatusDialError \<and> (\<exists>raw. sout = Ended (TargetBlocked e) raw)"
    using server X' buf assms(1) by blast
  have "Y' = Y" using Y Y'(1) assms(5) by simp
  with client [OF Y] Y'(2) have answer: "deframe Y' = sessionBytes 8 status \<Longrightarrow>
      (if status = StatusOK then \<exists>pc. cout = (None, Inr pc) \<and> stream_io.conn_content pc = []
       else \<exists>raw. cout = (Some raw, Inl (ServerDialFailed status)))" for status by blast
  have "StatusDialError \<noteq> StatusOK" by (simp add: StatusDialError_def StatusOK_def)
  with verdict answer [of StatusOK] answer [of StatusDialError] show ?thesis
    by (auto split: sum.splits if_splits)
qed

text \<open>Whatever bytes a client sends over the padded connection, the TCP handler relays only to
  a literal of an address that the guard allows, with a port that is not zero, and only after it
  has dialled that very address.\<close>

lemma handleConn_safe:
  assumes "handleConn read wr closeRaw tape lookup dial conn = Some (RelayingTo target pc)"
  shows "\<exists>ip port. SplitHostPort target = Inr (IP_String ip, Itoa port) \<and> 0 < port
    \<and> ParseIP (IP_String ip) = To16 ip \<and> \<not> IsForbiddenIP (To16 ip) \<and> dial target"
proof -
  from assms obtain addr where auth: "ResolveAndValidateAuthority lookup (Address_String addr) = Inr target" and dial: "dial target"
    by (rule handleConn_relaying)
  from auth obtain host portText port ips where
    "0 < port" "ips \<noteq> []" "list_all (\<lambda>ip. \<not> IsForbiddenIP ip) ips" "SplitHostPort target = Inr (IP_String (hd ips), Itoa port)"
    and len: "length (hd ips) = 4 \<or> length (hd ips) = 16"
    by (rule resolve_Inr)
  moreover from this have "\<not> IsForbiddenIP (To16 (hd ips))" by (simp add: IsForbiddenIP_To16 [OF len] list_all_iff)
  ultimately show ?thesis using dial ParseIP_IP_String [OF len] by blast
qed

section \<open>Witnesses\<close>

text \<open>Both sides without padding and keep-alive frames.\<close>

definition quietTape :: "nat \<Rightarrow> dice" where
  "quietTape i = \<lparr>d_len = 0, d_chance = 50, d_pad = (\<lambda>_. 0)\<rparr>"

definition quietConn :: "'raw Conn \<Rightarrow> bool" where
  "quietConn c \<longleftrightarrow> pc_rand c = quietTape \<and> pc_policy c = DefaultPolicy \<and> 0 \<le> pc_framesSent c \<and> pc_framesSent c \<le> 2"

lemma quiet_shift: "(\<lambda>i. quietTape (Suc i)) = quietTape"
  by (simp add: quietTape_def fun_eq_iff)

lemma quiet_New: "quietConn (New quietTape s DefaultPolicy)"
  by (simp add: quietConn_def New_def DefaultPolicy_def)

lemma quiet_write:
  assumes "quietConn c" and "pc_framesSent c \<le> 1" and "st_room (pc_raw c) = None" and "b \<noteq> []" and "length b \<le> 65535"
  shows "Conn_Write stream_write b c
    = Some (sentFrames (frameHeader FrameDataWithPad (of_nat (length b)) 0 @ b) (pc_framesSent c + 1) quietTape c, length b, None)"
proof -
  have c: "pc_rand c = quietTape" "pc_policy c = DefaultPolicy" "pc_framesSent c < 8" using assms(1,2) by (simp_all add: quietConn_def)
  have adv: "nextDraw c = c" using c(1) quiet_shift by (simp add: nextDraw_def)
  have "chooseFrame (pc_rand c 0) c = (FrameDataWithPad, 0)"
    using c by (simp add: chooseFrame_def quietTape_def DefaultPolicy_def randInt_def)
  then have "writeFrame stream_write b c
      = Some (sentFrames (frameHeader FrameDataWithPad (of_nat (length b)) 0 @ b) (pc_framesSent c + 1) quietTape c, length b, None)"
    using c assms(3) by (simp add: writeFrame_def adv sentFrames_def stream_write_def Let_def)
  then show ?thesis
    using assms(4,5) by (subst Conn_Write.simps) (simp add: Conn_Write.simps [of _ "[]"])
qed

definition quiet_step :: "stream Conn \<Rightarrow> stream Conn \<Rightarrow> bool" where
  "quiet_step c c' \<longleftrightarrow> (quietConn c \<longrightarrow> quietConn c' \<and> pc_framesSent c' = pc_framesSent c
     \<and> st_sent (pc_raw c') = st_sent (pc_raw c) \<and> st_room (pc_raw c') = st_room (pc_raw c))"

lemma quiet_read: "Conn_Read stream_read stream_write n c = Some (c', bs, err) \<Longrightarrow> quiet_step c c'"
proof (rule Conn_Read_rel [of stream_write quiet_step stream_read])
  fix c c' :: "stream Conn"
  assume "maybeKeepAlive stream_write c = Some c'"
  then show "quiet_step c c'"
    using quiet_shift
    by (auto simp: quiet_step_def quietConn_def maybeKeepAlive_def shouldKeepAlive_def nextDraw_def DefaultPolicy_def Let_def
        quietTape_def [of 0] split: if_splits)
next
  fix c c' :: "stream Conn" and err
  assume "readFrameStage stream_read c = Some (c', err)"
  from readFrameStage_keeps [OF this] show "quiet_step c c'" by (simp add: quiet_step_def quietConn_def)
qed (auto simp: quiet_step_def quietConn_def)

lemma quiet_readers:
  "ReadSessionResponse (Conn_Read stream_read stream_write) c = Some (c', h) \<Longrightarrow> quiet_step c c'"
  "ReadTargetConnect (Conn_Read stream_read stream_write) c = Some (c', ta) \<Longrightarrow> quiet_step c c'"
proof -
  note rel = readers_rel [of "Conn_Read stream_read stream_write" quiet_step]
  have trans: "quiet_step a b \<Longrightarrow> quiet_step b c \<Longrightarrow> quiet_step a c" for a b c by (auto simp: quiet_step_def)
  have refl: "quiet_step a a" for a by (simp add: quiet_step_def)
  show "ReadSessionResponse (Conn_Read stream_read stream_write) c = Some (c', h) \<Longrightarrow> quiet_step c c'"
    by (rule rel(2)) (erule quiet_read, rule refl, erule trans, assumption+)
  show "ReadTargetConnect (Conn_Read stream_read stream_write) c = Some (c', ta) \<Longrightarrow> quiet_step c c'"
    by (rule rel(4)) (erule quiet_read, rule refl, erule trans, assumption+)
qed

definition ex_request_frames :: bytes where
  "ex_request_frames = [1, 0, 1, 0, 0, 1] @ [1, 0, 7, 0, 0, 1, 93, 184, 215, 14, 1, 187]"

definition ex_reply_frames :: bytes where
  "ex_reply_frames = [1, 0, 8, 0, 0] @ sessionBytes 8 StatusOK"

lemma ex_frames:
  "framed ex_request_frames" "deframe ex_request_frames = CmdConnect # [1, 93, 184, 215, 14, 1, 187]"
  "framed ex_reply_frames" "deframe ex_reply_frames = sessionBytes 8 StatusOK"
  "addressBytes ex_socks_target = Inr [1, 93, 184, 215, 14, 1, 187]"
  "frameHeader FrameDataWithPad (of_nat 1) 0 = [1, 0, 1, 0, 0]" "frameHeader FrameDataWithPad (of_nat 7) 0 = [1, 0, 7, 0, 0]"
  "frameHeader FrameDataWithPad (of_nat 8) 0 = [1, 0, 8, 0, 0]"
  by code_simp+

lemma quiet_sentFrames: "quietConn c \<Longrightarrow> 0 \<le> f \<Longrightarrow> f \<le> 2 \<Longrightarrow> quietConn (sentFrames out f quietTape c)" "pc_framesSent (sentFrames out f t c) = f"
  by (simp_all add: quietConn_def sentFrames_def)

lemma ex_client_run:
  "\<exists>cout. dialChimeraTCP stream_read stream_write id quietTape (Some (freshStream [sessionBytes 8 StatusOK @ ex_reply_frames])) ex_socks_target = Some cout
     \<and> st_sent (dialStream cout) = sessionBytes 32 1 @ ex_request_frames"
proof -
  let ?buf = "[1, 93, 184, 215, 14, 1, 187] :: bytes" and ?in = "sessionBytes 8 StatusOK @ ex_reply_frames"
  let ?conn1 = "(freshStream [?in])\<lparr>st_sent := sessionBytes 32 1\<rparr>"
  have w: "WriteSessionHeader stream_write 1 (freshStream [?in]) = Some (?conn1, None)"
    using write_session_unlimited(1) [of "freshStream [?in]" 1] by simp
  have "stream_readable ?conn1" by (simp add: ex_reply_frames_def)
  from stream_in.implements_session(2) [OF this] decodeSession_sessionBytes [of 8 StatusOK ex_reply_frames] obtain conn2 where
    r: "ReadSessionResponse stream_read ?conn1 = Some (conn2, Inr StatusOK)" "stream_content conn2 = ex_reply_frames" "stream_readable conn2"
    by (auto simp: stream_in.implements_def)
  have keep: "st_sent conn2 = sessionBytes 32 1" "st_room conn2 = None" using stream_readers_keep(2) [OF r(1)] by simp_all
  let ?pc = "New quietTape conn2 DefaultPolicy"
  let ?pc3 = "sentFrames ex_request_frames 2 quietTape ?pc"
  have pc: "quietConn ?pc" "pc_framesSent ?pc = 0" "st_room (pc_raw ?pc) = None" "pc_raw ?pc = conn2"
    using keep(2) by (simp_all add: quiet_New New_framesSent New_raw)
  have w1: "Conn_Write stream_write [CmdConnect] ?pc = Some (sentFrames [1, 0, 1, 0, 0, 1] 1 quietTape ?pc, 1, None)"
    using quiet_write [OF pc(1) _ pc(3), of "[CmdConnect]"] ex_frames(6) pc(2) by (simp add: CmdConnect_def)
  have "Conn_Write stream_write ?buf (sentFrames [1, 0, 1, 0, 0, 1] 1 quietTape ?pc) = Some (?pc3, 7, None)"
    using quiet_write [of "sentFrames [1, 0, 1, 0, 0, 1] 1 quietTape ?pc" ?buf] quiet_sentFrames(1) [OF pc(1)] pc(3) ex_frames(7)
    by (simp add: quiet_sentFrames(2) ex_request_frames_def)
  then have w3: "WriteTargetConnect (Conn_Write stream_write) CmdConnect ex_socks_target ?pc = Some (?pc3, None)"
    using w1 ex_frames(5) by (simp add: WriteTargetConnect_def WriteAddress_def)
  have "stream_io.conn_readable ?pc3" "stream_io.conn_content ?pc3 = sessionBytes 8 StatusOK"
    using New_readable [of conn2 quietTape DefaultPolicy] New_content [of quietTape conn2 DefaultPolicy] r(2,3) ex_frames(3,4)
    by (simp_all add: sentFrames_reading)
  then obtain pc4 where r4: "ReadSessionResponse (Conn_Read stream_read stream_write) ?pc3 = Some (pc4, Inr StatusOK)"
    using padded.conn_in.implements_session(2) [of ?pc3] decodeSession_sessionBytes [of 8 StatusOK "[]"] by (auto simp: padded.conn_in.implements_def)
  have "st_sent (pc_raw pc4) = sessionBytes 32 1 @ ex_request_frames"
    using quiet_readers(1) [OF r4] quiet_sentFrames(1) [OF pc(1), of 2] pc(4) keep(1) by (simp add: quiet_step_def)
  moreover have "dialChimeraTCP stream_read stream_write id quietTape (Some (freshStream [?in])) ex_socks_target = Some (None, Inr pc4)"
    using w r(1) w3 r4 by (simp add: dialChimeraTCP_def)
  ultimately show ?thesis by (simp add: dialStream_def)
qed

lemma ex_resolved: "ResolveAndValidateAuthority lookup (Address_String (wire_form ex_socks_target)) = Inr ''93.184.215.14:443''"
proof -
  have "Address_String (wire_form ex_socks_target) = JoinHostPort (IP_String [93, 184, 215, 14]) (Itoa 443)"
      "JoinHostPort (IP_String [93, 184, 215, 14]) (Itoa 443) = ''93.184.215.14:443''"
    by code_simp+
  with resolve_own_authority [of "[93, 184, 215, 14]" 443 lookup] ex_allowed show ?thesis by simp
qed

lemma ex_server_run:
  "\<exists>sout. handleConn stream_read stream_write id quietTape lookup (\<lambda>_. True) (freshStream [sessionBytes 32 1 @ ex_request_frames]) = Some sout
     \<and> st_sent (connStream sout) = sessionBytes 8 StatusOK @ ex_reply_frames \<and> (\<exists>pc. sout = RelayingTo ''93.184.215.14:443'' pc)"
proof -
  let ?in = "sessionBytes 32 1 @ ex_request_frames"
  have "stream_readable (freshStream [?in])" by (simp add: ex_request_frames_def)
  from stream_in.implements_session(1) [OF this] decodeSession_sessionBytes [of 32 1 ex_request_frames] obtain conn1 where
    r1: "ReadSessionHeader stream_read (freshStream [?in]) = Some (conn1, Inr 1)" "stream_content conn1 = ex_request_frames" "stream_readable conn1"
    by (auto simp: stream_in.implements_def)
  have keep: "st_sent conn1 = []" "st_room conn1 = None" using stream_readers_keep(1) [OF r1(1)] by simp_all
  let ?conn2 = "conn1\<lparr>st_sent := sessionBytes 8 StatusOK\<rparr>"
  have w2: "WriteSessionResponse stream_write StatusOK conn1 = Some (?conn2, None)"
    using write_session_unlimited(2) [OF keep(2), of StatusOK] keep(1) by simp
  let ?pc = "New quietTape ?conn2 DefaultPolicy"
  have "stream_io.conn_readable ?pc" "stream_io.conn_content ?pc = CmdConnect # [1, 93, 184, 215, 14, 1, 187]"
    using New_readable [of ?conn2 quietTape DefaultPolicy] New_content [of quietTape ?conn2 DefaultPolicy] r1(2,3) ex_frames(1,2) by simp_all
  moreover have ok: "address_ok ex_socks_target" by (simp add: address_ok_def ex_socks_target_def To4_def)
  have "decodeTargetConnect (CmdConnect # [1, 93, 184, 215, 14, 1, 187]) = (Inr (CmdConnect, wire_form ex_socks_target), [])"
    using decodeAddress_addressBytes [OF ok ex_frames(5), of "[]"] by (simp add: decodeTargetConnect_def takeFull_Cons)
  ultimately obtain pc3 where r3: "ReadTargetConnect (Conn_Read stream_read stream_write) ?pc = Some (pc3, Inr (CmdConnect, wire_form ex_socks_target))"
    using padded.conn_in.implements_target [of ?pc] by (auto simp: padded.conn_in.implements_def)
  have pc3: "quietConn pc3" "pc_framesSent pc3 = 0" "st_sent (pc_raw pc3) = sessionBytes 8 StatusOK" "st_room (pc_raw pc3) = None"
    using quiet_readers(2) [OF r3] keep(2) by (simp_all add: quiet_step_def quiet_New New_framesSent New_raw)
  have "Conn_Write stream_write (sessionBytes 8 StatusOK) pc3 = Some (sentFrames ex_reply_frames 1 quietTape pc3, 8, None)"
    using quiet_write [OF pc3(1) _ pc3(4), of "sessionBytes 8 StatusOK"] pc3(2) ex_frames(8)
    by (simp add: length_sessionBytes ex_reply_frames_def) (simp add: sessionBytes_def)
  then have "handleConn stream_read stream_write id quietTape lookup (\<lambda>_. True) (freshStream [?in])
      = Some (RelayingTo ''93.184.215.14:443'' (sentFrames ex_reply_frames 1 quietTape pc3))"
    using r1(1) w2 r3 by (simp add: handleConn_def ex_resolved WriteSessionResponse_def)
  then show ?thesis using pc3(3) by (simp add: connStream_def)
qed

theorem tcp_end_to_end_witness:
  "\<exists>csegs ssegs cpc spc. dialChimeraTCP stream_read stream_write id quietTape (Some (freshStream csegs)) ex_socks_target = Some (None, Inr cpc)
     \<and> handleConn stream_read stream_write id quietTape (\<lambda>_. None) (\<lambda>_. True) (freshStream ssegs) = Some (RelayingTo ''93.184.215.14:443'' spc)
     \<and> concat ssegs = st_sent (pc_raw cpc) \<and> concat csegs = st_sent (pc_raw spc)"
proof -
  let ?cs = "[sessionBytes 8 StatusOK @ ex_reply_frames]" and ?ss = "[sessionBytes 32 1 @ ex_request_frames]"
  obtain cout where c: "dialChimeraTCP stream_read stream_write id quietTape (Some (freshStream ?cs)) ex_socks_target = Some cout"
      "st_sent (dialStream cout) = sessionBytes 32 1 @ ex_request_frames"
    using ex_client_run by blast
  obtain sout where s: "handleConn stream_read stream_write id quietTape (\<lambda>_. None) (\<lambda>_. True) (freshStream ?ss) = Some sout"
      "st_sent (connStream sout) = sessionBytes 8 StatusOK @ ex_reply_frames"
    using ex_server_run by blast
  have "address_ok ex_socks_target" by (simp add: address_ok_def ex_socks_target_def To4_def)
  from tcp_end_to_end [OF this c(1) s(1)] c(2) s(2) ex_resolved [of "\<lambda>_. None"] obtain cpc spc where
    "cout = (None, Inr cpc)" "sout = RelayingTo ''93.184.215.14:443'' spc"
    by (auto simp: ex_request_frames_def ex_reply_frames_def)
  with c s show ?thesis by (intro exI [of _ ?cs] exI [of _ ?ss] exI [of _ cpc] exI [of _ spc]) (simp add: dialStream_def connStream_def)
qed

end
