(* ===== verification/Tcp_Returns.thy ===== *)
theory Tcp_Returns
  imports Tcp_Path
begin

text \<open>
  The two ends of the TCP transport return, whatever bytes arrive. \<open>returning_reader\<close> is the contract
  that suffices: a read returns, and without an error it has delivered something. A connection that
  delivers finitely many bytes keeps it, and so does the padding layer over it, although its loop skips
  frames without payload; the readers of the session protocol then return.
\<close>

section \<open>Readers that return\<close>

locale returning_reader =
  fixes read :: "'r reader" and live :: "'r \<Rightarrow> bool"
  assumes read_returns: "live r \<Longrightarrow> 0 < n \<Longrightarrow> \<exists>r' bs err. read n r = Some (r', bs, err) \<and> live r' \<and> (err = None \<longrightarrow> bs \<noteq> [])"
begin

lemma ReadFull_from_returns: "live r \<Longrightarrow> \<exists>r' res. ReadFull_from read n acc r = Some (r', res) \<and> live r'"
proof (induction n arbitrary: acc r rule: less_induct)
  case (less n)
  show ?case
  proof (cases "n = 0")
    case True
    with less.prems show ?thesis by (simp add: ReadFull_from.simps)
  next
    case False
    then obtain r1 bs err where r1: "read n r = Some (r1, bs, err)" "live r1" "err = None \<longrightarrow> bs \<noteq> []"
      using read_returns [OF less.prems, of n] by auto
    show ?thesis
    proof (cases "err = None \<and> length bs < n")
      case True
      then have "n - length bs < n" using r1(3) False by (cases bs) auto
      from less.IH [OF this r1(2), of "acc @ bs"] True r1(1) False show ?thesis by (simp add: ReadFull_from.simps [of read n])
    next
      case neq: False
      with r1 False show ?thesis by (cases err) (auto simp: ReadFull_from.simps [of read n])
    qed
  qed
qed

lemma ReadFull_returns: "live r \<Longrightarrow> \<exists>r' res. ReadFull read n r = Some (r', res) \<and> live r'"
  unfolding ReadFull_def by (rule ReadFull_from_returns)

definition returns :: "('r \<times> 'a) option \<Rightarrow> bool" where
  "returns res \<longleftrightarrow> (\<exists>r x. res = Some (r, x) \<and> live r)"

lemma returns_Some [simp]: "returns (Some (r, x)) = live r"
  by (simp add: returns_def)

lemma thenFull_returns:
  assumes "live r" and "\<And>bs r'. live r' \<Longrightarrow> returns (k bs r')"
  shows "returns (thenFull read n r k)"
proof -
  obtain r1 res where r1: "ReadFull read n r = Some (r1, res)" "live r1" using ReadFull_returns [OF assms(1)] by blast
  with assms(2) [OF r1(2)] show ?thesis by (cases res) (simp_all add: thenFull_def)
qed

lemma ReadAddress_returns: "live r \<Longrightarrow> returns (ReadAddress read r)"
  by (simp add: ReadAddress_def Let_def thenFull_returns split: if_split)

lemma readers_return:
  assumes "live r"
  shows "\<exists>r' res. ReadSessionHeader read r = Some (r', res) \<and> live r'" and "\<exists>r' res. ReadSessionResponse read r = Some (r', res) \<and> live r'"
    and "\<exists>r' res. ReadTargetConnect read r = Some (r', res) \<and> live r'"
proof -
  show "\<exists>r' res. ReadSessionHeader read r = Some (r', res) \<and> live r'"
    using ReadFull_returns [OF assms, of 32] by (auto simp: ReadSessionHeader_def)
  show "\<exists>r' res. ReadSessionResponse read r = Some (r', res) \<and> live r'"
    using ReadFull_returns [OF assms, of 8] by (auto simp: ReadSessionResponse_def)
  have "returns (ReadTargetConnect read r)"
    unfolding ReadTargetConnect_def
  proof (rule thenFull_returns [OF assms])
    fix bs r'
    assume "live r'"
    from ReadAddress_returns [OF this]
    show "returns (Option.bind (ReadAddress read r') (\<lambda>(r', res). Some (r', case res of Inl e \<Rightarrow> Inl e | Inr addr \<Rightarrow> Inr (bs ! 0, addr))))"
      by (auto simp: returns_def)
  qed
  then show "\<exists>r' res. ReadTargetConnect read r = Some (r', res) \<and> live r'" by (simp add: returns_def)
qed

end

interpretation stream_returning: returning_reader stream_read stream_readable
proof
  fix s :: stream and n :: nat
  assume s: "stream_readable s" "0 < n"
  show "\<exists>s' bs err. stream_read n s = Some (s', bs, err) \<and> stream_readable s' \<and> (err = None \<longrightarrow> bs \<noteq> [])"
    using stream_in.read_some [OF s] stream_in.read_eof [OF s] by (cases "stream_content s = []") auto
qed

section \<open>Writing through the padding layer returns\<close>

context duplex
begin

lemma writeFrame_returns:
  assumes "\<And>c. writable c"
  shows "\<exists>c' n err. writeFrame wr msg c = Some (c', n, err) \<and> (err = None \<longrightarrow> n = length msg) \<and> (conn_live c \<longrightarrow> conn_live c')"
proof -
  have w: "\<exists>c' n err. wr b c = Some (c', n, err) \<and> (err = None \<longrightarrow> n = length b) \<and> readable c' = readable c" for b c
    using write_takes [OF assms, of b c] write_keeps_input [of b c] by blast
  obtain t pd where ch: "chooseFrame (pc_rand c 0) (nextDraw c) = (t, pd)" by fastforce
  let ?hdr = "frameHeader t (of_nat (length msg)) pd"
  obtain r1 n1 e1 where s1: "wr ?hdr (pc_raw c) = Some (r1, n1, e1)" "readable r1 = readable (pc_raw c)" using w by blast
  obtain r2 n2 e2 where s2: "(if 0 < pd then wr (padBytes (pc_rand c 0) pd) r1 else Some (r1, 0, None)) = Some (r2, n2, e2)"
      "readable r2 = readable (pc_raw c)"
    using w [of "padBytes (pc_rand c 0) pd" r1] s1(2) by (cases "0 < pd") auto
  obtain r3 n3 e3 where s3: "wr msg r2 = Some (r3, n3, e3)" "e3 = None \<longrightarrow> n3 = length msg" "readable r3 = readable (pc_raw c)"
    using w s2(2) by blast
  have live: "conn_live c \<Longrightarrow> readable raw = readable (pc_raw c) \<Longrightarrow> conn_live ((nextDraw c)\<lparr>pc_raw := raw\<rparr>)
      \<and> conn_live ((nextDraw c)\<lparr>pc_raw := raw, pc_framesSent := k\<rparr>)" for raw k
    by (simp add: conn_live_def nextDraw_def)
  have "pc_raw (nextDraw c) = pc_raw c" by (simp add: nextDraw_def)
  then show ?thesis
    using s1 s2 s3 live by (cases e1; cases e2; cases e3) (simp_all add: writeFrame_def Let_def ch split del: if_split)
qed

lemma Conn_Write_returns:
  assumes "\<And>c. writable c"
  shows "\<exists>c' n err. Conn_Write wr b c = Some (c', n, err) \<and> (conn_live c \<longrightarrow> conn_live c')"
proof (induction "length b" arbitrary: b c rule: less_induct)
  case less
  show ?case
  proof (cases "b = []")
    case False
    obtain c1 n err where f: "writeFrame wr (take 65535 b) c = Some (c1, n, err)" "err = None \<longrightarrow> n = length (take 65535 b)"
        "conn_live c \<longrightarrow> conn_live c1"
      using writeFrame_returns [OF assms] by blast
    show ?thesis
    proof (cases err)
      case None
      with f False have "length (drop n b) < length b" by simp
      from less [OF this, of c1] f None False show ?thesis by (auto simp: Conn_Write.simps [of wr b])
    qed (use f False in \<open>simp add: Conn_Write.simps [of wr b]\<close>)
  qed (simp add: Conn_Write.simps)
qed

end

interpretation padded_returning: returning_reader "Conn_Read stream_read stream_write" stream_io.conn_live
  by unfold_locales (rule stream_io.Conn_Read_returns)

lemma fresh_live: "stream_readable s \<Longrightarrow> stream_io.conn_live (New tape s policy)"
  by (simp add: stream_io.conn_live_def New_def)

lemma writers_return:
  "\<exists>s' err. WriteSessionHeader stream_write flags s = Some (s', err) \<and> (stream_readable s \<longrightarrow> stream_readable s')"
  "\<exists>s' err. WriteSessionResponse stream_write status s = Some (s', err) \<and> (stream_readable s \<longrightarrow> stream_readable s')"
  "\<exists>c' err. WriteSessionResponse (Conn_Write stream_write) status c = Some (c', err)"
  "\<exists>c' err. WriteTargetConnect (Conn_Write stream_write) cmd target c = Some (c', err) \<and> (stream_io.conn_live c \<longrightarrow> stream_io.conn_live c')"
proof -
  have w: "\<exists>s' n err. stream_write b s = Some (s', n, err) \<and> (stream_readable s \<longrightarrow> stream_readable s')" for b s
    using stream_io.write_returns [of b s] stream_io.write_keeps_input [of b s] by blast
  show "\<exists>s' err. WriteSessionHeader stream_write flags s = Some (s', err) \<and> (stream_readable s \<longrightarrow> stream_readable s')"
    using w [of "sessionBytes 32 flags" s] by (auto simp: WriteSessionHeader_def)
  show "\<exists>s' err. WriteSessionResponse stream_write status s = Some (s', err) \<and> (stream_readable s \<longrightarrow> stream_readable s')"
    using w [of "sessionBytes 8 status" s] by (auto simp: WriteSessionResponse_def)
  show "\<exists>c' err. WriteSessionResponse (Conn_Write stream_write) status c = Some (c', err)"
    using stream_io.Conn_Write_returns [of "sessionBytes 8 status" c] by (auto simp: WriteSessionResponse_def)
  have addr: "\<exists>c' err. WriteAddress (Conn_Write stream_write) target c = Some (c', err) \<and> (stream_io.conn_live c \<longrightarrow> stream_io.conn_live c')" for c
  proof (cases "addressBytes target")
    case (Inr buf)
    with stream_io.Conn_Write_returns [of buf c] show ?thesis by (auto simp: WriteAddress_def)
  qed (simp add: WriteAddress_def)
  obtain c1 n err where c1: "Conn_Write stream_write [cmd] c = Some (c1, n, err)" "stream_io.conn_live c \<longrightarrow> stream_io.conn_live c1"
    using stream_io.Conn_Write_returns by blast
  with addr [of c1] show "\<exists>c' err. WriteTargetConnect (Conn_Write stream_write) cmd target c = Some (c', err)
      \<and> (stream_io.conn_live c \<longrightarrow> stream_io.conn_live c')"
    by (cases err) (auto simp: WriteTargetConnect_def)
qed

section \<open>Properties\<close>

lemma handleConn_returns:
  assumes "stream_readable s"
  shows "\<exists>out. handleConn stream_read stream_write closeRaw tape lookup dial s = Some out"
proof -
  obtain s1 res1 where s1: "ReadSessionHeader stream_read s = Some (s1, res1)" "stream_readable s1"
    using stream_returning.readers_return(1) [OF assms] by blast
  obtain s2 err2 where s2: "WriteSessionResponse stream_write StatusOK s1 = Some (s2, err2)" "stream_readable s2"
    using writers_return(2) s1(2) by blast
  obtain c3 res3 where c3: "ReadTargetConnect (Conn_Read stream_read stream_write) (New tape s2 DefaultPolicy) = Some (c3, res3)"
    using padded_returning.readers_return(3) [OF fresh_live [OF s2(2)]] by blast
  obtain c4 err4 where ok: "WriteSessionResponse (Conn_Write stream_write) StatusOK c3 = Some (c4, err4)" using writers_return(3) by blast
  obtain c5 err5 where no: "WriteSessionResponse (Conn_Write stream_write) StatusDialError c3 = Some (c5, err5)" using writers_return(3) by blast
  note run = handleConn_def s1(1) s2(1) c3
  show ?thesis
  proof (cases "\<exists>flags cmd addr. res1 = Inr flags \<and> err2 = None \<and> res3 = Inr (cmd, addr) \<and> cmd = CmdConnect")
    case False
    then show ?thesis by (cases res1; cases err2; cases res3) (auto simp: run split_beta)
  next
    case True
    then obtain flags addr where "res1 = Inr flags" "err2 = None" "res3 = Inr (CmdConnect, addr)" by blast
    with ok no show ?thesis
      by (cases "ResolveAndValidateAuthority lookup (Address_String addr)"; cases err4) (simp_all add: run)
  qed
qed

lemma dialChimeraTCP_returns:
  assumes "stream_readable s"
  shows "\<exists>out. dialChimeraTCP stream_read stream_write closeRaw tape (Some s) target = Some out"
proof -
  obtain s1 err1 where s1: "WriteSessionHeader stream_write 1 s = Some (s1, err1)" "stream_readable s1"
    using writers_return(1) assms by blast
  obtain s2 res2 where s2: "ReadSessionResponse stream_read s1 = Some (s2, res2)" "stream_readable s2"
    using stream_returning.readers_return(2) [OF s1(2)] by blast
  obtain c3 err3 where c3: "WriteTargetConnect (Conn_Write stream_write) CmdConnect target (New tape s2 DefaultPolicy) = Some (c3, err3)"
      "stream_io.conn_live c3"
    using writers_return(4) fresh_live [OF s2(2)] by blast
  obtain c4 res4 where c4: "ReadSessionResponse (Conn_Read stream_read stream_write) c3 = Some (c4, res4)"
    using padded_returning.readers_return(2) [OF c3(2)] by blast
  note run = dialChimeraTCP_def s1(1) s2(1) c3(1) c4
  show ?thesis
  proof (cases "err1 = None \<and> res2 = Inr StatusOK \<and> err3 = None")
    case True
    then show ?thesis by (cases res4) (simp_all add: run)
  next
    case False
    then show ?thesis by (cases err1; cases res2; cases err3) (simp_all add: run)
  qed
qed

text \<open>C11 (safety). Whatever bytes the other side sends, in whatever pieces, also when they are no frames at all
  or frames that never carry a payload, and whatever becomes of its own writes: the server's TCP handler
  and the client's dial return. The handler relays only to a literal of an address that the guard
  allows, with a port that is not zero, and only after it has dialled that very address.\<close>

theorem tcp_handlers_total_safe:
  assumes "stream_readable s"
  shows "(\<exists>out. handleConn stream_read stream_write closeRaw tape lookup dial s = Some out
      \<and> (\<forall>target pc. out = RelayingTo target pc \<longrightarrow>
           (\<exists>ip port. SplitHostPort target = Inr (IP_String ip, Itoa port) \<and> 0 < port
              \<and> ParseIP (IP_String ip) = To16 ip \<and> \<not> IsForbiddenIP (To16 ip) \<and> dial target)))
    \<and> (\<exists>out. dialChimeraTCP stream_read stream_write closeRaw tape (Some s) target = Some out)"
proof
  obtain out where out: "handleConn stream_read stream_write closeRaw tape lookup dial s = Some out"
    using handleConn_returns [OF assms] by blast
  moreover have "\<exists>ip port. SplitHostPort target = Inr (IP_String ip, Itoa port) \<and> 0 < port
      \<and> ParseIP (IP_String ip) = To16 ip \<and> \<not> IsForbiddenIP (To16 ip) \<and> dial target" if "out = RelayingTo target pc" for target pc
    by (rule handleConn_safe [OF out [unfolded that]])
  ultimately show "\<exists>out. handleConn stream_read stream_write closeRaw tape lookup dial s = Some out
      \<and> (\<forall>target pc. out = RelayingTo target pc \<longrightarrow>
           (\<exists>ip port. SplitHostPort target = Inr (IP_String ip, Itoa port) \<and> 0 < port
              \<and> ParseIP (IP_String ip) = To16 ip \<and> \<not> IsForbiddenIP (To16 ip) \<and> dial target))"
    by auto
qed (rule dialChimeraTCP_returns [OF assms])

text \<open>A connection on which five bytes of an empty frame follow the session header.\<close>

theorem tcp_handlers_total_safe_witness:
  "\<exists>out. handleConn stream_read stream_write id quietTape (\<lambda>_. None) (\<lambda>_. True)
     \<lparr>st_segments = [sessionBytes 32 1 @ [0, 0], [0, 0, 0]], st_sent = [], st_room = Some 9\<rparr> = Some out"
proof -
  have "stream_readable \<lparr>st_segments = [sessionBytes 32 1 @ [0, 0], [0, 0, 0]], st_sent = [], st_room = Some 9\<rparr>"
    by (simp add: stream_readable_def)
  from tcp_handlers_total_safe [OF this, of id quietTape "\<lambda>_. None" "\<lambda>_. True"] show ?thesis by blast
qed

end
