(* ===== verification/Programs.thy ===== *)
theory Programs
  imports Tcp_Returns
begin

text \<open>
  The client program and the server program together: what their settings have in common
  (\<open>cmd/chimera-client/main.go\<close> and \<open>cmd/chimera-server/main.go\<close>), and how the short ID of a REALITY
  client (\<open>internal/realclient/client.go\<close>) reaches the table of the server's listener
  (\<open>internal/realserv/server.go\<close>), and what the SOCKS5 side of the client hands to the transports.
\<close>

section \<open>Keys\<close>

text \<open>Outside the TCP mode the client program has derived a key from its three settings.\<close>

lemma clientMain_quic:
  assumes "clientMain hkdf flags = Inr cfg" and "rt_mode cfg \<noteq> ''tcp''"
  shows "\<exists>pub psk sid. b64_DecodeString (cf_pub flags) = Some pub \<and> b64_DecodeString (cf_quicPsk flags) = Some psk
    \<and> decodeShortID (cf_sid flags) = Some sid \<and> DeriveAuthKey hkdf psk pub sid = Inr (rt_quicAuthKey cfg) \<and> rt_serverName cfg = cf_sni flags"
  using assms by (auto simp: clientMain_def validateQUICConfig_def split: if_splits sum.splits option.splits)

lemma deriveKeys_member:
  "deriveKeys hkdf psk pub sids keys = Inr keys' \<Longrightarrow> set keys \<subseteq> set keys'
     \<and> (\<forall>sid \<in> set sids. \<exists>key \<in> set keys'. DeriveAuthKey hkdf psk pub sid = Inr key)"
proof (induction sids arbitrary: keys)
  case (Cons sid sids)
  then obtain key where key: "DeriveAuthKey hkdf psk pub sid = Inr key" "deriveKeys hkdf psk pub sids (keys @ [key]) = Inr keys'"
    by (auto split: sum.splits)
  from Cons.IH [OF this(2)] key(1) show ?case by auto
qed simp

lemma deriveServerAuthKeys_member:
  assumes "deriveServerAuthKeys hkdf psk pub sids = Inr keys" and "sid \<in> set sids" and "DeriveAuthKey hkdf psk pub sid = Inr key"
  shows "key \<in> set keys"
  using assms deriveKeys_member [of hkdf psk pub sids "[]" keys]
  by (fastforce simp: deriveServerAuthKeys_def split: if_splits sum.splits)

lemma DialClient_keys:
  assumes "DialClientWithConfig de cfg = Inr c"
  shows "au_keys (cl_auth c) = [cc_AuthKey cfg]" and "cl_serverName c = ToLower (de_unicode de) (TrimSpace (cc_ServerName cfg))"
  using assms
  by (auto simp: DialClientWithConfig_def normalizeClientConfig_def NewAuthenticator_def Let_def split: if_splits sum.splits option.splits)

text \<open>C17 (functional). The settings fit together: a client program and a server program that were given
  the same PSK, the server's public key, and a short ID that is among the server's, derive the same
  key, which is one that the server's authenticator holds. The server name is another matter: the
  client signs its requests for the name that the server checks exactly when its SNI is the name the QUIC
  server was started with (the first of the server's names), up to case and surrounding space; another
  name of the server's list will not do. These are the hypotheses under which \<open>connect_end_to_end\<close> holds.\<close>

theorem programs_agree:
  assumes "clientMain hkdf flags = Inr cfg" and "rt_mode cfg \<noteq> ''tcp''"
    and "startQUIC me sflags serverName privKey shortIDs = Inr (Some (s, info))" and "me_hkdf me = hkdf"
    and "me_PublicKey me privKey = b64_DecodeString (cf_pub flags)"
    and "decodePSK (sf_quicPSK sflags) = b64_DecodeString (cf_quicPsk flags)"
    and "decodeShortID (cf_sid flags) = Some sid" and "sid \<in> set shortIDs"
    and "DialClientWithConfig de \<lparr>cc_ServerAddr = rt_serverAddr cfg, cc_ServerName = rt_serverName cfg, cc_AuthKey = rt_quicAuthKey cfg,
           cc_CertFingerprint = rt_quicFingerprint cfg, cc_EnableDatagrams = False, cc_UDPMaxPacketSize = 0, cc_QUICConfig = None\<rparr> = Inr c"
    and "de_unicode de = U" and "le_unicode (me_listen me) = U"
  shows "au_keys (cl_auth c) = [rt_quicAuthKey cfg] \<and> rt_quicAuthKey cfg \<in> set (au_keys (sv_auth s))
    \<and> (cl_serverName c = sv_serverName s \<longleftrightarrow> ToLower U (TrimSpace (cf_sni flags)) = ToLower U (TrimSpace serverName))"
proof -
  obtain pub psk key where pub: "b64_DecodeString (cf_pub flags) = Some pub" and psk: "b64_DecodeString (cf_quicPsk flags) = Some psk"
    and key: "DeriveAuthKey hkdf psk pub sid = Inr key" and cfg: "rt_quicAuthKey cfg = key" "rt_serverName cfg = cf_sni flags"
    using clientMain_quic [OF assms(1,2)] assms(7) by auto
  obtain keys where keys: "deriveServerAuthKeys hkdf psk pub shortIDs = Inr keys"
    and listen: "ListenServerWithConfig (me_listen me) (quicServerConfig sflags serverName keys) = Inr (s, info)"
    using assms(3) pub psk by (auto simp: startQUIC_def assms(4-6) split: if_splits sum.splits option.splits)
  have "key \<in> set keys" using deriveServerAuthKeys_member [OF keys assms(8) key] .
  moreover have "au_keys (sv_auth s) = keys" "sv_serverName s = ToLower U (TrimSpace serverName)"
    using Listen_ok(4,7) [OF listen] assms(11) by (simp_all add: quicServerConfig_def)
  moreover have "au_keys (cl_auth c) = [key]" "cl_serverName c = ToLower U (TrimSpace (cf_sni flags))"
    using DialClient_keys [OF assms(9)] assms(10) cfg by simp_all
  ultimately show ?thesis using cfg(1) by simp
qed

section \<open>Short IDs\<close>

lemma length_copyAt: "off \<le> length dst \<Longrightarrow> length (copyAt off src dst) = length dst"
  by (auto simp: copyAt_def)

text \<open>What was copied can be cut out again, and is overwritten by a copy of the same length.\<close>

lemma copyAt_cut:
  assumes "off + length src \<le> length dst"
  shows "take (length src) (drop off (copyAt off src dst)) = src"
    and "length src' = length src \<Longrightarrow> copyAt off src' (copyAt off src dst) = copyAt off src' dst"
  using assms by (simp_all add: copyAt_def)

lemma sessionId_fields:
  assumes "length sid \<le> 8"
  shows "take 16 (sessionId now sid) = [1, 0, 0, 0] @ PutUint32 now @ shortIdArray sid"
proof -
  let ?head = "[1, 0, 0, 0] @ PutUint32 now"
  have head: "copyAt 4 (PutUint32 now) (copyAt 0 [1, 0, 0, 0] (replicate 32 0)) = ?head @ replicate 24 0" "length ?head = 8"
    by (simp_all add: copyAt_def PutUint32_def)
  have "copyAt 8 sid (h @ replicate 24 0) = h @ sid @ replicate (24 - length sid) 0" if "length h = 8" for h :: bytes
    using assms that by (simp add: copyAt_def)
  then have "sessionId now sid = ?head @ sid @ replicate (24 - length sid) 0"
    unfolding sessionId_def head(1) using head(2) by blast
  moreover have "take 16 (h @ sid @ replicate (24 - length sid) 0) = h @ shortIdArray sid" if "length h = 8" for h
    using assms that by (simp add: shortIdArray_def)
  ultimately show ?thesis using head(2) by (metis append.assoc)
qed

lemma lookup_fold_put:
  "gm_lookup (fold (\<lambda>x m. gm_put (f x) True m) xs m) k = (if k \<in> f ` set xs then Some True else gm_lookup m k)"
  by (induction xs arbitrary: m) (auto simp: gomap)

text \<open>C16 (roundtrip). The REALITY handshake carries the client's short ID to the server: with an AEAD that
  opens what it sealed, a server that has derived the same key opens the session ID of the
  ClientHello, with that field zeroed as additional data, and finds the version, the time and an
  eight-byte array that is among the arrays its listener was configured with, provided the client's
  short ID is among the configured ones.\<close>

theorem reality_short_id:
  assumes "Dial re config = Some (shut, Inr sealed)" and "length (rc_ShortId config) \<le> 8"
    and "hello = re_Hello re (fingerprintToID (re_unicode re) (rc_Fingerprint config)) (rc_ServerName config)"
    and "re_ECDH re (rc_PublicKey config) = Some shared" and "deriveKey re shared (ch_Random hello) = Some authKey"
    and "71 \<le> length (ch_Raw hello)" and "\<forall>key nonce txt aad. length (re_Seal re key nonce txt aad) = length txt + 16"
    and "\<forall>key nonce txt aad. openAEAD key nonce (re_Seal re key nonce txt aad) aad = Some txt"
    and "reality_Listen listenTCP scfg = Some rc" and "rc_ShortId config \<in> set (rs_ShortIds scfg)"
  shows "\<exists>sid. openAEAD authKey (drop 20 (ch_Random sealed)) (take 32 (drop 39 (ch_Raw sealed))) (copyAt 39 (replicate 32 0) (ch_Raw sealed))
        = Some ([1, 0, 0, 0] @ PutUint32 (re_now re) @ sid)
    \<and> gm_lookup (rv_ShortIds rc) sid = Some True"
proof -
  let ?raw = "copyAt 39 (replicate 32 0) (ch_Raw hello)" and ?msg = "take 16 (sessionId (re_now re) (rc_ShortId config))"
  let ?sid = "re_Seal re authKey (drop 20 (ch_Random hello)) ?msg ?raw"
  have sealed: "sealed = sealHello re authKey (sessionId (re_now re) (rc_ShortId config)) hello"
    using assms(1,3,4,5) by (auto simp: Dial_def Let_def split: if_splits option.splits prod.splits)
  have msg: "?msg = [1, 0, 0, 0] @ PutUint32 (re_now re) @ shortIdArray (rc_ShortId config)"
    using sessionId_fields [OF assms(2)] .
  have "length ?msg = 16" unfolding msg by (simp add: shortIdArray_def PutUint32_def)
  then have len: "length ?sid = 32" using assms(7) by simp
  have "39 + length ?sid \<le> length ?raw" using assms(6) by (simp add: len length_copyAt)
  note cut = copyAt_cut [OF this]
  have "take 32 (drop 39 (ch_Raw sealed)) = ?sid" "copyAt 39 (replicate 32 0) (ch_Raw sealed) = ?raw" "ch_Random sealed = ch_Random hello"
    using cut copyAt_cut(2) [of 39 "replicate 32 0" "ch_Raw hello"] assms(6) by (simp_all add: sealed sealHello_def Let_def len)
  then have "openAEAD authKey (drop 20 (ch_Random sealed)) (take 32 (drop 39 (ch_Raw sealed))) (copyAt 39 (replicate 32 0) (ch_Raw sealed))
        = Some ([1, 0, 0, 0] @ PutUint32 (re_now re) @ shortIdArray (rc_ShortId config))"
    using assms(8) msg by simp
  moreover have "gm_lookup (rv_ShortIds rc) (shortIdArray (rc_ShortId config)) = Some True"
    using assms(9,10) lookup_fold_put [of shortIdArray] by (auto simp: reality_Listen_def Let_def split: if_splits)
  ultimately show ?thesis by blast
qed

section \<open>The target of an application\<close>

text \<open>C13 (type). The addresses that the SOCKS5 side hands to the transports are well-formed: the request on the
  wire is the encoding of the address that is returned and nothing is read beyond it; the address can be
  expressed in the session protocol, where its encoding is read back as the same address, and as the
  authority of a CONNECT request unless its port is zero. The only exception is the empty domain name,
  which the SOCKS5 side lets through and which both transports refuse.\<close>

theorem socks_target_typed:
  assumes "stream_readable s" and "socks5ReadRequest stream_read s = Some (s', Inr a)"
  shows "(\<exists>rsv. stream_content s = requestBytes rsv a @ stream_content s')
    \<and> (if ad_Type a = AtypDomain \<and> ad_Domain a = []
       then addressBytes a = Inl wire_error.EmptyDomain \<and> (\<exists>e. authorityFromAddress (Some a) = Inl e)
       else address_ok a \<and> (\<exists>buf. addressBytes a = Inr buf \<and> (\<forall>rest. decodeAddress (buf @ rest) = (Inr a, rest)))
         \<and> ((\<exists>authority. authorityFromAddress (Some a) = Inr authority) \<longleftrightarrow> ad_Port a \<noteq> 0))"
proof -
  have dec: "decodeRequest (stream_content s) = (Inr a, stream_content s')"
    using stream_in.implements_request [OF assms(1)] assms(2) by (simp add: stream_in.implements_def)
  then have a: "socks_target a" and bytes: "\<exists>rsv. stream_content s = requestBytes rsv a @ stream_content s'"
    by (simp_all add: decodeRequest_iff)
  show ?thesis
  proof (cases "ad_Type a = AtypDomain \<and> ad_Domain a = []")
    case True
    then show ?thesis using bytes by (simp add: addressBytes_def authorityFromAddress_def atyp_defs Let_def)
  next
    case False
    then have ok: "address_ok a" and form: "wire_form a = a"
      using a by (auto simp: socks_target_def address_ok_def wire_form_def To4_def To16_def atyp_defs)
    obtain buf where buf: "addressBytes a = Inr buf" using address_ok_bytes [OF ok] by blast
    moreover have "decodeAddress (buf @ rest) = (Inr a, rest)" for rest
      using decodeAddress_addressBytes [OF ok buf] form by simp
    moreover have "(\<exists>authority. authorityFromAddress (Some a) = Inr authority) \<longleftrightarrow> ad_Port a \<noteq> 0"
      using False a by (auto simp: authorityFromAddress_def socks_target_def atyp_defs Let_def)
    ultimately show ?thesis using ok bytes False by auto
  qed
qed

section \<open>Witnesses\<close>

definition ex_psk :: string where
  "ex_psk = ''AAAAAAAAAAAAAAAAAAAAAAAAAAAAAAAAAAAAAAAAAAA''"

lemma ex_psk_decodes: "b64_DecodeString ex_psk = Some (replicate 32 0)" "decodePSK ex_psk = Some (replicate 32 0)"
proof -
  show dec: "b64_DecodeString ex_psk = Some (replicate 32 0)" by code_simp
  have "TrimSpace ex_psk = ex_psk" by code_simp
  with dec show "decodePSK ex_psk = Some (replicate 32 0)" by (simp add: decodePSK_def)
qed

definition ex_client_flags :: client_flags where
  "ex_client_flags = \<lparr>cf_server = ''l'', cf_sni = ''s'', cf_pub = ex_psk, cf_sid = ''01'', cf_fp = ''chrome'', cf_quic = True, cf_auto = False,
     cf_quicPsk = ex_psk, cf_quicFP = ex_fp, cf_autoQUICTimeout = 1\<rparr>"

definition ex_server_flags :: server_flags where
  "ex_server_flags = (defaultFlags (\<lambda>_. []))\<lparr>sf_listen := ''l'', sf_target := ''a'', sf_quicPSK := ex_psk, sf_quicCertPath := ''c''\<rparr>"

definition ex_hkdf :: "bytes \<Rightarrow> bytes \<Rightarrow> bytes \<Rightarrow> nat \<Rightarrow> bytes option" where
  "ex_hkdf secret salt info n = Some (replicate n 1)"

definition ex_main_env :: main_env where
  "ex_main_env = \<lparr>me_listen = ex_listen_env, me_hkdf = ex_hkdf, me_GenerateKey = None, me_PublicKey = (\<lambda>_. Some (replicate 32 0)),
     me_randomPSK = None, me_randomSID = None, me_listenTCP = (\<lambda>_. True)\<rparr>"

lemma ex_names: "ToLower ex_unicode ''s'' = ''s''" "TrimSpace ''l'' = ''l''" "TrimSpace ''s'' = ''s''" "TrimSpace ''a'' = ''a''" "TrimSpace ''c'' = ''c''"
  by (simp_all add: ToLower_def isASCII_def ascii_lower_def plain_one plain_char_def)

lemma ex_derive: "DeriveAuthKey ex_hkdf (replicate 32 0) (replicate 32 0) [1] = Inr ex_key"
  by (simp add: DeriveAuthKey_def ex_hkdf_def ex_key_def)

lemma ex_sid: "decodeShortID ''01'' = Some [1]"
  by code_simp

lemma ex_clientMain:
  "\<exists>cfg. clientMain ex_hkdf ex_client_flags = Inr cfg \<and> rt_mode cfg = ''quic'' \<and> rt_serverAddr cfg = ''l'' \<and> rt_serverName cfg = ''s''
     \<and> rt_quicAuthKey cfg = ex_key \<and> rt_quicFingerprint cfg = ex_fp"
  by (simp add: clientMain_def ex_client_flags_def selectedMode_def ex_psk_decodes ex_sid validateQUICConfig_def ex_fp_def ex_derive)
    (simp add: ex_psk_def)

lemma ex_startQUIC: "\<exists>s info. startQUIC ex_main_env ex_server_flags ''s'' [] [[1]] = Inr (Some (s, info))"
proof -
  let ?sys = "\<lparr>sys_LookupIP = (\<lambda>_. None), sys_DialContext = (\<lambda>_ _ _. False), sys_ListenPacket = (\<lambda>_ _. False)\<rparr>"
  obtain cfg where norm: "normalizeServerConfig ex_unicode ?sys [] (quicServerConfig ex_server_flags ''s'' [ex_key]) = Inr cfg"
    and cfg: "sc_CertificateFile cfg = []" "sc_CertificatePath cfg = ''c''" "sc_ServerName cfg = ''s''" "sc_DecoyTarget cfg = ''a''" "sc_AuthKeys cfg = [ex_key]"
      "0 < sc_AuthenticationSkew cfg" "0 < sc_ReplayCapacity cfg"
    by (simp add: normalizeServerConfig_def quicServerConfig_def ex_server_flags_def defaultFlags_def ex_names
        withCertificatePath_def withDurations_def withUDP_def withNetwork_def)
  have cert: "\<exists>r. snd (loadServerCertificate ex_cert_env cfg 0 []) = Inr r"
    by (simp add: loadServerCertificate_def cfg loadOrCreateCertificate_def createCertificate_def writeFileAtomic_def
        ex_cert_env_def mkTemplate_def ex_names Let_def)
  have auth: "\<exists>a. NewAuthenticator [ex_key] (sc_AuthenticationSkew cfg) (sc_ReplayCapacity cfg) = Inr a"
    using cfg by (simp add: NewAuthenticator_def ex_key_def)
  have decoy: "\<exists>d. NewDecoy t ''a'' opts = Inr d" for t opts by (simp add: NewDecoy_def ex_names Let_def)
  have "\<exists>s info. ListenServerWithConfig ex_listen_env (quicServerConfig ex_server_flags ''s'' [ex_key]) = Inr (s, info)"
    using norm cert auth decoy [of "\<lambda>_. None" "withDecoyClient (\<lambda>_ _ _. None) cfg"] cfg
    by (auto simp: ListenServerWithConfig_def ex_listen_env_def)
  moreover have "\<not> sf_quicDisable ex_server_flags" "sf_quicPSK ex_server_flags = ex_psk"
    by (simp_all add: ex_server_flags_def defaultFlags_def)
  ultimately show ?thesis
    by (auto simp: startQUIC_def ex_psk_decodes ex_main_env_def deriveServerAuthKeys_def ex_derive)
qed

theorem programs_agree_witness:
  "\<exists>cfg s info c. clientMain ex_hkdf ex_client_flags = Inr cfg \<and> startQUIC ex_main_env ex_server_flags ''s'' [] [[1]] = Inr (Some (s, info))
     \<and> DialClientWithConfig ex_dial_env ex_client_config = Inr c \<and> au_keys (cl_auth c) = [ex_key] \<and> ex_key \<in> set (au_keys (sv_auth s)) \<and> cl_serverName c = sv_serverName s"
proof -
  obtain cfg where cfg: "clientMain ex_hkdf ex_client_flags = Inr cfg" "rt_mode cfg = ''quic''" "rt_serverAddr cfg = ''l''" "rt_serverName cfg = ''s''"
    "rt_quicAuthKey cfg = ex_key" "rt_quicFingerprint cfg = ex_fp"
    using ex_clientMain by blast
  obtain s info where s: "startQUIC ex_main_env ex_server_flags ''s'' [] [[1]] = Inr (Some (s, info))" using ex_startQUIC by blast
  obtain c where c: "DialClientWithConfig ex_dial_env ex_client_config = Inr c"
    using ex_dial by blast
  have "au_keys (cl_auth c) = [rt_quicAuthKey cfg] \<and> rt_quicAuthKey cfg \<in> set (au_keys (sv_auth s))
      \<and> (cl_serverName c = sv_serverName s \<longleftrightarrow> ToLower ex_unicode (TrimSpace (cf_sni ex_client_flags)) = ToLower ex_unicode (TrimSpace ''s''))"
    by (rule programs_agree [OF cfg(1) _ s, of "[1]" ex_dial_env c ex_unicode])
      (use c cfg in \<open>simp_all add: ex_main_env_def ex_client_flags_def ex_server_flags_def ex_psk_decodes ex_sid ex_client_config_def
         ex_dial_env_def ex_listen_env_def\<close>)
  moreover have "cf_sni ex_client_flags = ''s''" by (simp add: ex_client_flags_def)
  ultimately show ?thesis unfolding cfg(5) using cfg(1) s c by auto
qed

theorem reality_short_id_witness:
  "\<exists>sealed sid. Dial ex_reality_env ex_reality_config = Some (False, Inr sealed)
     \<and> take 16 (take 32 (drop 39 (ch_Raw sealed))) = [1, 0, 0, 0] @ PutUint32 7 @ sid"
proof -
  let ?open = "\<lambda>_ _ sealed _. Some (take (length sealed - 16) sealed)"
  let ?scfg = "\<lparr>rs_ListenAddr = ''l'', rs_Target = ''t'', rs_ServerNames = [''s''], rs_PrivateKey = [], rs_ShortIds = [[1, 2]], rs_Show = False\<rparr>"
  obtain sealed where dial: "Dial ex_reality_env ex_reality_config = Some (False, Inr sealed)" using ex_Dial by blast
  obtain rc where listen: "reality_Listen (\<lambda>_. True) ?scfg = Some rc" by (simp add: reality_Listen_def Let_def)
  have "\<exists>sid. ?open (replicate 32 8) (drop 20 (ch_Random sealed)) (take 32 (drop 39 (ch_Raw sealed))) (copyAt 39 (replicate 32 0) (ch_Raw sealed))
        = Some ([1, 0, 0, 0] @ PutUint32 (re_now ex_reality_env) @ sid) \<and> gm_lookup (rv_ShortIds rc) sid = Some True"
    by (rule reality_short_id [OF dial _ refl _ _ _ _ _ listen])
      (simp_all add: ex_reality_env_def ex_reality_config_def deriveKey_def)
  then obtain sid where sid: "take (length (take 32 (drop 39 (ch_Raw sealed))) - 16) (take 32 (drop 39 (ch_Raw sealed))) = [1, 0, 0, 0] @ PutUint32 7 @ sid"
    by (auto simp: ex_reality_env_def)
  have "length (take 32 (drop 39 (ch_Raw sealed))) = 32"
    using dial unfolding ex_Dial by (auto simp: sealHello_def Let_def length_copyAt)
  with dial sid show ?thesis by auto
qed

theorem socks_target_typed_witness:
  "\<exists>s'. socks5ReadRequest stream_read \<lparr>st_segments = [requestBytes 0 ex_socks_target @ [9]], st_sent = [], st_room = None\<rparr> = Some (s', Inr ex_socks_target)
     \<and> address_ok ex_socks_target \<and> (\<exists>authority. authorityFromAddress (Some ex_socks_target) = Inr authority)"
proof -
  let ?s = "\<lparr>st_segments = [requestBytes 0 ex_socks_target @ [9]], st_sent = [], st_room = None\<rparr>"
  have s: "stream_readable ?s" "stream_content ?s = requestBytes 0 ex_socks_target @ [9]" "socks_target ex_socks_target"
    by (simp_all add: stream_readable_def stream_content_def requestBytes_def socks_target_def ex_socks_target_def)
  then have "decodeRequest (stream_content ?s) = (Inr ex_socks_target, [9])" unfolding decodeRequest_iff by blast
  then obtain s' where run: "socks5ReadRequest stream_read ?s = Some (s', Inr ex_socks_target)"
    using stream_in.implements_request [OF s(1)] by (auto simp: stream_in.implements_def)
  from socks_target_typed [OF s(1) run] run show ?thesis by (auto simp: ex_socks_target_def atyp_defs)
qed

end
