(* ===== verification/Replay_Spec.thy ===== *)
theory Replay_Spec
  imports Replay_Cache
begin

text \<open>
  What the replay cache promises, as a history: \<open>log_run\<close> keeps the list of all nonces that were ever
  accepted with the time of their acceptance, and refuses a nonce when one of the last
  \<open>capacity\<close> acceptances was of this nonce and less than a window ago. The cache of
  \<open>internal/quicx/auth.go\<close>, which forgets, prunes only from the front of its list and evicts, gives the
  same answers as long as its clock does not go back. The two are related by \<open>cache_of_log\<close>.
\<close>

section \<open>The abstract cache\<close>

type_synonym nonce_log = "(string \<times> instant) list"

definition log_refuses :: "nat \<Rightarrow> duration \<Rightarrow> string \<Rightarrow> instant \<Rightarrow> nonce_log \<Rightarrow> bool" where
  "log_refuses capacity window key now log \<longleftrightarrow>
     list_ex (\<lambda>(k, t). k = key \<and> now < t + window) (drop (length log - capacity) log)"

fun log_run :: "nat \<Rightarrow> duration \<Rightarrow> (bytes \<times> instant) list \<Rightarrow> nonce_log \<Rightarrow> bool list" where
  "log_run capacity window [] log = []"
| "log_run capacity window ((nonce, now) # calls) log =
     (if log_refuses capacity window (string_of_bytes nonce) now log
      then False # log_run capacity window calls log
      else True # log_run capacity window calls (log @ [(string_of_bytes nonce, now)]))"

text \<open>The calls of \<open>Add\<close> one after the other.\<close>

fun add_run :: "(bytes \<times> instant) list \<Rightarrow> replayCache \<Rightarrow> (replayCache \<times> bool list) option" where
  "add_run [] c = Some (c, [])"
| "add_run ((nonce, now) # calls) c =
     (case Add nonce now c of
        None \<Rightarrow> None
      | Some (c1, ok) \<Rightarrow> map_option (\<lambda>(c2, oks). (c2, ok # oks)) (add_run calls c1))"

section \<open>The refinement\<close>

definition forgotten :: "nat \<Rightarrow> duration \<Rightarrow> instant \<Rightarrow> nonce_log \<Rightarrow> nat" where
  "forgotten capacity window now log =
     max (length (takeWhile (\<lambda>(k, t). t + window \<le> now) log)) (length log - capacity)"

text \<open>At time \<open>now\<close> the cache holds the end of the log: what is neither expired nor displaced.\<close>

definition cache_of_log :: "instant \<Rightarrow> nonce_log \<Rightarrow> replayCache \<Rightarrow> bool" where
  "cache_of_log now log c \<longleftrightarrow> rc_wf c \<and> 0 < rc_capacity c \<and> 0 < rc_window c
     \<and> map (\<lambda>(_, e). (re_key e, re_expiresAt e)) (rc_order c)
         = map (\<lambda>(k, t). (k, t + rc_window c)) (drop (forgotten (nat (rc_capacity c)) (rc_window c) now log) log)
     \<and> sorted (map snd log) \<and> (\<forall>(k, t) \<in> set log. t \<le> now)"

lemma cache_of_log_new: "0 < capacity \<Longrightarrow> 0 < window \<Longrightarrow> cache_of_log now [] (newReplayCache capacity window)"
  by (simp add: cache_of_log_def) (simp add: newReplayCache_def)

lemma dropWhile_drop_takeWhile:
  assumes "\<forall>x \<in> set (dropWhile P xs). \<not> P x"
  shows "dropWhile P (drop n xs) = drop (max n (length (takeWhile P xs))) xs"
proof (cases "n \<le> length (takeWhile P xs)")
  case True
  have "drop n xs = drop n (takeWhile P xs) @ dropWhile P xs"
    using True by (metis drop_append diff_is_0_eq drop_0 takeWhile_dropWhile_id)
  moreover have "dropWhile P (drop n (takeWhile P xs) @ dropWhile P xs) = dropWhile P (dropWhile P xs)"
    by (rule dropWhile_append2) (metis in_set_dropD set_takeWhileD)
  ultimately have "dropWhile P (drop n xs) = dropWhile P xs" by simp
  then show ?thesis using True by (simp only: max_absorb2 dropWhile_eq_drop)
next
  case False
  then obtain k where k: "n = k + length (takeWhile P xs)" by (metis add.commute le_iff_add nat_le_linear)
  have "drop n xs = drop k (dropWhile P xs)" by (simp add: k dropWhile_eq_drop)
  moreover have "dropWhile P (drop k (dropWhile P xs)) = drop k (dropWhile P xs)"
    using assms by (metis dropWhile_eq_self_iff hd_in_set in_set_dropD)
  moreover have "max n (length (takeWhile P xs)) = n" using False by (simp add: max_def)
  ultimately show ?thesis by (simp only:)
qed

lemma sorted_dropWhile_less: "sorted (map f xs) \<Longrightarrow> x \<in> set (dropWhile (\<lambda>x. f x \<le> a) xs) \<Longrightarrow> a < f x"
  by (induction xs) (auto simp: not_le split: if_splits intro: less_le_trans)

lemma live_log:
  fixes log :: nonce_log
  assumes "sorted (map snd log)"
  shows "dropWhile (\<lambda>(k, s). s + w \<le> t) (drop n log) = drop (max n (length (takeWhile (\<lambda>(k, s). s + w \<le> t) log))) log"
proof (rule dropWhile_drop_takeWhile)
  have "(\<lambda>(k :: string, s). s + w \<le> t) = (\<lambda>x. snd x \<le> t - w)" by (auto simp: fun_eq_iff)
  with sorted_dropWhile_less [OF assms, of _ "t - w"]
  show "\<forall>x \<in> set (dropWhile (\<lambda>(k, s). s + w \<le> t) log). \<not> (case x of (k, s) \<Rightarrow> s + w \<le> t)" by fastforce
qed

lemma live_iff:
  fixes log :: nonce_log
  assumes "sorted (map snd log)"
  shows "x \<in> set (drop (forgotten cap w t log) log) \<longleftrightarrow> x \<in> set (drop (length log - cap) log) \<and> t < snd x + w"
proof -
  let ?old = "\<lambda>(k :: string, s). s + w \<le> t" and ?tail = "drop (length log - cap) log"
  have eq: "drop (forgotten cap w t log) log = dropWhile ?old ?tail"
    using live_log [OF assms] by (simp add: forgotten_def max.commute)
  have "sorted (map snd ?tail)" using assms by (metis drop_map sorted_wrt_drop)
  moreover have "?old = (\<lambda>x. snd x \<le> t - w)" by (auto simp: fun_eq_iff)
  ultimately have "x \<in> set (dropWhile ?old ?tail) \<Longrightarrow> t < snd x + w"
    using sorted_dropWhile_less [of snd ?tail x "t - w"] by fastforce
  moreover have "x \<in> set ?tail \<Longrightarrow> t < snd x + w \<Longrightarrow> x \<in> set (dropWhile ?old ?tail)"
    using takeWhile_dropWhile_id [of ?old ?tail] set_takeWhileD [of x ?old ?tail]
    by (metis (no_types, lifting) Un_iff case_prod_unfold not_le set_append)
  ultimately show ?thesis unfolding eq by (metis set_dropWhileD)
qed

text \<open>Pruning follows the clock.\<close>

lemma pruned_log:
  assumes "cache_of_log now log c" and "now \<le> now'"
  shows "map (\<lambda>(_, e). (re_key e, re_expiresAt e)) (dropWhile (expired now') (rc_order c))
    = map (\<lambda>(k, t). (k, t + rc_window c)) (drop (forgotten (nat (rc_capacity c)) (rc_window c) now' log) log)"
proof -
  let ?old = "\<lambda>t (k :: string, s). s + rc_window c \<le> (t :: instant)"
  have le: "length (takeWhile (?old now) log) \<le> length (takeWhile (?old now') log)"
    using assms(2) by (induction log) auto
  have "map (\<lambda>(_, e). (re_key e, re_expiresAt e)) (dropWhile (expired now') (rc_order c))
      = dropWhile (\<lambda>(k, x). x \<le> now') (map (\<lambda>(_, e). (re_key e, re_expiresAt e)) (rc_order c))"
    by (simp add: dropWhile_map comp_def expired_def [abs_def] split_beta)
  also have "\<dots> = map (\<lambda>(k, t). (k, t + rc_window c))
      (dropWhile (?old now') (drop (forgotten (nat (rc_capacity c)) (rc_window c) now log) log))"
    using assms(1) by (simp add: cache_of_log_def dropWhile_map comp_def case_prod_beta')
  also have "dropWhile (?old now') (drop (forgotten (nat (rc_capacity c)) (rc_window c) now log) log)
      = drop (forgotten (nat (rc_capacity c)) (rc_window c) now' log) log"
    using le live_log [of log "rc_window c" now'] assms(1) by (simp add: cache_of_log_def forgotten_def max.assoc max.left_commute max_absorb2) (simp add: max.commute)
  finally show ?thesis .
qed

lemma forgotten_snoc:
  assumes "0 < w" and "0 < cap"
  shows "forgotten cap w now (log @ [(key, now)]) = length log - forgotten cap w now log + 1 - cap + forgotten cap w now log"
    and "forgotten cap w now (log @ [(key, now)]) \<le> length log"
proof -
  let ?old = "\<lambda>(k :: string, s). s + w \<le> now"
  have "length (takeWhile ?old (log @ [(key, now)])) = length (takeWhile ?old log)"
    using assms(1) by (auto simp: takeWhile_append dest: arg_cong [OF takeWhile_eq_all_conv [THEN iffD2], of _ _ length])
  moreover have j: "length (takeWhile ?old log) \<le> length log" by (rule length_takeWhile_le)
  moreover have arith: "max j (Suc l - cap) = l - max j (l - cap) + 1 - cap + max j (l - cap) \<and> max j (Suc l - cap) \<le> l" if "j \<le> l" for j l :: nat
    using that assms(2) by (cases "cap \<le> l"; cases "j \<le> l - cap") (auto simp: max_def)
  ultimately show "forgotten cap w now (log @ [(key, now)]) = length log - forgotten cap w now log + 1 - cap + forgotten cap w now log"
      "forgotten cap w now (log @ [(key, now)]) \<le> length log"
    using arith [OF j] by (simp_all add: forgotten_def)
qed

text \<open>The log refuses a nonce exactly when an unexpired entry of the cache holds it.\<close>

lemma refuses_iff_held:
  assumes "cache_of_log now log c" and "now \<le> now'"
  shows "log_refuses (nat (rc_capacity c)) (rc_window c) key now' log \<longleftrightarrow> key \<in> (re_key \<circ> snd) ` set (dropWhile (expired now') (rc_order c))"
proof -
  let ?cap = "nat (rc_capacity c)" and ?w = "rc_window c" and ?live = "dropWhile (expired now') (rc_order c)"
  let ?n = "forgotten ?cap ?w now' log"
  have srt: "sorted (map snd log)" using assms(1) by (simp add: cache_of_log_def)
  have "map fst (map (\<lambda>(_, e). (re_key e, re_expiresAt e)) ?live) = map fst (drop ?n log)"
    unfolding pruned_log [OF assms] by (simp add: split_beta)
  then have "map (re_key \<circ> snd) ?live = map fst (drop ?n log)" by (simp add: split_beta comp_def)
  then have keys: "(re_key \<circ> snd) ` set ?live = fst ` set (drop ?n log)" by (metis list.set_map)
  have "log_refuses ?cap ?w key now' log \<longleftrightarrow> (\<exists>x \<in> set (drop (length log - ?cap) log). fst x = key \<and> now' < snd x + ?w)"
    by (simp add: log_refuses_def list_ex_iff split_beta)
  also have "\<dots> \<longleftrightarrow> (\<exists>x \<in> set (drop ?n log). fst x = key)" using live_iff [OF srt, of _ ?cap ?w now'] by blast
  finally show ?thesis unfolding keys by (metis image_iff)
qed

text \<open>One call keeps the relation and gives the answer of the log.\<close>

lemma Add_cache_of_log:
  assumes "cache_of_log now log c" and "now \<le> now'"
  shows "\<exists>c'. Add nonce now' c = Some (c', \<not> log_refuses (nat (rc_capacity c)) (rc_window c) (string_of_bytes nonce) now' log)
    \<and> rc_capacity c' = rc_capacity c \<and> rc_window c' = rc_window c
    \<and> cache_of_log now' (if log_refuses (nat (rc_capacity c)) (rc_window c) (string_of_bytes nonce) now' log then log
         else log @ [(string_of_bytes nonce, now')]) c'"
proof -
  let ?cap = "nat (rc_capacity c)" and ?w = "rc_window c" and ?key = "string_of_bytes nonce"
  let ?view = "map (\<lambda>(_, e). (re_key e, re_expiresAt e))" and ?live = "dropWhile (expired now') (rc_order c)"
  let ?n = "forgotten ?cap ?w now' log"
  have c: "rc_wf c" "0 < rc_capacity c" "0 < ?w" "sorted (map snd log)" "\<forall>(k, t) \<in> set log. t \<le> now'"
    using assms by (auto simp: cache_of_log_def)
  note live = pruned_log [OF assms]
  note refuse = refuses_iff_held [OF assms, of ?key]
  obtain c' ok where add: "Add nonce now' c = Some (c', ok)" "rc_wf c'" "rc_capacity c' = rc_capacity c" "rc_window c' = ?w"
    and ok: "ok \<longleftrightarrow> ?key \<notin> (re_key \<circ> snd) ` set ?live"
    and order: "if ok then \<exists>i. rc_order c' = drop (length ?live + 1 - ?cap) ?live @ [(i, \<lparr>re_key = ?key, re_expiresAt = now' + ?w\<rparr>)]
       else rc_order c' = ?live"
    using Add_spec [OF c(1,2), where now = now' and nonce = nonce] by blast
  show ?thesis
  proof (cases ok)
    case True
    let ?log = "log @ [(?key, now')]" and ?m = "length ?live + 1 - ?cap"
    obtain i where i: "rc_order c' = drop ?m ?live @ [(i, \<lparr>re_key = ?key, re_expiresAt = now' + ?w\<rparr>)]" using order True by auto
    have len: "length ?live = length log - ?n" using arg_cong [OF live, of length] by simp
    note snoc = forgotten_snoc [OF c(3), of ?cap now' log ?key]
    have n: "forgotten ?cap ?w now' ?log = ?m + ?n" unfolding len using snoc(1) c(2) by simp
    have "?m + ?n \<le> length log" unfolding n [symmetric] using snoc(2) c(2) by simp
    note n = n this
    have "?view (rc_order c') = map (\<lambda>(k, t). (k, t + ?w)) (drop ?m (drop ?n log)) @ [(?key, now' + ?w)]"
      unfolding i using live by (simp add: drop_map [symmetric])
    also have "\<dots> = map (\<lambda>(k, t). (k, t + ?w)) (drop (forgotten ?cap ?w now' ?log) ?log)"
      using n by simp
    finally have "cache_of_log now' ?log c'"
      using add(2-4) c by (auto simp: cache_of_log_def sorted_append)
    with add True ok refuse show ?thesis by simp
  next
    case False
    then have "cache_of_log now' log c'" using add(2-4) c order live by (auto simp: cache_of_log_def)
    with add False ok refuse show ?thesis by simp
  qed
qed

lemma add_run_cache_of_log:
  assumes "cache_of_log now log c" and "sorted (map snd calls)" and "\<forall>(nonce, t) \<in> set calls. now \<le> t"
  shows "\<exists>c'. add_run calls c = Some (c', log_run (nat (rc_capacity c)) (rc_window c) calls log)"
  using assms
proof (induction calls arbitrary: now log c)
  case (Cons call calls)
  obtain nonce t where call: "call = (nonce, t)" by fastforce
  let ?no = "log_refuses (nat (rc_capacity c)) (rc_window c) (string_of_bytes nonce) t log"
  obtain c1 where c1: "Add nonce t c = Some (c1, \<not> ?no)" "rc_capacity c1 = rc_capacity c" "rc_window c1 = rc_window c"
      "cache_of_log t (if ?no then log else log @ [(string_of_bytes nonce, t)]) c1"
    using Add_cache_of_log [OF Cons.prems(1), of t nonce] Cons.prems(3) call by auto
  have "\<exists>c'. add_run calls c1 = Some (c', log_run (nat (rc_capacity c)) (rc_window c) calls (if ?no then log else log @ [(string_of_bytes nonce, t)]))"
    using Cons.IH [OF c1(4)] Cons.prems(2) c1(2,3) call by fastforce
  with c1(1) call show ?case by auto
qed simp

text \<open>C5 (refinement). As long as time does not go back, the replay cache answers every sequence of calls of
  \<open>Add\<close> as the log does that forgets nothing: a nonce is refused exactly when one of the last \<open>capacity\<close>
  accepted nonces was the same and was accepted less than a window ago. All calls return.\<close>

theorem replay_cache_refines_log:
  assumes "0 < capacity" and "0 < window" and "sorted (map snd calls)"
  shows "\<exists>c. add_run calls (newReplayCache capacity window) = Some (c, log_run (nat capacity) window calls [])"
proof (cases calls)
  case (Cons call rest)
  obtain nonce t where call: "call = (nonce, t)" by fastforce
  have "\<forall>(nonce, s) \<in> set calls. t \<le> s" using assms(3) Cons call by auto
  from add_run_cache_of_log [OF cache_of_log_new [OF assms(1,2)] assms(3) this] show ?thesis
    by (simp add: newReplayCache_def)
qed simp

theorem replay_cache_refines_log_witness:
  "\<exists>c. add_run [([1], 0), ([1], 5), ([2], 5), ([1], 10), ([3], 11), ([2], 12)] (newReplayCache 2 10) = Some (c, [True, False, True, True, True, True])"
proof -
  have "log_run (nat 2) 10 [([1], 0), ([1], 5), ([2], 5), ([1], 10), ([3], 11), ([2], 12)] [] = [True, False, True, True, True, True]"
    by code_simp
  then show ?thesis
    using replay_cache_refines_log [of 2 10 "[([1], 0), ([1], 5), ([2], 5), ([1], 10), ([3], 11), ([2], 12)]"] by simp
qed

end
