(* ===== verification/Spec2Isabelle.thy ===== *)
theory Spec2Isabelle
  imports "HOL-Library.Multiset" Programs Replay_Spec
begin

text \<open>
  Chimera is a proxy in two programs. An application speaks SOCKS5 to the client program, which opens a
  connection to the server program and has it relay to a target. Two transports exist: TCP, where a
  REALITY handshake hides a session protocol over a padded byte stream, and HTTP/3 over QUIC, where an
  authenticated CONNECT request opens a stream, or a UDP session over datagrams. A visitor without a
  valid token is shown a decoy web site.

  \<^bold>\<open>The theories and the code they model\<close> (paths below \<open>src/\<close>)

  \<^item> \<open>Prelude\<close>, \<open>Go_Strings\<close>, \<open>Go_Io\<close>, \<open>Go_Float\<close>, \<open>Go_Http\<close>, \<open>Net_Addr\<close>, \<open>Sha256\<close>, \<open>Sha512\<close>: what the
    program uses of the Go language and its library, executable, with the laws the components use.
  \<^item> \<open>Replay_Cache\<close>, \<open>Auth\<close>: \<open>internal/quicx/auth.go\<close>. The record \<open>replayCache\<close> is the Go struct with its list
    and map; \<open>Sign\<close> and \<open>Validate\<close> are the methods. \<open>Replay_Spec\<close> is the cache's specification as a log
    that forgets nothing, and the proof that the cache refines it.
  \<^item> \<open>Udp_Codec\<close>: \<open>internal/quicx/udp_codec.go\<close>, fragmenting and reassembling packets.
  \<^item> \<open>Wire\<close>, \<open>Relay\<close>: \<open>internal/chimera/chimera.go\<close>, the session protocol and the copying of bytes between
    two connections (with \<open>relayH3Stream\<close> of \<open>internal/quicx/server.go\<close>). \<open>Guard\<close>:
    \<open>internal/chimera/guard.go\<close>, which targets are refused.
  \<^item> \<open>Padstream\<close>: \<open>internal/padstream/padstream.go\<close>, the padded connection.
  \<^item> \<open>Limiter\<close>, \<open>Decoy\<close>, \<open>Config\<close>, \<open>Cert\<close>: the files of these names in \<open>internal/quicx\<close>.
  \<^item> \<open>Server\<close>, \<open>Server_Props\<close>: \<open>internal/quicx/server.go\<close> and the first half of \<open>udp.go\<close>: starting, closing,
    and the request handler, once as it is written and once cut into its atomic steps for the
    interleavings. \<open>Udp_Session\<close>: the second half of \<open>udp.go\<close>.
  \<^item> \<open>Client\<close>, \<open>Udp_Client\<close>: \<open>internal/quicx/client.go\<close> and \<open>udp_client.go\<close>.
  \<^item> \<open>Reality\<close>: \<open>internal/realclient/client.go\<close>.
  \<^item> \<open>Client_Main\<close>: \<open>cmd/chimera-client/main.go\<close>. \<open>Server_Main\<close>: \<open>cmd/chimera-server/main.go\<close> and
    \<open>internal/realserv/server.go\<close>.
  \<^item> \<open>Tcp_Path\<close>, \<open>Tcp_Returns\<close>, \<open>Programs\<close> and this theory: what holds of several components together.

  \<^bold>\<open>How the code is modelled.\<close> A struct is a record with the fields of the code, a method a function on it
  with the code's name (prefixed by the type where two methods share a name), a returned error the left
  side of a sum. What the environment decides is an argument: clocks, randomness (a tape), the order in
  which a map is visited, what a connection delivers and in which pieces, which system calls fail. So a
  theorem that has no hypothesis about such an argument holds for every environment. A call that panics
  or never returns is \<open>None\<close>. Concurrency is a step relation whose steps are the accesses to shared state
  under one lock or channel operation: \<open>limiter_step\<close>, \<open>server_step\<close>, \<open>session_step\<close>, \<open>relay_step\<close>.
  Integers have the width of the code where it matters: the 32-bit sequence numbers, 16-bit lengths,
  64-bit time arithmetic with its wrap-around, \<open>float64\<close> with its rounding.

  Loops that need not end are partial functions: \<open>makeRoom\<close>, \<open>ReadFull_from\<close>, \<open>Conn_Write\<close>, \<open>Conn_Read\<close>. No fuel is
  used. That they return is proved where it holds: for a cache with positive capacity, and for every
  connection that delivers finitely many bytes, whatever they are.

  \<^bold>\<open>Interfaces.\<close> \<open>byte_source\<close>, \<open>byte_sink\<close> and \<open>duplex\<close> (in \<open>Go_Io\<close>) are the contracts of \<open>io.Reader\<close> and \<open>io.Writer\<close> under
  which the session protocol is verified; they are interpreted on a segmented stream and, by way of
  \<open>padded_conn\<close>, on the padded connection over it. \<open>returning_reader\<close> (in \<open>Tcp_Returns\<close>) is the weaker contract that
  suffices for returning. \<open>bounded_store\<close> (in \<open>Prelude\<close>) is what the three bounded tables have in common.

  \<^bold>\<open>What is shown.\<close>
  \<^item> Authentication: what \<open>Sign\<close> makes is accepted; what is accepted was signed with a held key for exactly
    this request (or a collision of HMAC-SHA-256 is exhibited), with a nonce that was not in the cache;
    no token is accepted twice while the cache has room; the cache gives the answers of an unbounded log.
  \<^item> UDP: packets survive reordering, duplication and interleaving; nothing else is ever delivered;
    memory is bounded; from \<open>WriteTo\<close> of the client to the target, and back to \<open>ReadFrom\<close>. One limit is
    wrong: a configured packet size above 64000 bytes is accepted, and a reply of that size ends its session.
  \<^item> TCP: the padded stream carries any message through any segmentation; when keep-alive frames go out (from
    the first non-empty frame on none does, unless the peer sends an empty one); client and server agree on
    the target and on the outcome; both return whatever arrives; the server dials allowed literals
    only; the SOCKS5 side accepts exactly the well-formed requests, and what it hands on is
    well-formed; a REALITY connection needs the server's private key; relaying loses nothing silently
    and ends.
  \<^item> HTTP/3: every open relay was requested by an authenticated client; visitors see only the rate limit
    or a sanitized decoy; all resources stay within their configured bounds and no handler waits
    for another, in every interleaving; once the relays end, every place and slot is given back; the
    token bucket admits no more than the burst and fills up again in a window; a granted CONNECT
    reaches exactly the address asked for.
  \<^item> Operation: a certificate file is replaced atomically and found again; the client's pin is what the
    server reports; the two programs derive the same keys, and use the same server name when the
    client's SNI is the server's first name; the systemd unit cannot be extended by
    the values put into it.

  \<^bold>\<open>What is assumed.\<close> Third-party code (quic-go, utls, xtls/reality, hkdf) and the operating system are
  arguments. The hypotheses about them are named in the theorems that need them: that \<open>crypto/tls\<close> obeys the
  verification callback, that an AEAD opens what it sealed, \<open>x509_laws\<close> for parsing what was created. No
  theorem assumes a cryptographic hardness property.

  \<^bold>\<open>What is not modelled.\<close> Logging; the parsing of flags by package \<open>flag\<close>; the accept loops of the two programs,
  which start one handler for each connection; reads that wait for ever (a modelled connection delivers
  finitely many bytes and then its end, so "returns" means: on a stream that ends; the programs set no
  read deadlines); the difference of Go's wall and monotonic clocks; the durability that \<open>Sync\<close> gives;
  \<open>LocalAddr\<close>, \<open>RemoteAddr\<close> and the \<open>net.Addr\<close> methods of
  \<open>udpTargetAddr\<close>, which return what they were given; deadlines of sockets, whose effect is a failing read
  or write of the environment; the REALITY server, which is the library \<open>xtls/reality\<close>.
\<close>

section \<open>A client and the server\<close>

text \<open>What a client sees of the server's handler: the status of the answer, or 200 when a relay runs.\<close>

definition serverStatus :: "serve_env \<Rightarrow> string \<Rightarrow> Server \<Rightarrow> http_request \<Rightarrow> int option" where
  "serverStatus e remote s request =
     (case ServeHTTP e (request\<lparr>rq_RemoteAddr := remote\<rparr>) s of
        None \<Rightarrow> None
      | Some (_, Answered None) \<Rightarrow> None
      | Some (_, Answered (Some resp)) \<Rightarrow> Some (rs_Status resp)
      | Some (_, Relaying _ _) \<Rightarrow> Some 200
      | Some (_, UdpRelaying _ _) \<Rightarrow> Some 200
      | Some _ \<Rightarrow> None)"

lemma tcpHeader_fields:
  "Header_Get ''Authorization'' (tcpHeader a) = a" "Header_Get udpHeaderName (tcpHeader a) = []"
proof -
  have keys: "CanonicalHeaderKey ''Authorization'' = ''Authorization''" "CanonicalHeaderKey ''User-Agent'' = ''User-Agent''"
      "CanonicalHeaderKey ''Connect-Protocol'' = ''Connect-Protocol''"
    by code_simp+
  show "Header_Get ''Authorization'' (tcpHeader a) = a" "Header_Get udpHeaderName (tcpHeader a) = []"
    by (simp_all add: Header_Get_def Header_Values_def tcpHeader_def Header_Set_def udpHeaderName_def keys gomap)
qed

text \<open>An authenticated request that finds a free place is granted, whatever its address's bucket.\<close>

lemma ServeHTTP_granted:
  assumes "authenticate e r s = Some (s1, True)" and "li_sem (sv_limiter s1) < li_semCap (sv_limiter s1)"
    and "rq_Method r = MethodConnect" and "\<not> EqualFold (Header_Get udpHeaderName (rq_Header r)) ''connect-udp''"
    and "\<And>l. routeTCP e r (s1\<lparr>sv_limiter := l\<rparr>) = Some (RelayTo target)"
  shows "\<exists>s' h. ServeHTTP e r s = Some (s', Relaying h target)"
  using assms by (simp add: ServeHTTP_def Allow_def acquire_def leave_def)

text \<open>C37 (functional). A client that holds one of the server's keys and its name, and asks for an IP
  address that the guard allows, is connected to exactly that address and port: the request it
  sends is accepted by the server's handler, which relays to the literal of the address, and the
  client's dial succeeds. It needs clocks that differ by no more than the skew, a nonce the server
  has not seen, a free place, and a target that can be dialled.\<close>

theorem connect_end_to_end:
  assumes "au_keys (cl_auth c) = key # ks" and "key \<in> set (au_keys (sv_auth s))" and "cl_serverName c = sv_serverName s"
    and "server_ok s" and "li_sem (sv_limiter s) < li_semCap (sv_limiter s)"
    and "ToLower U (TrimSpace (sv_serverName s)) \<noteq> []" and "length (ToLower U (TrimSpace (sv_serverName s))) \<le> 65535"
    and "ad_Type addr = AtypIPv4 \<or> ad_Type addr = AtypIPv6" and "length (ad_IP addr) = 4 \<or> length (ad_IP addr) = 16"
    and "\<not> IsForbiddenIP (ad_IP addr)" and "ad_Port addr \<noteq> 0"
    and "se_unicode se = U" and "ev_unicode e = U" and "se_nonce se = Some nonce" and "length nonce = 16"
    and "string_of_bytes nonce \<notin> set (rc_keys (au_replay (sv_auth s)))"
    and "0 \<le> se_now se" and "se_now se div second < 2 ^ 62" and "\<bar>ev_authNow e - se_now se div second * second\<bar> \<le> au_maxSkew (sv_auth s)"
    and "se_open se" and "se_send se" and "se_response se = serverStatus e remote s" and "ev_streamer e"
    and "nh_DialContext (sv_network s) = Some dial" and "dial ''tcp'' (JoinHostPort (IP_String (ad_IP addr)) (Itoa (unat (ad_Port addr))))"
  shows "\<exists>conn s' h. DialTCP se c (Some addr) = (Some (hc_RequestStream conn), Inr conn)
    \<and> ServeHTTP e ((hc_request conn)\<lparr>rq_RemoteAddr := remote\<rparr>) s
        = Some (s', Relaying h (JoinHostPort (IP_String (ad_IP addr)) (Itoa (unat (ad_Port addr)))))"
proof -
  let ?port = "unat (ad_Port addr)" and ?ip = "ad_IP addr"
  let ?a = "JoinHostPort (IP_String ?ip) (Itoa ?port)"
  have port: "0 < ?port" "?port < 2 ^ 16"
    using assms(11) unsigned_less [of "ad_Port addr", where 'a = nat] by (simp_all add: unat_gt_0)
  have dom: "ad_Type addr \<noteq> AtypDomain" using assms(8) by (auto simp: atyp_defs)
  have authority: "authorityFromAddress (Some addr) = Inr ?a"
    using assms(8,9,11) dom by (auto simp: authorityFromAddress_def Let_def)
  obtain n where "normalizeAuthFields U MethodConnect ?a (sv_serverName s) = Inr n"
    using authority_normalizes [OF assms(9) port(2) assms(6,7)] by blast
  then obtain m au sn where norm: "normalizeAuthFields U MethodConnect ?a (sv_serverName s) = Inr (m, au, sn)" by (cases n) auto
  have "\<exists>input. canonicalAuthInput (Unix_of (se_now se)) nonce m au sn = Inr input"
    using normalizeAuthFields_bounds [OF norm] assms(15) by (simp add: canonicalAuthInput_Inr)
  then obtain header where sign: "Sign U (cl_auth c) (Some nonce) MethodConnect ?a (sv_serverName s) (se_now se) = Inr header"
    using norm assms(1) by (auto simp: Sign_def Let_def)
  have wf: "auth_wf (sv_auth s)" using assms(4) by (simp add: server_ok_def)
  obtain v where valid: "Validate U (sv_auth s) header MethodConnect ?a (sv_serverName s) (ev_authNow e) = Some (v, True)"
    using Sign_accepted [OF sign _ wf assms(16-19)] assms(1,2) by auto
  let ?r = "(connectRequest ?a (tcpHeader header))\<lparr>rq_RemoteAddr := remote\<rparr>"
  have auth: "authenticate e ?r s = Some (s\<lparr>sv_auth := v\<rparr>, True)"
    using valid assms(13) by (simp add: authenticate_def connectRequest_def tcpHeader_fields)
  have route: "routeTCP e ?r (s\<lparr>sv_auth := v, sv_limiter := l\<rparr>) = Some (RelayTo ?a)" for l
    using assms(4,23-25) resolve_own_authority [OF assms(9,10) port]
    by (auto simp: routeTCP_def connectRequest_def server_ok_def hooks_set_def)
  obtain s' h where serve: "ServeHTTP e ?r s = Some (s', Relaying h ?a)"
    using ServeHTTP_granted [OF auth _ _ _ route] assms(5) by (auto simp: connectRequest_def tcpHeader_fields EqualFold_def)
  have "DialTCP se c (Some addr) = (Some openStream,
      Inr \<lparr>hc_RequestStream = openStream, hc_request = connectRequest ?a (tcpHeader header), hc_once = False, hc_err = None\<rparr>)"
    using authority sign serve assms(3,12,14,20-22) by (simp add: DialTCP_def exchange_def serverStatus_def)
  with serve show ?thesis by auto
qed

section \<open>Packets through a UDP relay\<close>

lemma once_each:
  assumes "mset (map g xs) = mset ys"
  shows "g ` set xs = set ys" "length xs = length ys"
proof -
  have "set (map g xs) = set ys" by (rule mset_eq_setD [OF assms])
  then show "g ` set xs = set ys" by simp
  show "length xs = length ys" using mset_eq_length [OF assms] by simp
qed

text \<open>C38 (roundtrip). A packet that the client's \<open>WriteTo\<close> accepts and that is within the server's packet limit
  reaches the target whole and once: when the datagrams it was sent in arrive at the server, each
  once, in any order and within the two seconds an assembly lives, a session that holds no
  unfinished packet sends exactly that packet to its target, and nothing else.\<close>

theorem udp_to_target:
  assumes "WriteTo wnow True None p (Some c) = (Some c', frames, Inr n)"
    and "int (length p) \<le> ud_maxPacket (us_fromClient u0)" and "ud_pending (us_fromClient u0) = []"
    and "session_run u0 evs u" and "list_all all_sent evs"
    and "mset (map (snd \<circ> snd \<circ> callOf) evs) = mset frames"
    and "\<forall>ev \<in> set evs. t \<le> fst (snd (callOf ev)) \<and> fst (snd (callOf ev)) < t + udpFragmentAssemblyTTL"
  shows "n = length p \<and> us_sent u = us_sent u0 @ [(p, us_target u0)]"
proof -
  obtain e where enc: "Encode p (uc_encoder c) = (e, Inr frames)" and n: "n = length p"
    using assms(1) by (auto simp: WriteTo_def split: if_splits prod.splits sum.splits)
  obtain rs where rs: "decode_run (map callOf evs) (us_fromClient u0) = (us_fromClient u, rs)"
      "us_sent u = us_sent u0 @ map (\<lambda>p. (p, us_target u0)) (packetsOf rs)"
    using session_decodes [OF assms(4,5)] by blast
  have "mset (map (snd \<circ> snd) (map callOf evs)) = mset frames" using assms(6) by (simp add: comp_assoc)
  note once = once_each [OF this]
  have times: "\<forall>(it, now, f) \<in> set (map callOf evs). t \<le> now \<and> now < t + udpFragmentAssemblyTTL"
    using assms(7) by (auto simp: split_beta)
  obtain k where "rs = replicate k (Inr None) @ [Inr (Some p)]"
    using deliver_frames [OF enc assms(2,3) times once rs(1)] by blast
  with rs(2) n show ?thesis by simp
qed

text \<open>C39 (roundtrip). And back: a datagram that comes from the target and is within the packet limits of both
  sides (16 KiB by default), within the 64000 bytes that 64 fragments carry and within the caller's
  buffer is sent to the client in datagrams that, received
  each once, in any order and within two seconds, by a client without unfinished packets, make its
  \<open>ReadFrom\<close> return the datagram whole, with the target as its source. A datagram above the server's limit is
  dropped, and the session is as before.\<close>

theorem udp_to_client:
  assumes "0 < length d" and "length d \<le> 64000" and "int (length d) \<le> us_maxPacket u"
    and "udpSourceMatchesTarget source (Some (us_target u))"
    and "\<not> ue_exhausted (us_toClient u)" and "us_maxPacket u \<le> ue_maxPacket (us_toClient u)"
    and "us_frames (targetDatagram source d None u) = us_frames u @ frames"
    and "mset (map (snd \<circ> snd) calls) = mset frames"
    and "\<forall>(it, now, f) \<in> set calls. t \<le> now \<and> now < t + udpFragmentAssemblyTTL"
    and "uc_stream c \<noteq> None" and "ud_pending (uc_decoder c) = []" and "int (length d) \<le> ud_maxPacket (uc_decoder c)"
    and "length d \<le> bufLen"
  shows "(\<exists>c'. ReadFrom bufLen (map receiveOf calls) (Some c) = Some (Some c', Inr (d, uc_target c), []))
    \<and> (\<forall>large. us_maxPacket u < int (length large) \<longrightarrow> targetDatagram source large None u = u)"
proof -
  have large: "targetDatagram source large None u = u" if "us_maxPacket u < int (length large)" for large
    using that assms(1,3) by (simp add: targetDatagram_def Let_def)
  have "fragCount d \<le> 64" using assms(2) fragCount_less [of 64 d] by simp
  then obtain e fs where enc: "Encode d (us_toClient u) = (e, Inr fs)"
    using assms(1,3,5,6) by (auto simp: Encode_Inr)
  have "take (nat (us_maxPacket u + 1)) d = d" using assms(3) by simp
  then have "us_frames (targetDatagram source d None u) = us_frames u @ fs"
    using assms(1,3,4) enc by (simp add: targetDatagram_def sendFrames_def)
  then have enc: "Encode d (us_toClient u) = (e, Inr frames)" using assms(7) enc by simp
  obtain d' rs where run: "decode_run calls (uc_decoder c) = (d', rs)" by fastforce
  obtain k where "rs = replicate k (Inr None) @ [Inr (Some d)]"
    using deliver_frames [OF enc assms(12,11,9) once_each [OF assms(8)] run] by blast
  with readLoop_delivers [of calls c d' k d bufLen] run assms(10,13) large show ?thesis by (simp add: ReadFrom_def)
qed

section \<open>Witnesses\<close>

definition ex_target_addr :: Address where
  "ex_target_addr = \<lparr>ad_Type = AtypIPv4, ad_IP = [93, 184, 215, 14], ad_Domain = [], ad_Port = 443\<rparr>"

definition ex_client :: Client where
  "ex_client = \<lparr>cl_Conn = None, cl_h3 = None, cl_transport = None, cl_auth = ex_auth, cl_serverName = ''s'',
     cl_enableDatagrams = True, cl_udpMaxPacket = 1200, cl_closed = False, cl_closeErr = None\<rparr>"

definition ex_stream_env :: stream_env where
  "ex_stream_env = \<lparr>se_unicode = ex_unicode, se_nonce = Some (replicate 16 7), se_now = 0, se_open = True, se_send = True,
     se_response = serverStatus ex_serve_env ''192.0.2.1:9'' ex_server\<rparr>"

theorem connect_end_to_end_witness:
  "\<exists>conn s' h. DialTCP ex_stream_env ex_client (Some ex_target_addr) = (Some (hc_RequestStream conn), Inr conn)
     \<and> ServeHTTP ex_serve_env ((hc_request conn)\<lparr>rq_RemoteAddr := ''192.0.2.1:9''\<rparr>) ex_server
         = Some (s', Relaying h (JoinHostPort (IP_String [93, 184, 215, 14]) (Itoa 443)))"
proof -
  have ok: "server_ok ex_server" by (rule Listen_ok(1) [OF ex_listen ex_skew])
  have name: "ToLower ex_unicode (TrimSpace ''s'') = ''s''"
    by (simp add: plain_one plain_char_def ToLower_def isASCII_def ascii_lower_def)
  have srv: "sv_serverName ex_server = ''s''" "sv_auth ex_server = ex_auth" "sv_network ex_server = ex_hooks"
      "li_sem (sv_limiter ex_server) < li_semCap (sv_limiter ex_server)"
    by (simp_all add: ex_server_def newServer_def ex_server_config_def NewLimiter_def ex_config_def)
  have port: "unat (443 :: 16 word) = 443" by simp
  show ?thesis
    using connect_end_to_end [of ex_client ex_key "[]" ex_server ex_unicode ex_target_addr ex_stream_env ex_serve_env
        "replicate 16 7" "''192.0.2.1:9''" "\<lambda>_ _. True"] ok srv(4) ex_allowed
    by (simp add: srv(1-3) name port ex_client_def ex_target_addr_def ex_stream_env_def ex_serve_env_def ex_hooks_def ex_auth_def
        newReplayCache_def rc_keys_def)
qed

theorem udp_to_target_witness:
  "\<exists>c' frames u. WriteTo 0 True None [7] (Some (newUDPConn (Some openStream) ''t'' 1200)) = (Some c', frames, Inr 1)
     \<and> session_run (startSession ex_udp_server ex_udp_addr 0) (map (\<lambda>f. FromClient [] 5 f True) frames) u
     \<and> us_sent u = [([7], ex_udp_addr)]"
proof -
  let ?u0 = "startSession ex_udp_server ex_udp_addr 0" and ?f = "mkFrame 0 0 1 [7]"
  have w: "\<exists>c'. WriteTo 0 True None [7] (Some (newUDPConn (Some openStream) ''t'' 1200)) = (Some c', [?f], Inr 1)"
  proof -
    have "Encode [7] (newUDPFragmentEncoder 1200) = (newUDPFragmentEncoder 1200\<lparr>ue_nextSeq := 1\<rparr>, Inr [?f])"
      by (simp add: Encode_Inr newUDPFragmentEncoder_def fragCount_def chunk_def)
    then show ?thesis by (simp add: WriteTo_def newUDPConn_def getWriteDeadline_def)
  qed
  then obtain c' where w: "WriteTo 0 True None [7] (Some (newUDPConn (Some openStream) ''t'' 1200)) = (Some c', [?f], Inr 1)" by blast
  have u0: "us_reading ?u0" "ud_pending (us_fromClient ?u0) = []" "ud_maxPacket (us_fromClient ?u0) = 65535" "us_sent ?u0 = []"
      "us_target ?u0 = ex_udp_addr"
    by (simp_all add: startSession_def newUDPFragmentDecoder_def ex_udp_server_def)
  then have "gm_order [] (ud_pending (pruneExpiredLocked 5 (us_fromClient ?u0)))"
    by (simp add: pruneExpiredLocked_def gm_order_def)
  then obtain u where "session_step (FromClient [] 5 ?f True) ?u0 = Some u" using u0(1) by simp
  from session_run.step [OF session_run.start this] have run: "session_run ?u0 [FromClient [] 5 ?f True] u" by simp
  have "us_sent u = [([7], ex_udp_addr)]"
    using udp_to_target [OF w _ _ run, of 5] u0 by (simp add: all_sent_def)
  with w run show ?thesis by (intro exI conjI) auto
qed

theorem udp_to_client_witness:
  "\<exists>c'. ReadFrom 9 [Received [] 5 (mkFrame 0 0 1 [7])] (Some (newUDPConn (Some openStream) ''t'' 1200)) = Some (Some c', Inr ([7], ''t''), [])"
proof -
  let ?u0 = "startSession ex_udp_server ex_udp_addr 0" and ?f = "mkFrame 0 0 1 [7]" and ?c = "newUDPConn (Some openStream) ''t'' 1200"
  have src: "udpSourceMatchesTarget (UDPNetAddr ex_udp_addr) (Some ex_udp_addr)"
    by (simp add: udpSourceMatchesTarget_def ex_udp_addr_def IP_Equal_def)
  have u0: "us_maxPacket ?u0 = 65535" "us_target ?u0 = ex_udp_addr" "us_frames ?u0 = []" "us_toClient ?u0 = newUDPFragmentEncoder 65535"
    by (simp_all add: startSession_def ex_udp_server_def)
  have "Encode [7] (newUDPFragmentEncoder 65535) = (newUDPFragmentEncoder 65535\<lparr>ue_nextSeq := 1\<rparr>, Inr [?f])"
    by (simp add: Encode_Inr newUDPFragmentEncoder_def fragCount_def chunk_def)
  then have frames: "us_frames (targetDatagram (UDPNetAddr ex_udp_addr) [7] None ?u0) = [?f]"
    by (simp add: targetDatagram_def u0 src sendFrames_def)
  have enc: "ue_maxPacket (newUDPFragmentEncoder 65535) = 65535" "\<not> ue_exhausted (newUDPFragmentEncoder 65535)"
    by (simp_all add: newUDPFragmentEncoder_def)
  have c: "uc_stream ?c \<noteq> None" "ud_pending (uc_decoder ?c) = []" "ud_maxPacket (uc_decoder ?c) = 1200" "uc_target ?c = ''t''"
    by (simp_all add: newUDPConn_def newUDPFragmentDecoder_def)
  show ?thesis
    using udp_to_client [of "[7]" ?u0 "UDPNetAddr ex_udp_addr" "[?f]" "[([], 5, ?f)]" 5 ?c 9] frames
    by (simp add: u0 src c enc receiveOf_def)
qed

end
